(* ===== verification/Prelude.thy ===== *)
theory Prelude
  imports Main "HOL-Library.Product_Lexorder"
begin

section \<open>Shared vocabulary: types, list tables, slices, results\<close>

text \<open>
  This theory holds what every component shares: the names of the basic data of the
  service (identifiers, time stamps, texts), the Python slice \<open>xs[a:b]\<close>, the
  five relational operations the SQL statements of \<^verbatim>\<open>app/repositories\<close> are
  built from, and the fact collections the component proofs draw on.
\<close>

text \<open>
  \<open>uuid\<close> stands for a \<^verbatim>\<open>uuid.UUID\<close>; only equality and the order used by
  \<^verbatim>\<open>ORDER BY id\<close> matter, so a number is enough. \<open>time\<close> is a time stamp in
  microseconds; arithmetic on it (leases) is on the integers.
\<close>

type_synonym uuid = nat
type_synonym time = int

named_theorems row_simps \<open>simp rules on list tables\<close>
named_theorems slice_simps \<open>simp rules on slices of a text\<close>

subsection \<open>Python slices with non-negative bounds\<close>

definition slice :: "'a list \<Rightarrow> nat \<Rightarrow> nat \<Rightarrow> 'a list" where
  "slice xs a b = take (b - a) (drop a xs)"

lemma length_slice [slice_simps]: "length (slice xs a b) = min (b - a) (length xs - a)"
  by (simp add: slice_def)

lemma slice_whole [slice_simps]: "slice xs 0 (length xs) = xs"
  by (simp add: slice_def)

lemma slice_empty [slice_simps]: "b \<le> a \<Longrightarrow> slice xs a b = []"
  by (simp add: slice_def)

lemma slice_nonempty: "a < b \<Longrightarrow> b \<le> length xs \<Longrightarrow> slice xs a b \<noteq> []"
  by (simp add: slice_def)

lemma slice_append_left: "b \<le> length xs \<Longrightarrow> slice (xs @ ys) a b = slice xs a b"
  by (auto simp: slice_def)

lemma slice_append_right:
  "length xs \<le> a \<Longrightarrow> slice (xs @ ys) a b = slice ys (a - length xs) (b - length xs)"
  by (auto simp: slice_def)

lemma slice_middle: "slice (xs @ ys @ zs) (length xs) (length xs + length ys) = ys"
  by (simp add: slice_def)

lemma slice_nth: "i < length (slice xs a b) \<Longrightarrow> slice xs a b ! i = xs ! (a + i)"
  by (auto simp: slice_def)

subsection \<open>Tables as lists of rows\<close>

text \<open>
  A table is the list of its rows. \<open>SELECT\<close> filters, \<open>ORDER BY\<close> is a stable sort,
  \<open>LIMIT 1\<close> with \<^verbatim>\<open>scalar_one_or_none\<close> takes the first row if there is one.
\<close>

definition select_where :: "('r \<Rightarrow> bool) \<Rightarrow> 'r list \<Rightarrow> 'r list" where
  "select_where p rows = filter p rows"

definition order_by :: "('r \<Rightarrow> 'k::linorder) \<Rightarrow> 'r list \<Rightarrow> 'r list" where
  "order_by k rows = sort_key k rows"

definition first_row :: "'r list \<Rightarrow> 'r option" where
  "first_row rows = (case rows of [] \<Rightarrow> None | r # _ \<Rightarrow> Some r)"

definition update_where :: "('r \<Rightarrow> bool) \<Rightarrow> ('r \<Rightarrow> 'r) \<Rightarrow> 'r list \<Rightarrow> 'r list" where
  "update_where p f rows = map (\<lambda>r. if p r then f r else r) rows"

definition delete_where :: "('r \<Rightarrow> bool) \<Rightarrow> 'r list \<Rightarrow> 'r list" where
  "delete_where p rows = filter (\<lambda>r. \<not> p r) rows"

lemma set_select_where [row_simps]: "set (select_where p rows) = {r \<in> set rows. p r}"
  by (simp add: select_where_def)

lemma set_order_by [row_simps]: "set (order_by k rows) = set rows"
  by (simp add: order_by_def)

lemma set_delete_where [row_simps]: "set (delete_where p rows) = {r \<in> set rows. \<not> p r}"
  by (simp add: delete_where_def)

lemma set_update_where [row_simps]:
  "set (update_where p f rows) = (\<lambda>r. if p r then f r else r) ` set rows"
  by (simp add: update_where_def)

lemma length_update_where [row_simps]: "length (update_where p f rows) = length rows"
  by (simp add: update_where_def)

lemma sorted_order_by: "sorted (map k (order_by k rows))"
  by (simp add: order_by_def)

lemma first_row_None [row_simps]: "first_row rows = None \<longleftrightarrow> rows = []"
  by (simp add: first_row_def split: list.split)

lemma first_row_mem: "first_row rows = Some r \<Longrightarrow> r \<in> set rows"
  by (auto simp: first_row_def split: list.splits)

lemma first_row_least:
  assumes "first_row (order_by k (select_where p rows)) = Some r"
  shows "r \<in> set rows" and "p r" and "\<And>s. s \<in> set rows \<Longrightarrow> p s \<Longrightarrow> k r \<le> k s"
proof -
  let ?xs = "order_by k (select_where p rows)"
  have mem: "r \<in> set ?xs" using assms by (rule first_row_mem)
  then show "r \<in> set rows" and "p r" by (simp_all add: row_simps)
  fix s assume "s \<in> set rows" "p s"
  then have s: "s \<in> set ?xs" by (simp add: row_simps)
  obtain ys where ys: "?xs = r # ys"
    using assms by (auto simp: first_row_def split: list.splits)
  have "sorted (map k (r # ys))" using sorted_order_by[of k "select_where p rows"] ys by simp
  then show "k r \<le> k s" using s ys by auto
qed

lemma first_select_None:
  "first_row (order_by k (select_where p rows)) = None \<longleftrightarrow> (\<forall>r \<in> set rows. \<not> p r)"
proof -
  have "order_by k (select_where p rows) = [] \<longleftrightarrow> set (order_by k (select_where p rows)) = {}"
    by (simp only: set_empty)
  then show ?thesis by (auto simp: row_simps)
qed

text \<open>Primary keys: a row found by its key is the only one.\<close>

lemma map_update_where_key:
  "(\<And>r. k (f r) = k r) \<Longrightarrow> map k (update_where p f rows) = map k rows"
  by (simp add: update_where_def)

lemma distinct_delete_where: "distinct (map k rows) \<Longrightarrow> distinct (map k (delete_where p rows))"
  by (simp add: delete_where_def distinct_map_filter)

lemma distinct_key_eq:
  "distinct (map k rows) \<Longrightarrow> r \<in> set rows \<Longrightarrow> s \<in> set rows \<Longrightarrow> k r = k s \<Longrightarrow> r = s"
  by (auto simp: distinct_map dest: inj_onD)

lemma find_Some_mem: "List.find p rows = Some r \<Longrightarrow> r \<in> set rows \<and> p r"
  by (auto simp: find_Some_iff)

lemma find_None_all: "List.find p rows = None \<longleftrightarrow> (\<forall>r \<in> set rows. \<not> p r)"
  by (auto simp: find_None_iff)

lemma find_key_unique:
  "distinct (map k rows) \<Longrightarrow> r \<in> set rows \<Longrightarrow> p r \<Longrightarrow>
   (\<And>s. p s \<Longrightarrow> k s = k r) \<Longrightarrow> List.find p rows = Some r"
proof -
  assume d: "distinct (map k rows)" and r: "r \<in> set rows" "p r" and u: "\<And>s. p s \<Longrightarrow> k s = k r"
  obtain s where s: "List.find p rows = Some s" using r by (cases "List.find p rows") (auto simp: find_None_all)
  then have "s \<in> set rows" "p s" by (auto dest: find_Some_mem)
  then have "s = r" using d r u by (blast intro: distinct_key_eq)
  with s show ?thesis by simp
qed

subsection \<open>Results that are mapped\<close>

lemma map_sum_Inl: "map_sum id f r = Inl e \<longleftrightarrow> r = Inl e"
  by (cases r) simp_all

lemma map_sum_Inr: "map_sum f g r = Inr b \<longleftrightarrow> (\<exists>x. r = Inr x \<and> b = g x)"
  by (cases r) auto

end
