(* ===== verification/Json.thy ===== *)
theory Json
  imports PyStr Complex_Main
begin

section \<open>JSON values, identifiers as text\<close>

text \<open>
  What the JSONB columns hold and the wire carries: job results, review payloads, audit
  details. Numbers are exact rationals (the code's floats are read as the numbers they
  denote, without rounding). Objects keep their keys in insertion order, as Python dicts do.
\<close>

datatype json =
    JNull
  | JBool bool
  | JNum rat
  | JStr string
  | JArr "json list"
  | JObj "(string \<times> json) list"

definition jint :: "int \<Rightarrow> json" where
  "jint n = JNum (of_int n)"

definition jnat :: "nat \<Rightarrow> json" where
  "jnat n = jint (int n)"

definition jopt :: "('a \<Rightarrow> json) \<Rightarrow> 'a option \<Rightarrow> json" where
  "jopt f v = (case v of None \<Rightarrow> JNull | Some x \<Rightarrow> f x)"

definition jfield :: "string \<Rightarrow> json \<Rightarrow> json option" where
  "jfield k v = (case v of JObj kvs \<Rightarrow> map_of kvs k | _ \<Rightarrow> None)"

text \<open>PostgreSQL refuses a zero byte in text, and in the strings and keys of a JSONB value.\<close>

definition has_nul :: "string \<Rightarrow> bool" where
  "has_nul s \<longleftrightarrow> list_ex (\<lambda>c. code c = 0) s"

fun json_nul :: "json \<Rightarrow> bool" where
  "json_nul (JStr s) = has_nul s"
| "json_nul (JArr vs) = list_ex json_nul vs"
| "json_nul (JObj kvs) = list_ex (\<lambda>kv. has_nul (fst kv) \<or> json_nul (snd kv)) kvs"
| "json_nul _ = False"

text \<open>\<open>str(uuid)\<close>: 32 hexadecimal digits in groups of 8, 4, 4, 4 and 12.\<close>

definition hex_char :: "nat \<Rightarrow> char" where
  "hex_char d = (if d < 10 then digit_char d else char_of (87 + d))"

fun hex_digits :: "nat \<Rightarrow> nat \<Rightarrow> string" where
  "hex_digits 0 n = []"
| "hex_digits (Suc k) n = hex_digits k (n div 16) @ [hex_char (n mod 16)]"

definition uuid_str :: "nat \<Rightarrow> string" where
  "uuid_str u =
     (let h = hex_digits 32 u in
      join ''-'' [slice h 0 8, slice h 8 12, slice h 12 16, slice h 16 20, slice h 20 32])"

definition juuid :: "nat \<Rightarrow> json" where
  "juuid u = JStr (uuid_str u)"

definition all_some :: "'a option list \<Rightarrow> 'a list option" where
  "all_some xs = (if list_all (\<lambda>x. x \<noteq> None) xs then Some (map the xs) else None)"

lemma all_some_map_Some: "(\<And>x. x \<in> set xs \<Longrightarrow> f x = Some (g x)) \<Longrightarrow> all_some (map f xs) = Some (map g xs)"
  by (simp add: all_some_def list_all_iff)

lemma all_some_mem: "all_some (map f xs) = Some ys \<Longrightarrow> y \<in> set ys \<Longrightarrow> \<exists>x \<in> set xs. f x = Some y"
  by (fastforce simp: all_some_def list_all_iff split: if_splits)

lemma length_hex_digits: "length (hex_digits k n) = k"
  by (induction k n rule: hex_digits.induct) simp_all

end
