(* ===== verification/Jobs.thy ===== *)
theory Jobs
  imports Json
begin

section \<open>Job rows: claim, lease, terminal states (app/repositories/*_jobs.py, job_claims.py)\<close>

text \<open>
  The three job tables share their columns and their claim code. A job row is the record
  \<open>job\<close>, extended by the document columns of each table; the operations are polymorphic
  in the extension, as \<^verbatim>\<open>claim_next\<close> is generic in the model class. Time stamps are
  microseconds. One operation sees one value of the clock.
\<close>

datatype job_state = Queued | Running | Completed | Failed

record job =
  job_id :: uuid
  job_tenant :: uuid
  job_status :: job_state
  job_result :: "json option"
  job_error :: "string option"
  job_attempts :: nat
  job_lease :: "time option"
  job_created :: time
  job_updated :: time

text \<open>Ingestion and extraction jobs name one document, change report jobs two.\<close>

record doc_job = job +
  dj_document :: uuid

record report_job = job +
  rj_base :: uuid
  rj_amended :: uuid

subsection \<open>Claiming\<close>

definition lease_seconds :: int where
  "lease_seconds = 15 * 60"

definition max_attempts :: nat where
  "max_attempts = 3"

definition lease_until :: "time \<Rightarrow> time" where
  "lease_until now = now + lease_seconds * 1000000"

text \<open>
  The \<^verbatim>\<open>WHERE\<close> clause; comparing a missing lease is not true. \<open>locked\<close> holds the rows
  other transactions have locked, which \<^verbatim>\<open>SKIP LOCKED\<close> passes over.
\<close>

definition runnable :: "time \<Rightarrow> 'm job_scheme \<Rightarrow> bool" where
  "runnable now j \<longleftrightarrow> job_status j = Queued
     \<or> (job_status j = Running \<and> (case job_lease j of None \<Rightarrow> False | Some t \<Rightarrow> t \<le> now))"

definition claim_row :: "time \<Rightarrow> 'm job_scheme \<Rightarrow> 'm job_scheme" where
  "claim_row now j =
     (let a = job_attempts j + 1 in
      if a > max_attempts
      then j\<lparr>job_attempts := a, job_status := Failed, job_result := None,
             job_error := Some ''max_attempts_exceeded'', job_lease := None, job_updated := now\<rparr>
      else j\<lparr>job_attempts := a, job_status := Running, job_lease := Some (lease_until now),
             job_updated := now\<rparr>)"

definition claim_key :: "'m job_scheme \<Rightarrow> time \<times> uuid" where
  "claim_key j = (job_created j, job_id j)"

definition claim_next :: "time \<Rightarrow> uuid set \<Rightarrow> 'm job_scheme list \<Rightarrow> 'm job_scheme option \<times> 'm job_scheme list" where
  "claim_next now locked rows =
     (case first_row (order_by claim_key (select_where (\<lambda>j. runnable now j \<and> job_id j \<notin> locked) rows)) of
        None \<Rightarrow> (None, rows)
      | Some j \<Rightarrow> (Some (claim_row now j), update_where (\<lambda>r. job_id r = job_id j) (claim_row now) rows))"

subsection \<open>Terminal states\<close>

text \<open>
  \<^verbatim>\<open>mark_completed\<close> and \<^verbatim>\<open>mark_failed\<close> assign four columns of the object the worker
  loaded when it claimed, and the flush writes the columns that differ from what was
  loaded, to whatever the row is now. \<open>None\<close>: the row is gone, which the ORM raises.
\<close>

definition dirty :: "'c \<Rightarrow> 'c \<Rightarrow> 'c \<Rightarrow> 'c" where
  "dirty loaded new current = (if new = loaded then current else new)"

definition flush_row :: "time \<Rightarrow> 'm job_scheme \<Rightarrow> job_state \<Rightarrow> json option \<Rightarrow> string option
    \<Rightarrow> 'm job_scheme \<Rightarrow> 'm job_scheme" where
  "flush_row now j st res err r =
     r\<lparr>job_status := dirty (job_status j) st (job_status r),
       job_result := dirty (job_result j) res (job_result r),
       job_error := dirty (job_error j) err (job_error r),
       job_lease := dirty (job_lease j) None (job_lease r),
       job_updated := now\<rparr>"

definition flush_terminal :: "time \<Rightarrow> 'm job_scheme \<Rightarrow> job_state \<Rightarrow> json option \<Rightarrow> string option
    \<Rightarrow> 'm job_scheme list \<Rightarrow> 'm job_scheme list option" where
  "flush_terminal now j st res err rows =
     (if \<not> list_ex (\<lambda>r. job_id r = job_id j) rows then None
      else if job_status j = st \<and> job_result j = res \<and> job_error j = err \<and> job_lease j = None then Some rows
      else Some (update_where (\<lambda>r. job_id r = job_id j) (flush_row now j st res err) rows))"

definition mark_completed :: "time \<Rightarrow> 'm job_scheme \<Rightarrow> json \<Rightarrow> 'm job_scheme list \<Rightarrow> 'm job_scheme list option" where
  "mark_completed now j result rows = flush_terminal now j Completed (Some result) None rows"

definition mark_failed :: "time \<Rightarrow> 'm job_scheme \<Rightarrow> string \<Rightarrow> 'm job_scheme list \<Rightarrow> 'm job_scheme list option" where
  "mark_failed now j error rows = flush_terminal now j Failed None (Some (take 1024 error)) rows"

subsection \<open>Creating, finding, deleting\<close>

definition new_doc_job :: "uuid \<Rightarrow> time \<Rightarrow> uuid \<Rightarrow> uuid \<Rightarrow> doc_job" where
  "new_doc_job i now tenant doc =
     \<lparr>job_id = i, job_tenant = tenant, job_status = Queued, job_result = None, job_error = None,
      job_attempts = 0, job_lease = None, job_created = now, job_updated = now, dj_document = doc\<rparr>"

definition new_report_job :: "uuid \<Rightarrow> time \<Rightarrow> uuid \<Rightarrow> uuid \<Rightarrow> uuid \<Rightarrow> report_job" where
  "new_report_job i now tenant base amended =
     \<lparr>job_id = i, job_tenant = tenant, job_status = Queued, job_result = None, job_error = None,
      job_attempts = 0, job_lease = None, job_created = now, job_updated = now,
      rj_base = base, rj_amended = amended\<rparr>"

definition find_job :: "uuid \<Rightarrow> uuid \<Rightarrow> 'm job_scheme list \<Rightarrow> 'm job_scheme option" where
  "find_job tenant i rows = List.find (\<lambda>j. job_id j = i \<and> job_tenant j = tenant) rows"

definition latest_key :: "'m job_scheme \<Rightarrow> time \<times> uuid" where
  "latest_key j = (- job_created j, job_id j)"

definition active :: "'m job_scheme \<Rightarrow> bool" where
  "active j \<longleftrightarrow> job_status j \<in> {Queued, Running}"

definition find_active_for_document :: "uuid \<Rightarrow> doc_job list \<Rightarrow> doc_job option" where
  "find_active_for_document doc rows =
     first_row (order_by latest_key (select_where (\<lambda>j. dj_document j = doc \<and> active j) rows))"

definition find_latest_for_document :: "uuid \<Rightarrow> doc_job list \<Rightarrow> doc_job option" where
  "find_latest_for_document doc rows =
     first_row (order_by latest_key (select_where (\<lambda>j. dj_document j = doc) rows))"

definition list_for_base_document :: "uuid \<Rightarrow> uuid \<Rightarrow> report_job list \<Rightarrow> report_job list" where
  "list_for_base_document tenant base rows =
     order_by latest_key (select_where (\<lambda>j. job_tenant j = tenant \<and> rj_base j = base) rows)"

definition delete_jobs_for_document :: "uuid \<Rightarrow> doc_job list \<Rightarrow> doc_job list" where
  "delete_jobs_for_document doc rows = delete_where (\<lambda>j. dj_document j = doc) rows"

text \<open>\<^verbatim>\<open>delete_for_amendment\<close>: the ids of the deleted reports, and what is left.\<close>

definition delete_for_amendment :: "uuid \<Rightarrow> report_job list \<Rightarrow> uuid list \<times> report_job list" where
  "delete_for_amendment amended rows =
     (map job_id (select_where (\<lambda>j. rj_amended j = amended) rows),
      delete_where (\<lambda>j. rj_amended j = amended) rows)"

subsection \<open>What a claim does\<close>

lemma claim_row_keeps [simp]:
  "job_id (claim_row now j) = job_id j"
  "job_tenant (claim_row now j) = job_tenant j"
  "job_created (claim_row now j) = job_created j"
  "job.more (claim_row now j) = job.more j"
  by (simp_all add: claim_row_def Let_def)

lemma claim_row_attempts [simp]: "job_attempts (claim_row now j) = Suc (job_attempts j)"
  by (simp add: claim_row_def Let_def)

lemma claim_row_status:
  "job_status (claim_row now j) = (if job_attempts j < max_attempts then Running else Failed)"
  by (simp add: claim_row_def Let_def)

lemma claim_row_lease:
  "job_lease (claim_row now j) = (if job_attempts j < max_attempts then Some (lease_until now) else None)"
  by (simp add: claim_row_def Let_def)

lemma lease_until_greater: "now < lease_until now"
  by (simp add: lease_until_def lease_seconds_def)

lemma claim_next_Some:
  assumes "claim_next now locked rows = (Some j', rows')"
  obtains j where "j \<in> set rows" "runnable now j" "job_id j \<notin> locked" "j' = claim_row now j"
    "rows' = update_where (\<lambda>r. job_id r = job_id j) (claim_row now) rows"
    "\<forall>s \<in> set rows. runnable now s \<and> job_id s \<notin> locked \<longrightarrow> claim_key j \<le> claim_key s"
proof -
  obtain j where j: "first_row (order_by claim_key (select_where (\<lambda>j. runnable now j \<and> job_id j \<notin> locked) rows)) = Some j"
      "j' = claim_row now j" "rows' = update_where (\<lambda>r. job_id r = job_id j) (claim_row now) rows"
    using assms by (auto simp: claim_next_def split: option.splits)
  show thesis
    by (rule that[of j]) (use first_row_least[OF j(1)] j(2,3) in auto)
qed

lemma claim_next_None:
  "claim_next now locked rows = (None, rows') \<longleftrightarrow>
     rows' = rows \<and> (\<forall>j \<in> set rows. runnable now j \<longrightarrow> job_id j \<in> locked)"
  using first_select_None[of claim_key "\<lambda>j. runnable now j \<and> job_id j \<notin> locked" rows]
  by (auto simp: claim_next_def split: option.splits)

lemma claim_next_keeps_ids:
  "claim_next now locked rows = (r, rows') \<Longrightarrow> map job_id rows' = map job_id rows"
  by (auto simp: claim_next_def map_update_where_key split: option.splits)

text \<open>Claims still to come before a job is out of attempts.\<close>

definition claims_left :: "'m job_scheme \<Rightarrow> nat" where
  "claims_left j = (if active j then Suc max_attempts - job_attempts j else 0)"

definition pending_claims :: "'m job_scheme list \<Rightarrow> nat" where
  "pending_claims rows = sum_list (map claims_left rows)"

text \<open>
  What holds of every row. A terminal row may, after a stale worker wrote to it, hold a
  result beside the status \<open>Failed\<close>, or an error beside \<open>Completed\<close>.
\<close>

definition row_inv :: "'m job_scheme \<Rightarrow> bool" where
  "row_inv j \<longleftrightarrow>
     (case job_status j of
        Queued \<Rightarrow> job_attempts j = 0 \<and> job_lease j = None
      | Running \<Rightarrow> 1 \<le> job_attempts j \<and> job_attempts j \<le> max_attempts \<and> job_lease j \<noteq> None
      | _ \<Rightarrow> 1 \<le> job_attempts j \<and> job_attempts j \<le> Suc max_attempts \<and> job_lease j = None)"

lemma row_inv_attempts: "row_inv j \<Longrightarrow> job_attempts j \<le> Suc max_attempts"
  by (auto simp: row_inv_def split: job_state.splits)

lemma row_inv_claim: "row_inv j \<Longrightarrow> runnable now j \<Longrightarrow> row_inv (claim_row now j)"
  by (auto simp: row_inv_def runnable_def claim_row_status claim_row_lease split: job_state.splits)

lemma claims_left_claim:
  "row_inv j \<Longrightarrow> runnable now j \<Longrightarrow> claims_left (claim_row now j) < claims_left j"
  by (auto simp: claims_left_def active_def claim_row_status row_inv_def runnable_def max_attempts_def)

lemma sum_list_update_key:
  fixes f :: "'r \<Rightarrow> nat"
  assumes "distinct (map k rows)" "j \<in> set rows" "f (g j) < f j"
  shows "sum_list (map f (update_where (\<lambda>r. k r = k j) g rows)) < sum_list (map f rows)"
  using assms
proof (induction rows)
  case (Cons r rows)
  have same: "sum_list (map f (update_where (\<lambda>r. k r = k j) g rows)) = sum_list (map f rows)"
    if "k j \<notin> k ` set rows"
    using that by (induction rows) (auto simp: update_where_def)
  show ?case
  proof (cases "k r = k j")
    case True
    then have "r = j" using Cons.prems by (auto dest: distinct_key_eq)
    then have "k j \<notin> k ` set rows" using Cons.prems(1) by simp
    with same show ?thesis using \<open>r = j\<close> Cons.prems(3) by (simp add: update_where_def)
  next
    case False
    then have "j \<in> set rows" using Cons.prems(2) by auto
    then have "sum_list (map f (update_where (\<lambda>r. k r = k j) g rows)) < sum_list (map f rows)"
      using Cons.IH Cons.prems by simp
    with False show ?thesis by (simp add: update_where_def)
  qed
qed simp

definition table_ok :: "'m job_scheme list \<Rightarrow> bool" where
  "table_ok rows \<longleftrightarrow> distinct (map job_id rows) \<and> (\<forall>r \<in> set rows. row_inv r)"

lemma table_ok_claim:
  assumes "table_ok rows" "claim_next now locked rows = (r, rows')"
  shows "table_ok rows'"
proof (cases r)
  case None
  then show ?thesis using assms claim_next_None[of now locked rows rows'] by simp
next
  case (Some j')
  with assms(2) obtain j where j: "j \<in> set rows" "runnable now j"
      "rows' = update_where (\<lambda>r. job_id r = job_id j) (claim_row now) rows"
    using claim_next_Some[of now locked rows j' rows'] by metis
  have "row_inv (claim_row now x)" if "x \<in> set rows" "job_id x = job_id j" for x
    using that j assms(1) by (metis distinct_key_eq row_inv_claim table_ok_def)
  then show ?thesis using assms(1) claim_next_keeps_ids[OF assms(2)]
    by (auto simp: table_ok_def j(3) row_simps)
qed

lemma claim_uses_one:
  assumes "table_ok rows" "claim_next now locked rows = (Some j', rows')"
  shows "pending_claims rows' < pending_claims rows"
proof -
  obtain j where j: "j \<in> set rows" "runnable now j"
      "rows' = update_where (\<lambda>r. job_id r = job_id j) (claim_row now) rows"
    using assms(2) by (elim claim_next_Some) auto
  then show ?thesis
    using assms(1) sum_list_update_key[of job_id rows j claims_left "claim_row now"] claims_left_claim
    by (auto simp: pending_claims_def table_ok_def)
qed

subsection \<open>Terminal writes\<close>

lemma flush_row_simps [simp]:
  "job_id (flush_row now j st res err r) = job_id r"
  "job_attempts (flush_row now j st res err r) = job_attempts r"
  "job_status (flush_row now j st res err r) = dirty (job_status j) st (job_status r)"
  "job_lease (flush_row now j st res err r) = dirty (job_lease j) None (job_lease r)"
  by (simp_all add: flush_row_def)

lemma flush_terminal_Some:
  assumes "flush_terminal now j st res err rows = Some rows'"
  shows "map job_id rows' = map job_id rows"
    and "\<And>r'. r' \<in> set rows' \<Longrightarrow> r' \<in> set rows
      \<or> (\<exists>r \<in> set rows. job_id r = job_id j \<and> r' = flush_row now j st res err r)"
  using assms by (auto simp: flush_terminal_def map_update_where_key row_simps split: if_splits)

lemma table_ok_flush:
  assumes "table_ok rows" "flush_terminal now j st res err rows = Some rows'"
    "job_status j = Running" "job_lease j \<noteq> None" "st \<in> {Completed, Failed}"
    "\<forall>r \<in> set rows. job_id r = job_id j \<longrightarrow> job_status r \<noteq> Queued"
  shows "table_ok rows'"
proof -
  have "row_inv r'" if "r' \<in> set rows'" for r'
    using flush_terminal_Some(2)[OF assms(2) that]
  proof
    assume "\<exists>r \<in> set rows. job_id r = job_id j \<and> r' = flush_row now j st res err r"
    then obtain r where r: "r \<in> set rows" "job_id r = job_id j" "r' = flush_row now j st res err r" by blast
    have "row_inv r" "job_status r \<noteq> Queued" using r assms(1,6) by (auto simp: table_ok_def)
    then have "1 \<le> job_attempts r \<and> job_attempts r \<le> Suc max_attempts"
      by (auto simp: row_inv_def split: job_state.splits)
    moreover have "job_status r' = st" "job_lease r' = None"
      using assms(3-5) by (auto simp: r(3) dirty_def)
    ultimately show ?thesis using assms(5) by (auto simp: row_inv_def r(3))
  qed (use assms(1) in \<open>simp add: table_ok_def\<close>)
  then show ?thesis using assms(1) by (simp add: table_ok_def flush_terminal_Some(1)[OF assms(2)])
qed

lemma dirty_self [simp]: "dirty x new x = new"
  by (simp add: dirty_def)

definition set_terminal :: "time \<Rightarrow> job_state \<Rightarrow> json option \<Rightarrow> string option \<Rightarrow> 'm job_scheme \<Rightarrow> 'm job_scheme" where
  "set_terminal now st res err r =
     r\<lparr>job_status := st, job_result := res, job_error := err, job_lease := None, job_updated := now\<rparr>"

text \<open>A worker whose row nobody touched since the claim writes exactly the terminal row.\<close>

lemma flush_terminal_owned:
  assumes "distinct (map job_id rows)" "j \<in> set rows" "job_status j \<noteq> st"
  shows "flush_terminal now j st res err rows =
    Some (update_where (\<lambda>r. job_id r = job_id j) (set_terminal now st res err) rows)"
proof -
  have same: "r = j" if "r \<in> set rows" "job_id r = job_id j" for r
    using that assms by (auto dest: distinct_key_eq)
  have "update_where (\<lambda>r. job_id r = job_id j) (flush_row now j st res err) rows
      = update_where (\<lambda>r. job_id r = job_id j) (set_terminal now st res err) rows"
    unfolding update_where_def
    by (rule map_cong) (auto simp: flush_row_def set_terminal_def dest: same)
  moreover have "list_ex (\<lambda>r. job_id r = job_id j) rows" using assms(2) by (auto simp: list_ex_iff)
  ultimately show ?thesis using assms(3)
    by (simp add: flush_terminal_def)
qed

lemma mark_completed_owned:
  "distinct (map job_id rows) \<Longrightarrow> j \<in> set rows \<Longrightarrow> job_status j = Running \<Longrightarrow>
   mark_completed now j res rows =
     Some (update_where (\<lambda>r. job_id r = job_id j) (set_terminal now Completed (Some res) None) rows)"
  by (simp add: mark_completed_def flush_terminal_owned)

lemma mark_failed_owned:
  "distinct (map job_id rows) \<Longrightarrow> j \<in> set rows \<Longrightarrow> job_status j = Running \<Longrightarrow>
   mark_failed now j e rows =
     Some (update_where (\<lambda>r. job_id r = job_id j) (set_terminal now Failed None (Some (take 1024 e))) rows)"
  by (simp add: mark_failed_def flush_terminal_owned)

lemma find_job_Some: "find_job t i rows = Some j \<Longrightarrow> j \<in> set rows \<and> job_id j = i \<and> job_tenant j = t"
  by (auto simp: find_job_def dest: find_Some_mem)

lemma find_job_complete:
  "distinct (map job_id rows) \<Longrightarrow> j \<in> set rows \<Longrightarrow> find_job (job_tenant j) (job_id j) rows = Some j"
  unfolding find_job_def by (rule find_key_unique[of job_id]) auto

subsection \<open>Properties\<close>



text \<open>Claims and terminal writes leave a row's own columns alone.\<close>

lemma set_terminal_simps [simp]:
  "job_id (set_terminal now st res err r) = job_id r"
  "job_tenant (set_terminal now st res err r) = job_tenant r"
  "job_attempts (set_terminal now st res err r) = job_attempts r"
  "job_status (set_terminal now st res err r) = st"
  "job_result (set_terminal now st res err r) = res"
  "job_error (set_terminal now st res err r) = err"
  "job_lease (set_terminal now st res err r) = None"
  "job.more (set_terminal now st res err r) = job.more r"
  by (simp_all add: set_terminal_def)

lemma doc_job_columns [simp]:
  "dj_document (claim_row now j) = dj_document j"
  "dj_document (set_terminal now st res err j) = dj_document j"
  by (simp_all add: claim_row_def Let_def set_terminal_def)

lemma report_job_columns [simp]:
  "rj_base (claim_row now r) = rj_base r" "rj_amended (claim_row now r) = rj_amended r"
  "rj_base (set_terminal now st res err r) = rj_base r" "rj_amended (set_terminal now st res err r) = rj_amended r"
  by (simp_all add: claim_row_def Let_def set_terminal_def)

lemma table_ok_terminal:
  assumes "table_ok rows" "j \<in> set rows" "job_status j = Running" "st \<in> {Completed, Failed}"
  shows "table_ok (update_where (\<lambda>r. job_id r = job_id j) (set_terminal now st res err) rows)"
proof -
  have same: "r = j" if "r \<in> set rows" "job_id r = job_id j" for r
    using that assms(1,2) by (auto simp: table_ok_def dest: distinct_key_eq)
  have "row_inv j" using assms(1,2) by (simp add: table_ok_def)
  then have "row_inv (set_terminal now st res err j)"
    using assms(3,4) by (auto simp: row_inv_def)
  moreover have "map job_id (update_where (\<lambda>r. job_id r = job_id j) (set_terminal now st res err) rows) = map job_id rows"
    by (rule map_update_where_key) simp
  ultimately show ?thesis using assms(1) by (auto simp: table_ok_def row_simps dest: same)
qed

lemma pending_terminal:
  assumes "st \<in> {Completed, Failed}"
  shows "pending_claims (update_where (\<lambda>r. job_id r = job_id j) (set_terminal now st res err) rows) \<le> pending_claims rows"
proof (induction rows)
  case (Cons r rows)
  have "claims_left (set_terminal now st res err r) = 0" using assms by (auto simp: claims_left_def active_def)
  with Cons show ?case by (auto simp: pending_claims_def update_where_def)
qed (simp add: pending_claims_def update_where_def)

end
