(* ===== verification/JobPool.thy ===== *)
theory JobPool
  imports Jobs
begin

section \<open>Concurrent workers on one job table\<close>

text \<open>
  Any number of worker processes run against one table; each holds at most one claimed
  job, as the object it loaded at the claim. Claims, terminal writes, enqueues and deletes
  are atomic (each is one transaction); between them the clock moves, workers crash and
  others take over. The relation is nondeterministic in who moves and in the rows that
  happen to be locked when a claim looks.
\<close>

record 'm pool =
  p_rows :: "'m job_scheme list"
  p_now :: time
  p_held :: "(nat \<times> 'm job_scheme) list"

definition drop_worker :: "nat \<Rightarrow> (nat \<times> 'a) list \<Rightarrow> (nat \<times> 'a) list" where
  "drop_worker w held = filter (\<lambda>p. fst p \<noteq> w) held"

inductive pool_step :: "'m pool \<Rightarrow> 'm pool \<Rightarrow> bool" where
  Enqueue: "job_status j = Queued \<Longrightarrow> job_attempts j = 0 \<Longrightarrow> job_lease j = None \<Longrightarrow>
     job_id j \<notin> job_id ` set (p_rows s) \<Longrightarrow> job_id j \<notin> (job_id \<circ> snd) ` set (p_held s) \<Longrightarrow>
     pool_step s (s\<lparr>p_rows := p_rows s @ [j]\<rparr>)"
| Tick: "p_now s \<le> t \<Longrightarrow> pool_step s (s\<lparr>p_now := t\<rparr>)"
| Claim: "claim_next (p_now s) locked (p_rows s) = (Some j, rows) \<Longrightarrow> w \<notin> fst ` set (p_held s) \<Longrightarrow>
     job_status j = Running \<Longrightarrow> pool_step s (s\<lparr>p_rows := rows, p_held := (w, j) # p_held s\<rparr>)"
| Cap: "claim_next (p_now s) locked (p_rows s) = (Some j, rows) \<Longrightarrow> job_status j = Failed \<Longrightarrow>
     pool_step s (s\<lparr>p_rows := rows\<rparr>)"
| Complete: "(w, j) \<in> set (p_held s) \<Longrightarrow> mark_completed (p_now s) j res (p_rows s) = Some rows \<Longrightarrow>
     pool_step s (s\<lparr>p_rows := rows, p_held := drop_worker w (p_held s)\<rparr>)"
| Fail: "(w, j) \<in> set (p_held s) \<Longrightarrow> mark_failed (p_now s) j e (p_rows s) = Some rows \<Longrightarrow>
     pool_step s (s\<lparr>p_rows := rows, p_held := drop_worker w (p_held s)\<rparr>)"
| Crash: "pool_step s (s\<lparr>p_held := drop_worker w (p_held s)\<rparr>)"
| Delete: "pool_step s (s\<lparr>p_rows := delete_where p (p_rows s)\<rparr>)"

inductive reachable :: "'m pool \<Rightarrow> bool" where
  Start: "reachable \<lparr>p_rows = [], p_now = t, p_held = []\<rparr>"
| Step: "reachable s \<Longrightarrow> pool_step s s' \<Longrightarrow> reachable s'"

definition expired :: "time \<Rightarrow> 'm job_scheme \<Rightarrow> bool" where
  "expired now j \<longleftrightarrow> (case job_lease j of None \<Rightarrow> True | Some l \<Rightarrow> l \<le> now)"

text \<open>
  The invariant: a held job is a running one whose row, if it is still there, has at least
  its attempts; once the row has more, somebody else claimed it, so the lease had expired.
\<close>

definition held_ok :: "time \<Rightarrow> 'm job_scheme list \<Rightarrow> 'm job_scheme \<Rightarrow> bool" where
  "held_ok now rows j \<longleftrightarrow> job_status j = Running \<and> job_lease j \<noteq> None \<and>
     (\<forall>r \<in> set rows. job_id r = job_id j \<longrightarrow>
        job_status r \<noteq> Queued \<and> job_attempts j \<le> job_attempts r
        \<and> (job_attempts j < job_attempts r \<longrightarrow> expired now j)
        \<and> (job_attempts j = job_attempts r \<longrightarrow> job_status r = Running \<longrightarrow> job_lease r = job_lease j))"

definition pair_ok :: "time \<Rightarrow> nat \<times> 'm job_scheme \<Rightarrow> nat \<times> 'm job_scheme \<Rightarrow> bool" where
  "pair_ok now p q \<longleftrightarrow> (job_id (snd p) = job_id (snd q) \<longrightarrow>
     (fst p = fst q \<longrightarrow> snd p = snd q) \<and> (fst p \<noteq> fst q \<longrightarrow> job_attempts (snd p) \<noteq> job_attempts (snd q))
     \<and> (job_attempts (snd p) < job_attempts (snd q) \<longrightarrow> expired now (snd p)))"

definition exclusive :: "time \<Rightarrow> (nat \<times> 'm job_scheme) list \<Rightarrow> bool" where
  "exclusive now held \<longleftrightarrow> (\<forall>p \<in> set held. \<forall>q \<in> set held. pair_ok now p q)"

definition pool_inv :: "'m pool \<Rightarrow> bool" where
  "pool_inv s \<longleftrightarrow> table_ok (p_rows s) \<and> (\<forall>(w, j) \<in> set (p_held s). held_ok (p_now s) (p_rows s) j)
     \<and> exclusive (p_now s) (p_held s)"

lemma expired_mono: "expired now j \<Longrightarrow> now \<le> t \<Longrightarrow> expired t j"
  by (auto simp: expired_def split: option.splits)

lemma held_ok_mono: "held_ok now rows j \<Longrightarrow> now \<le> t \<Longrightarrow> set rows' \<subseteq> set rows \<Longrightarrow> held_ok t rows' j"
  unfolding held_ok_def by (blast intro: expired_mono)

lemma pair_ok_mono: "pair_ok now p q \<Longrightarrow> now \<le> t \<Longrightarrow> pair_ok t p q"
  by (auto simp: pair_ok_def intro: expired_mono)

lemma exclusive_mono: "exclusive now held \<Longrightarrow> now \<le> t \<Longrightarrow> set held' \<subseteq> set held \<Longrightarrow> exclusive t held'"
  unfolding exclusive_def using pair_ok_mono by blast

lemma set_drop_worker: "set (drop_worker w held) \<subseteq> set held"
  by (auto simp: drop_worker_def)

subsection \<open>Every step keeps the invariant\<close>

lemma held_ok_flush:
  assumes "held_ok now rows h" "flush_terminal now j st res err rows = Some rows'"
    "job_status j = Running" "st \<in> {Completed, Failed}"
  shows "held_ok now rows' h"
  unfolding held_ok_def
proof (intro conjI ballI impI)
  show "job_status h = Running" "job_lease h \<noteq> None" using assms(1) by (simp_all add: held_ok_def)
  fix r' assume r': "r' \<in> set rows'" "job_id r' = job_id h"
  obtain r where r: "r \<in> set rows" "job_id r = job_id r'" "job_attempts r = job_attempts r'"
      "r' = r \<or> job_status r' = st"
    using flush_terminal_Some(2)[OF assms(2) r'(1)] assms(3,4) by (auto simp: dirty_def)
  with assms(1) r'(2) show "job_status r' \<noteq> Queued" "job_attempts h \<le> job_attempts r'"
    using assms(4) by (auto simp: held_ok_def)
  show "expired now h" if "job_attempts h < job_attempts r'"
    using assms(1) r r'(2) that by (auto simp: held_ok_def)
  show "job_lease r' = job_lease h" if "job_attempts h = job_attempts r'" "job_status r' = Running"
    using assms(1,4) r r'(2) that by (auto simp: held_ok_def)
qed

lemma held_ok_claim:
  assumes "held_ok now rows h" "claim_next now locked rows = (Some j', rows')"
  shows "held_ok now rows' h" and "job_id h = job_id j' \<Longrightarrow> job_attempts h < job_attempts j' \<and> expired now h"
proof -
  obtain j where j: "j \<in> set rows" "runnable now j" "j' = claim_row now j"
      "rows' = update_where (\<lambda>r. job_id r = job_id j) (claim_row now) rows"
    using assms(2) by (elim claim_next_Some) auto
  have lapsed: "expired now h" if "job_id r = job_id h" "r \<in> set rows" "runnable now r" for r
    using assms(1) that by (force simp: held_ok_def runnable_def expired_def split: option.splits)
  show "job_attempts h < job_attempts j' \<and> expired now h" if "job_id h = job_id j'"
    using assms(1) j that lapsed[of j] by (auto simp: held_ok_def less_Suc_eq_le)
  show "held_ok now rows' h"
    unfolding held_ok_def
  proof (intro conjI ballI impI)
    show "job_status h = Running" "job_lease h \<noteq> None" using assms(1) by (simp_all add: held_ok_def)
    fix r' assume r': "r' \<in> set rows'" "job_id r' = job_id h"
    then consider "r' \<in> set rows" | r where "r \<in> set rows" "job_id r = job_id h" "job_id r = job_id j" "r' = claim_row now r"
      by (auto simp: j(4) row_simps)
    note cases = this
    show "job_status r' \<noteq> Queued"
      using cases assms(1) r'(2) by cases (auto simp: held_ok_def claim_row_status)
    show "job_attempts h \<le> job_attempts r'"
      using cases assms(1) r'(2) by cases (auto simp: held_ok_def intro: le_SucI)
    show "expired now h" if "job_attempts h < job_attempts r'"
      using cases
    proof cases
      case 1
      then show ?thesis using assms(1) r'(2) that by (auto simp: held_ok_def)
    next
      case (2 r)
      then show ?thesis using lapsed[of j] j(1,2) by simp
    qed
    show "job_lease r' = job_lease h" if "job_attempts h = job_attempts r'" "job_status r' = Running"
      using cases
    proof cases
      case 1
      then show ?thesis using assms(1) r'(2) that by (auto simp: held_ok_def)
    next
      case (2 r)
      then show ?thesis using assms(1) that by (force simp: held_ok_def)
    qed
  qed
qed

lemma held_ok_claimed:
  assumes "table_ok rows" "claim_next now locked rows = (Some j', rows')" "job_status j' = Running"
  shows "held_ok now rows' j'"
proof -
  obtain j where j: "j \<in> set rows" "j' = claim_row now j"
      "rows' = update_where (\<lambda>r. job_id r = job_id j) (claim_row now) rows"
    using assms(2) by (elim claim_next_Some) auto
  have "r' = j'" if "r' \<in> set rows'" "job_id r' = job_id j'" for r'
    using that assms(1) j by (auto simp: row_simps table_ok_def dest: distinct_key_eq)
  then show ?thesis using assms(3) j(2)
    by (auto simp: held_ok_def claim_row_status claim_row_lease split: if_splits; metis job_state.distinct(1))
qed

lemma held_ok_append: "held_ok now rows h \<Longrightarrow> job_id j \<noteq> job_id h \<Longrightarrow> held_ok now (rows @ [j]) h"
  by (auto simp: held_ok_def)

lemma pool_step_inv: "pool_step s s' \<Longrightarrow> pool_inv s \<Longrightarrow> pool_inv s'"
proof (induction rule: pool_step.induct)
  case (Enqueue j s)
  have "table_ok (p_rows s @ [j])"
    using Enqueue.prems Enqueue.hyps(1-4) by (auto simp: pool_inv_def table_ok_def row_inv_def)
  moreover have "held_ok (p_now s) (p_rows s @ [j]) h" if "(w, h) \<in> set (p_held s)" for w h
  proof (rule held_ok_append)
    show "held_ok (p_now s) (p_rows s) h" using Enqueue.prems that by (auto simp: pool_inv_def)
    show "job_id j \<noteq> job_id h" using Enqueue.hyps(5) that by force
  qed
  ultimately show ?case using Enqueue.prems by (auto simp: pool_inv_def)
next
  case (Tick s t)
  then show ?case by (auto simp: pool_inv_def intro: held_ok_mono exclusive_mono)
next
  case (Claim s locked j rows w)
  have tab: "table_ok (p_rows s)" using Claim by (simp add: pool_inv_def)
  have old: "held_ok (p_now s) (p_rows s) h" if "(v, h) \<in> set (p_held s)" for v h
    using Claim.prems that by (auto simp: pool_inv_def)
  have ex: "exclusive (p_now s) ((w, j) # p_held s)"
    using held_ok_claim(2)[OF old Claim.hyps(1)] Claim.hyps(2) Claim.prems
    by (fastforce simp: exclusive_def pair_ok_def pool_inv_def)
  show ?case
    using table_ok_claim[OF tab Claim.hyps(1)] held_ok_claim(1)[OF old Claim.hyps(1)]
      held_ok_claimed[OF tab Claim.hyps(1,3)] ex
    by (auto simp: pool_inv_def)
next
  case (Cap s locked j rows)
  then show ?case
    using table_ok_claim[OF _ Cap.hyps(1)] held_ok_claim(1)[OF _ Cap.hyps(1)] by (auto simp: pool_inv_def)
next
  case (Complete w j s res rows)
  have h: "held_ok (p_now s) (p_rows s) j" using Complete by (auto simp: pool_inv_def)
  have "table_ok rows"
    using h Complete by (intro table_ok_flush[OF _ Complete.hyps(2)[unfolded mark_completed_def]])
      (auto simp: held_ok_def pool_inv_def)
  moreover have "held_ok (p_now s) rows h" if "(v, h) \<in> set (p_held s)" for v h
    using that h Complete.prems
    by (intro held_ok_flush[OF _ Complete.hyps(2)[unfolded mark_completed_def]]) (auto simp: held_ok_def pool_inv_def)
  ultimately show ?case using Complete.prems set_drop_worker[of w "p_held s"]
    by (auto simp: pool_inv_def intro: exclusive_mono)
next
  case (Fail w j s e rows)
  have h: "held_ok (p_now s) (p_rows s) j" using Fail by (auto simp: pool_inv_def)
  have "table_ok rows"
    using h Fail by (intro table_ok_flush[OF _ Fail.hyps(2)[unfolded mark_failed_def]])
      (auto simp: held_ok_def pool_inv_def)
  moreover have "held_ok (p_now s) rows h" if "(v, h) \<in> set (p_held s)" for v h
    using that h Fail.prems
    by (intro held_ok_flush[OF _ Fail.hyps(2)[unfolded mark_failed_def]]) (auto simp: held_ok_def pool_inv_def)
  ultimately show ?case using Fail.prems set_drop_worker[of w "p_held s"]
    by (auto simp: pool_inv_def intro: exclusive_mono)
next
  case (Crash s w)
  then show ?case using set_drop_worker[of w "p_held s"] by (auto simp: pool_inv_def intro: exclusive_mono)
next
  case (Delete s p)
  have sub: "set (delete_where p (p_rows s)) \<subseteq> set (p_rows s)" by (auto simp: row_simps)
  have "table_ok (delete_where p (p_rows s))"
    using Delete sub by (auto simp: pool_inv_def table_ok_def distinct_delete_where)
  then show ?case using Delete sub by (auto simp: pool_inv_def intro: held_ok_mono)
qed

lemma reachable_inv: "reachable s \<Longrightarrow> pool_inv s"
proof (induction rule: reachable.induct)
  case (Start t)
  show ?case by (simp add: pool_inv_def table_ok_def exclusive_def)
next
  case (Step s s')
  then show ?case by (blast intro: pool_step_inv)
qed

subsection \<open>Properties\<close>

text \<open>Two workers, the first of which lets its lease lapse: a run used below.\<close>

definition job0 :: doc_job where
  "job0 = new_doc_job 7 0 1 4"

definition job1 :: doc_job where
  "job1 = claim_row 0 job0"

definition late :: time where
  "late = 1000 * 1000000"

definition job2 :: doc_job where
  "job2 = claim_row late job1"

lemma overtaken_reachable:
  "reachable \<lparr>p_rows = [job2], p_now = late, p_held = [(2, job2), (1, job1)]\<rparr>"
proof -
  have "reachable \<lparr>p_rows = [] :: doc_job list, p_now = 0, p_held = []\<rparr>" by (rule Start)
  from reachable.Step[OF this pool_step.Enqueue[of job0]]
  have "reachable \<lparr>p_rows = [job0], p_now = 0, p_held = []\<rparr>" by (simp add: job0_def new_doc_job_def)
  moreover have "claim_next 0 {} [job0] = (Some job1, [job1])"
    by (simp add: job0_def job1_def claim_next_def runnable_def select_where_def order_by_def
        first_row_def update_where_def new_doc_job_def)
  ultimately have "reachable \<lparr>p_rows = [job1], p_now = 0, p_held = [(1, job1)]\<rparr>"
    using reachable.Step[OF _ pool_step.Claim[of _ "{}" job1 "[job1]" 1]]
    by (fastforce simp: job1_def job0_def claim_row_status new_doc_job_def max_attempts_def)
  from reachable.Step[OF this pool_step.Tick[of _ late]]
  have "reachable \<lparr>p_rows = [job1], p_now = late, p_held = [(1, job1)]\<rparr>" by (simp add: late_def)
  moreover have "claim_next late {} [job1] = (Some job2, [job2])"
    by (simp add: job2_def claim_next_def runnable_def select_where_def order_by_def job1_def job0_def
        first_row_def update_where_def claim_row_def new_doc_job_def lease_until_def lease_seconds_def
        late_def max_attempts_def)
  ultimately show ?thesis
    using reachable.Step[OF _ pool_step.Claim[of _ "{}" job2 "[job2]" 2]]
    by (fastforce simp: job2_def job1_def job0_def claim_row_status new_doc_job_def max_attempts_def)
qed

text \<open>
  C4: Leases exclude. In every reachable state of any number of workers, crashes and
  deletes, at most one of the workers holding the same job has a lease that is still live.
\<close>

theorem live_lease_is_exclusive:
  assumes "reachable s" "(w, j) \<in> set (p_held s)" "(w', j') \<in> set (p_held s)" "job_id j = job_id j'" "w \<noteq> w'"
  shows "expired (p_now s) j \<or> expired (p_now s) j'"
proof -
  have "pair_ok (p_now s) (w, j) (w', j')" "pair_ok (p_now s) (w', j') (w, j)"
    using reachable_inv[OF assms(1)] assms(2,3) by (auto simp: pool_inv_def exclusive_def)
  then show ?thesis using assms(4,5) by (auto simp: pair_ok_def)
qed

theorem live_lease_is_exclusive_witness: "expired late job1 \<or> expired late job2"
proof -
  let ?s = "\<lparr>p_rows = [job2], p_now = late, p_held = [(2, job2), (1, job1)]\<rparr>"
  have "job_id job1 = job_id job2" by (simp add: job2_def)
  moreover have "(1, job1) \<in> set (p_held ?s)" "(2, job2) \<in> set (p_held ?s)" by simp_all
  ultimately have "expired (p_now ?s) job1 \<or> expired (p_now ?s) job2"
    using live_lease_is_exclusive[OF overtaken_reachable] by (metis numeral_One semiring_norm(85) numeral_eq_iff)
  then show ?thesis by simp
qed

text \<open>
  A claim never takes a terminal row, and the verdict of a held job leaves a terminal row
  terminal: whichever row of the new table has its identifier.
\<close>

lemma claim_spares_terminal:
  assumes "distinct (map job_id rows)" "r \<in> set rows" "job_status r \<in> {Completed, Failed}"
    and "claim_next now locked rows = (Some j, rows')" "r' \<in> set rows'" "job_id r' = job_id r"
  shows "r' = r"
proof -
  obtain i where i: "i \<in> set rows" "runnable now i" "rows' = update_where (\<lambda>r. job_id r = job_id i) (claim_row now) rows"
    using claim_next_Some[OF assms(4)] by metis
  have "job_id i \<noteq> job_id r" using distinct_key_eq[OF assms(1) i(1) assms(2)] i(2) assms(3) by (auto simp: runnable_def)
  then show ?thesis using assms(5,6) distinct_key_eq[OF assms(1) _ assms(2)] by (auto simp: i(3) row_simps)
qed

lemma flush_stays_terminal:
  assumes "distinct (map job_id rows)" "r \<in> set rows" "job_status r \<in> {Completed, Failed}" "job_status j = Running"
    and "flush_terminal now j st res e rows = Some rows'" "st \<in> {Completed, Failed}" "r' \<in> set rows'" "job_id r' = job_id r"
  shows "job_status r' \<in> {Completed, Failed}"
  using flush_terminal_Some(2)[OF assms(5,7)] assms(3,4,6,8) distinct_key_eq[OF assms(1) _ assms(2)] by (auto simp: dirty_def)

lemma step_keeps_terminal:
  assumes "pool_inv s" "pool_step s s'" "r \<in> set (p_rows s)" "job_status r \<in> {Completed, Failed}"
    and "r' \<in> set (p_rows s')" "job_id r' = job_id r"
  shows "job_status r' \<in> {Completed, Failed}"
proof -
  have d: "distinct (map job_id (p_rows s))" using assms(1) by (auto simp: pool_inv_def table_ok_def)
  note same = distinct_key_eq[OF d _ assms(3)]
  note claim = claim_spares_terminal[OF d assms(3,4)]
  note flush = flush_stays_terminal[OF d assms(3,4)]
  have held: "job_status j = Running" if "(w, j) \<in> set (p_held s)" for w j
    using assms(1) that by (auto simp: pool_inv_def held_ok_def)
  from assms(2) show ?thesis
  proof cases
    case (Enqueue j)
    then show ?thesis using assms(3-6) same by auto
  next
    case (Claim locked j rows w)
    then have "r' = r" using claim[OF Claim(2)] assms(5,6) by simp
    then show ?thesis using assms(4) by simp
  next
    case (Cap locked j rows)
    then have "r' = r" using claim[OF Cap(2)] assms(5,6) by simp
    then show ?thesis using assms(4) by simp
  next
    case (Complete w j res rows)
    then show ?thesis using flush[OF held Complete(3)[unfolded mark_completed_def]] assms(5,6) by simp
  next
    case (Fail w j e rows)
    then show ?thesis using flush[OF held Fail(3)[unfolded mark_failed_def]] assms(5,6) by simp
  qed (use assms(4-6) same in \<open>auto simp: row_simps\<close>)
qed


text \<open>Worker 2 completes, then the overtaken worker 1 reports its failure.\<close>

definition done2 :: doc_job where
  "done2 = set_terminal late Completed (Some (JNum 3)) None job2"

definition stale1 :: doc_job where
  "stale1 = done2\<lparr>job_status := Failed, job_error := Some ''timeout'', job_updated := late\<rparr>"

lemma job_values:
  "job1 = \<lparr>job_id = 7, job_tenant = 1, job_status = Running, job_result = None, job_error = None,
     job_attempts = 1, job_lease = Some 900000000, job_created = 0, job_updated = 0, dj_document = 4\<rparr>"
  "job2 = \<lparr>job_id = 7, job_tenant = 1, job_status = Running, job_result = None, job_error = None,
     job_attempts = 2, job_lease = Some 1900000000, job_created = 0, job_updated = late, dj_document = 4\<rparr>"
  by (simp_all add: job2_def job1_def job0_def claim_row_def new_doc_job_def max_attempts_def
      lease_until_def lease_seconds_def late_def)

lemma done_reachable: "reachable \<lparr>p_rows = [done2], p_now = late, p_held = [(1, job1)]\<rparr>"
proof -
  have "mark_completed late job2 (JNum 3) [job2] = Some [done2]"
    by (subst mark_completed_owned) (simp_all add: job_values done2_def update_where_def)
  from reachable.Step[OF overtaken_reachable pool_step.Complete[of 2 job2 _ "JNum 3" "[done2]"]]
  show ?thesis using \<open>mark_completed late job2 (JNum 3) [job2] = Some [done2]\<close>
    by (simp add: drop_worker_def)
qed


text \<open>
  C31: A worker whose lease lapsed still writes its verdict over the winner's: there is a
  run of two workers that ends with a row that is failed, with an error, and yet carries
  the result the other worker stored, since only the columns the stale worker changed are
  written.
\<close>

theorem stale_worker_mixes_the_verdicts:
  "\<exists>s. reachable s \<and> (\<exists>r \<in> set (p_rows s). job_status r = Failed \<and> job_error r = Some ''timeout''
     \<and> job_result (r :: doc_job) = Some (JNum 3))"
proof -
  have "mark_failed late job1 ''timeout'' [done2] = Some [stale1]"
    by (simp add: mark_failed_def flush_terminal_def flush_row_def dirty_def update_where_def
        stale1_def done2_def set_terminal_def job_values)
  then have "reachable \<lparr>p_rows = [stale1], p_now = late, p_held = []\<rparr>"
    using reachable.Step[OF done_reachable pool_step.Fail[of 1 job1 _ "''timeout''" "[stale1]"]]
    by (simp add: drop_worker_def)
  moreover have "job_status stale1 = Failed" "job_error stale1 = Some ''timeout''" "job_result stale1 = Some (JNum 3)"
    by (simp_all add: stale1_def done2_def set_terminal_def)
  ultimately show ?thesis by (metis list.set_intros(1) pool.select_convs(1))
qed

end
