(* ===== verification/JobSpec.thy ===== *)
theory JobSpec
  imports JobPool
begin

section \<open>What the job table promises: the queue as a specification\<close>

text \<open>
  The contract the claim code is written for, without rows, leases or clocks: a job waits,
  is held by one worker, may be lost by it, and ends with one verdict. Theory \<^verbatim>\<open>JobPool\<close> shows
  that a worker that outlives its lease breaks this contract; here the pool is shown to refine it
  as long as none does: every worker ends its pass, or dies, before its lease lapses.
\<close>

subsection \<open>The specification\<close>

datatype phase = Waiting | Held nat | Lost | Succeeded "json option" | Gave_Up "string option"

text \<open>Per job its phase and how often it was taken.\<close>

type_synonym queue = "uuid \<rightharpoonup> phase \<times> nat"

inductive queue_step :: "queue \<Rightarrow> queue \<Rightarrow> bool" where
  Submit: "q i = None \<Longrightarrow> queue_step q (q(i \<mapsto> (Waiting, 0)))"
| Take: "q i = Some (p, n) \<Longrightarrow> p = Waiting \<or> p = Lost \<Longrightarrow> n < max_attempts \<Longrightarrow> (\<And>k m. q k \<noteq> Some (Held w, m)) \<Longrightarrow>
     queue_step q (q(i \<mapsto> (Held w, Suc n)))"
| Exhaust: "q i = Some (Lost, max_attempts) \<Longrightarrow>
     queue_step q (q(i \<mapsto> (Gave_Up (Some ''max_attempts_exceeded''), Suc max_attempts)))"
| Succeed: "q i = Some (Held w, n) \<Longrightarrow> queue_step q (q(i \<mapsto> (Succeeded (Some res), n)))"
| Give_Up: "q i = Some (Held w, n) \<Longrightarrow> queue_step q (q(i \<mapsto> (Gave_Up (Some (take 1024 e)), n)))"
| Lose: "q i = Some (Held w, n) \<Longrightarrow> queue_step q (q(i \<mapsto> (Lost, n)))"
| Remove: "queue_step q (q |` K)"

inductive queue_reachable :: "queue \<Rightarrow> bool" where
  Empty: "queue_reachable Map.empty"
| Step: "queue_reachable q \<Longrightarrow> queue_step q q' \<Longrightarrow> queue_reachable q'"

definition verdict :: "phase \<Rightarrow> bool" where
  "verdict p \<longleftrightarrow> (case p of Succeeded _ \<Rightarrow> True | Gave_Up _ \<Rightarrow> True | _ \<Rightarrow> False)"

text \<open>What the specification gives: a verdict is final, and no worker holds two jobs.\<close>

lemma verdict_final:
  assumes "queue_step q q'" "q i = Some (p, n)" "verdict p"
  shows "q' i = Some (p, n) \<or> q' i = None"
  using assms by cases (auto simp: verdict_def restrict_map_def)

lemma one_job_each:
  "queue_reachable q \<Longrightarrow> q i = Some (Held w, n) \<Longrightarrow> q k = Some (Held w, m) \<Longrightarrow> i = k"
proof (induction arbitrary: i k n m rule: queue_reachable.induct)
  case (Step q q')
  from Step.hyps(2) show ?case
  proof cases
    case (Take j p m' v)
    then show ?thesis using Step.prems Step.IH by (auto split: if_splits)
  qed (use Step.prems Step.IH in \<open>auto simp: restrict_map_def split: if_splits\<close>)
qed simp

lemma taken_at_most: "queue_reachable q \<Longrightarrow> q i = Some (p, n) \<Longrightarrow> n \<le> Suc max_attempts"
proof (induction arbitrary: i p n rule: queue_reachable.induct)
  case (Step q q')
  from Step.hyps(2) show ?case
    by cases (use Step.prems Step.IH in \<open>fastforce simp: restrict_map_def split: if_splits\<close>)+
qed simp

subsection \<open>The table as a queue\<close>

definition phase_of :: "(nat \<times> 'm job_scheme) list \<Rightarrow> 'm job_scheme \<Rightarrow> phase" where
  "phase_of held r =
     (case job_status r of
        Queued \<Rightarrow> Waiting
      | Running \<Rightarrow> (case List.find (\<lambda>p. job_id (snd p) = job_id r) held of None \<Rightarrow> Lost | Some p \<Rightarrow> Held (fst p))
      | Completed \<Rightarrow> Succeeded (job_result r)
      | Failed \<Rightarrow> Gave_Up (job_error r))"

definition row_of :: "uuid \<Rightarrow> 'm job_scheme list \<Rightarrow> 'm job_scheme option" where
  "row_of i rows = List.find (\<lambda>r. job_id r = i) rows"

definition queue_of :: "'m pool \<Rightarrow> queue" where
  "queue_of s = (\<lambda>i. map_option (\<lambda>r. (phase_of (p_held s) r, job_attempts r)) (row_of i (p_rows s)))"

text \<open>No worker holds a job whose lease has lapsed.\<close>

definition in_time :: "'m pool \<Rightarrow> bool" where
  "in_time s \<longleftrightarrow> (\<forall>p \<in> set (p_held s). \<not> expired (p_now s) (snd p))"

inductive timely :: "'m pool \<Rightarrow> bool" where
  Start: "timely \<lparr>p_rows = [], p_now = t, p_held = []\<rparr>"
| Step: "timely s \<Longrightarrow> pool_step s s' \<Longrightarrow> in_time s' \<Longrightarrow> timely s'"

subsection \<open>Lemmas: one row\<close>

lemma row_of_Some: "row_of i rows = Some r \<Longrightarrow> r \<in> set rows \<and> job_id r = i"
  unfolding row_of_def by (auto dest: find_Some_mem)

lemma row_of_None: "row_of i rows = None \<longleftrightarrow> i \<notin> job_id ` set rows"
  by (auto simp: row_of_def find_None_all)

lemma row_of_mem: "distinct (map job_id rows) \<Longrightarrow> r \<in> set rows \<Longrightarrow> row_of (job_id r) rows = Some r"
  unfolding row_of_def by (rule find_key_unique[of job_id]) auto

lemma row_of_update:
  assumes "\<And>r. job_id (g r) = job_id r"
  shows "row_of i (update_where (\<lambda>r. job_id r = k) g rows) = (if i = k then map_option g (row_of i rows) else row_of i rows)"
  by (induction rows) (auto simp: row_of_def update_where_def assms)

lemma row_of_append: "row_of i (rows @ [r]) = (case row_of i rows of None \<Rightarrow> if job_id r = i then Some r else None | Some x \<Rightarrow> Some x)"
  by (induction rows) (auto simp: row_of_def)

lemma row_of_delete:
  "distinct (map job_id rows) \<Longrightarrow>
   row_of i (delete_where p rows) = (case row_of i rows of None \<Rightarrow> None | Some r \<Rightarrow> if p r then None else Some r)"
proof (induction rows)
  case (Cons r rows)
  show ?case
  proof (cases "job_id r = i")
    case True
    then have "row_of i rows = None" using Cons.prems by (auto simp: row_of_None)
    then show ?thesis using True Cons by (auto simp: row_of_def delete_where_def)
  qed (use Cons in \<open>auto simp: row_of_def delete_where_def\<close>)
qed (simp add: row_of_def delete_where_def)

subsection \<open>Lemmas: the invariant of a pool in time\<close>

text \<open>A worker's object is the row as it stands, and no two workers hold the same job.\<close>

definition held_rows :: "(nat \<times> 'm job_scheme) list \<Rightarrow> 'm job_scheme list \<Rightarrow> bool" where
  "held_rows held rows \<longleftrightarrow> distinct (map fst held) \<and> distinct (map (job_id \<circ> snd) held)
     \<and> (\<forall>p \<in> set held. job_status (snd p) = Running \<and> (\<forall>r \<in> set rows. job_id r = job_id (snd p) \<longrightarrow> r = snd p))"

definition timely_inv :: "'m pool \<Rightarrow> bool" where
  "timely_inv s \<longleftrightarrow> table_ok (p_rows s) \<and> in_time s \<and> held_rows (p_held s) (p_rows s)"

lemma held_rowsD:
  assumes "held_rows held rows" "p \<in> set held"
  shows "job_status (snd p) = Running" "\<And>r. r \<in> set rows \<Longrightarrow> job_id r = job_id (snd p) \<Longrightarrow> r = snd p"
    "\<And>q. q \<in> set held \<Longrightarrow> job_id (snd q) = job_id (snd p) \<Longrightarrow> q = p"
    "\<And>q. q \<in> set held \<Longrightarrow> fst q = fst p \<Longrightarrow> q = p"
proof -
  show "job_status (snd p) = Running" "\<And>r. r \<in> set rows \<Longrightarrow> job_id r = job_id (snd p) \<Longrightarrow> r = snd p"
    using assms by (simp_all add: held_rows_def)
  have "inj_on (job_id \<circ> snd) (set held)" "inj_on fst (set held)" using assms(1) by (simp_all add: held_rows_def distinct_map)
  note inj = this[THEN inj_onD]
  show "\<And>q. q \<in> set held \<Longrightarrow> job_id (snd q) = job_id (snd p) \<Longrightarrow> q = p" using inj(1)[OF _ _ assms(2)] by simp
  show "\<And>q. q \<in> set held \<Longrightarrow> fst q = fst p \<Longrightarrow> q = p" using inj(2)[OF _ _ assms(2)] by simp
qed

lemma held_rows_sub: "held_rows held rows \<Longrightarrow> set rows' \<subseteq> set rows \<Longrightarrow> held_rows (filter p held) rows'"
  unfolding held_rows_def by (intro conjI ballI) (auto simp: distinct_map_filter simp del: split_paired_All)

text \<open>A job that can be claimed is held by nobody.\<close>

lemma runnable_not_held:
  assumes "timely_inv s" "i \<in> set (p_rows s)" "runnable (p_now s) i"
  shows "job_id i \<notin> (job_id \<circ> snd) ` set (p_held s)"
proof
  assume "job_id i \<in> (job_id \<circ> snd) ` set (p_held s)"
  then obtain p where p: "p \<in> set (p_held s)" "job_id i = job_id (snd p)" by auto
  then have "i = snd p" using assms(1,2) held_rowsD(2)[of "p_held s" "p_rows s" p] by (auto simp: timely_inv_def)
  moreover have "\<not> expired (p_now s) (snd p)" using assms(1) p(1) by (simp add: timely_inv_def in_time_def)
  moreover have "job_status (snd p) = Running" using held_rowsD(1) assms(1) p(1) unfolding timely_inv_def by blast
  ultimately show False using assms(3) by (auto simp: runnable_def expired_def split: option.splits)
qed

lemma held_rows_other:
  assumes "held_rows held rows" "k \<notin> (job_id \<circ> snd) ` set held" "\<And>r. job_id (g r) = job_id r"
  shows "held_rows held (update_where (\<lambda>r. job_id r = k) g rows)"
  using assms by (auto simp: held_rows_def row_simps image_iff)

text \<open>A verdict written by the holder changes the row it holds, and nothing another worker holds.\<close>

lemma flush_held:
  assumes "held_rows held rows" "(w, j) \<in> set held" "flush_terminal now j st res err rows = Some rows'" "st \<noteq> Running"
  shows "j \<in> set rows \<and> rows' = update_where (\<lambda>r. job_id r = job_id j) (set_terminal now st res err) rows"
proof -
  have run: "job_status j = Running" and own: "\<And>r. r \<in> set rows \<Longrightarrow> job_id r = job_id j \<Longrightarrow> r = j"
    using held_rowsD(1,2)[OF assms(1,2)] by simp_all
  have "list_ex (\<lambda>r. job_id r = job_id j) rows" using assms(3) by (auto simp: flush_terminal_def split: if_splits)
  then have mem: "j \<in> set rows" using own by (auto simp: list_ex_iff)
  have "rows' = update_where (\<lambda>r. job_id r = job_id j) (flush_row now j st res err) rows"
    using assms(3,4) run by (auto simp: flush_terminal_def split: if_splits)
  also have "\<dots> = update_where (\<lambda>r. job_id r = job_id j) (set_terminal now st res err) rows"
    unfolding update_where_def by (rule map_cong) (auto simp: flush_row_def set_terminal_def dest: own)
  finally show ?thesis using mem by simp
qed

lemma drop_worker_mem:
  "held_rows held rows \<Longrightarrow> (w, j) \<in> set held \<Longrightarrow> set (drop_worker w held) = set held - {(w, j)}"
proof (rule set_eqI)
  fix q assume h: "held_rows held rows" "(w, j) \<in> set held"
  have "fst q = w \<longleftrightarrow> q = (w, j)" if "q \<in> set held" using held_rowsD(4)[OF h that] by (cases q) auto
  then show "q \<in> set (drop_worker w held) \<longleftrightarrow> q \<in> set held - {(w, j)}" by (auto simp: drop_worker_def)
qed

lemma flush_held_rows:
  assumes "held_rows held rows" "(w, j) \<in> set held" "flush_terminal now j st res err rows = Some rows'" "st \<noteq> Running"
  shows "held_rows (drop_worker w held) rows'"
proof -
  have "job_id j \<notin> (job_id \<circ> snd) ` set (drop_worker w held)"
    unfolding drop_worker_mem[OF assms(1,2)] using held_rowsD(3)[OF assms(1,2)] by auto
  moreover have "held_rows (drop_worker w held) rows" unfolding drop_worker_def by (rule held_rows_sub[OF assms(1) order_refl])
  ultimately show ?thesis unfolding conjunct2[OF flush_held[OF assms]] by (intro held_rows_other) simp_all
qed

lemma timely_step_rows:
  assumes "timely_inv s" "pool_step s s'"
  shows "held_rows (p_held s') (p_rows s')"
proof -
  have h: "held_rows (p_held s) (p_rows s)" and tab: "table_ok (p_rows s)" using assms(1) by (simp_all add: timely_inv_def)
  note claimed = claim_next_Some[of "p_now s" _ "p_rows s"]
  from assms(2) show ?thesis
  proof cases
    case (Enqueue j)
    then show ?thesis using h by (auto simp: held_rows_def)
  next
    case (Claim locked j rows w)
    obtain i where i: "i \<in> set (p_rows s)" "runnable (p_now s) i" "j = claim_row (p_now s) i"
        "rows = update_where (\<lambda>r. job_id r = job_id i) (claim_row (p_now s)) (p_rows s)"
      using claimed[OF Claim(2)] by metis
    note free = runnable_not_held[OF assms(1) i(1,2)]
    have "r = j" if "r \<in> set rows" "job_id r = job_id j" for r
      using that i tab distinct_key_eq[of job_id "p_rows s" _ i] by (auto simp: row_simps table_ok_def)
    moreover have "held_rows (p_held s) rows" unfolding i(4) by (rule held_rows_other[OF h free]) simp
    ultimately show ?thesis using Claim free i(3) by (auto simp: held_rows_def image_iff)
  next
    case (Cap locked j rows)
    obtain i where i: "i \<in> set (p_rows s)" "runnable (p_now s) i"
        "rows = update_where (\<lambda>r. job_id r = job_id i) (claim_row (p_now s)) (p_rows s)"
      using claimed[OF Cap(2)] by metis
    have "held_rows (p_held s) rows" unfolding i(3) by (rule held_rows_other[OF h runnable_not_held[OF assms(1) i(1,2)]]) simp
    then show ?thesis using Cap by simp
  next
    case (Complete w j res rows)
    then show ?thesis using flush_held_rows[OF h Complete(2) Complete(3)[unfolded mark_completed_def]] by simp
  next
    case (Fail w j e rows)
    then show ?thesis using flush_held_rows[OF h Fail(2) Fail(3)[unfolded mark_failed_def]] by simp
  next
    case (Delete p)
    have "held_rows (filter (\<lambda>_. True) (p_held s)) (p_rows s')"
      by (rule held_rows_sub[OF h]) (use Delete in \<open>auto simp: row_simps\<close>)
    then show ?thesis using Delete by simp
  qed (use h held_rows_sub[OF h order_refl] in \<open>simp_all add: drop_worker_def\<close>)
qed

lemma timely_inv: "timely s \<Longrightarrow> timely_inv s \<and> reachable s"
proof (induction rule: timely.induct)
  case (Start t)
  show ?case by (simp add: timely_inv_def table_ok_def in_time_def held_rows_def reachable.Start)
next
  case (Step s s')
  then have "reachable s'" using reachable.Step by blast
  moreover have "held_rows (p_held s') (p_rows s')" using timely_step_rows[OF _ Step.hyps(2)] Step.IH by blast
  ultimately show ?case using Step.hyps(3) reachable_inv[of s'] by (simp add: timely_inv_def pool_inv_def)
qed

subsection \<open>Lemmas: every step is a step of the queue\<close>

lemma find_filter: "(\<And>x. x \<in> set xs \<Longrightarrow> P x \<Longrightarrow> Q x) \<Longrightarrow> List.find P (filter Q xs) = List.find P xs"
  by (induction xs) auto

lemma phase_drop:
  assumes "\<And>p. p \<in> set held \<Longrightarrow> fst p = w \<Longrightarrow> job_id (snd p) \<noteq> job_id r"
  shows "phase_of (drop_worker w held) r = phase_of held r"
proof -
  have "List.find (\<lambda>p. job_id (snd p) = job_id r) (drop_worker w held) = List.find (\<lambda>p. job_id (snd p) = job_id r) held"
    unfolding drop_worker_def by (rule find_filter) (use assms in blast)
  then show ?thesis by (simp add: phase_of_def split: job_state.split)
qed

lemma phase_held:
  assumes "held_rows held rows" "(w, j) \<in> set held"
  shows "phase_of held j = Held w"
proof -
  have "List.find (\<lambda>p. job_id (snd p) = job_id j) held = Some (w, j)"
    by (rule find_key_unique[of "job_id \<circ> snd"]) (use assms in \<open>auto simp: held_rows_def\<close>)
  then show ?thesis using held_rowsD(1)[OF assms] by (simp add: phase_of_def)
qed

lemma phase_lost:
  assumes "job_status r = Running" "job_id r \<notin> (job_id \<circ> snd) ` set held"
  shows "phase_of held r = Lost"
proof -
  have "List.find (\<lambda>p. job_id (snd p) = job_id r) held = None" using assms(2) by (auto simp: find_None_all image_iff)
  then show ?thesis using assms(1) by (simp add: phase_of_def)
qed

lemma phase_other: "job_id (snd p) \<noteq> job_id r \<Longrightarrow> phase_of (p # held) r = phase_of held r"
  by (simp add: phase_of_def split: job_state.split)

lemma phase_Held: "phase_of held r = Held w \<Longrightarrow> w \<in> fst ` set held"
  by (auto simp: phase_of_def split: job_state.splits option.splits dest!: find_Some_mem)

text \<open>A step that changes one row, or who holds it, changes the queue there.\<close>

lemma queue_of_row:
  assumes "\<And>x. row_of x (p_rows s') = (if x = k then Some i else row_of x (p_rows s))"
    and "\<And>r. r \<in> set (p_rows s) \<Longrightarrow> job_id r \<noteq> k \<Longrightarrow> phase_of (p_held s') r = phase_of (p_held s) r"
  shows "queue_of s' = (queue_of s)(k \<mapsto> (phase_of (p_held s') i, job_attempts i))"
proof
  fix x
  have "map_option (\<lambda>r. (phase_of (p_held s') r, job_attempts r)) (row_of x (p_rows s))
      = map_option (\<lambda>r. (phase_of (p_held s) r, job_attempts r)) (row_of x (p_rows s))" if "x \<noteq> k"
  proof (cases "row_of x (p_rows s)")
    case (Some r)
    then show ?thesis using assms(2)[of r] row_of_Some[OF Some] that by simp
  qed simp
  then show "queue_of s' x = ((queue_of s)(k \<mapsto> (phase_of (p_held s') i, job_attempts i))) x"
    by (simp add: queue_of_def assms(1))
qed

lemma row_of_changed:
  assumes "row_of k rows = Some i" "\<And>r. job_id (g r) = job_id r"
  shows "row_of x (update_where (\<lambda>r. job_id r = k) g rows) = (if x = k then Some (g i) else row_of x rows)"
  using assms(1) by (simp add: row_of_update[OF assms(2)])

lemma queue_of_mem: "table_ok (p_rows s) \<Longrightarrow> i \<in> set (p_rows s) \<Longrightarrow>
    row_of (job_id i) (p_rows s) = Some i \<and> queue_of s (job_id i) = Some (phase_of (p_held s) i, job_attempts i)"
  by (simp add: queue_of_def row_of_mem table_ok_def)

lemma claim_is_take:
  assumes "timely_inv s" "claim_next (p_now s) locked (p_rows s) = (Some j, rows)" "w \<notin> fst ` set (p_held s)"
    and "job_status j = Running"
  shows "queue_step (queue_of s) (queue_of (s\<lparr>p_rows := rows, p_held := (w, j) # p_held s\<rparr>))"
proof -
  let ?s = "s\<lparr>p_rows := rows, p_held := (w, j) # p_held s\<rparr>"
  obtain i where i: "i \<in> set (p_rows s)" "runnable (p_now s) i" "j = claim_row (p_now s) i"
      "rows = update_where (\<lambda>r. job_id r = job_id i) (claim_row (p_now s)) (p_rows s)"
    using claim_next_Some[OF assms(2)] by metis
  have tab: "table_ok (p_rows s)" using assms(1) by (simp add: timely_inv_def)
  note q = queue_of_mem[OF tab i(1)]
  have "phase_of ((w, j) # p_held s) j = Held w" using assms(4) by (simp add: phase_of_def)
  then have "queue_of ?s = (queue_of s)(job_id i \<mapsto> (Held w, Suc (job_attempts i)))"
    using queue_of_row[of ?s "job_id i" j s] row_of_changed[OF conjunct1[OF q]] i(3,4) by (simp add: phase_other)
  moreover have "phase_of (p_held s) i = Waiting \<or> phase_of (p_held s) i = Lost"
    using i(2) phase_lost[OF _ runnable_not_held[OF assms(1) i(1,2)]] by (auto simp: runnable_def phase_of_def)
  moreover have "job_attempts i < max_attempts" using assms(4) by (simp add: i(3) claim_row_status split: if_splits)
  moreover have "queue_of s k \<noteq> Some (Held w, m)" for k m
    using assms(3) phase_Held[of "p_held s" _ w] by (auto simp: queue_of_def)
  ultimately show ?thesis using Take q by simp
qed

lemma cap_is_exhaust:
  assumes "timely_inv s" "claim_next (p_now s) locked (p_rows s) = (Some j, rows)" "job_status j = Failed"
  shows "queue_step (queue_of s) (queue_of (s\<lparr>p_rows := rows\<rparr>))"
proof -
  let ?s = "s\<lparr>p_rows := rows\<rparr>"
  obtain i where i: "i \<in> set (p_rows s)" "runnable (p_now s) i" "j = claim_row (p_now s) i"
      "rows = update_where (\<lambda>r. job_id r = job_id i) (claim_row (p_now s)) (p_rows s)"
    using claim_next_Some[OF assms(2)] by metis
  have tab: "table_ok (p_rows s)" using assms(1) by (simp add: timely_inv_def)
  note q = queue_of_mem[OF tab i(1)]
  have "\<not> job_attempts i < max_attempts" using assms(3) by (simp add: i(3) claim_row_status split: if_splits)
  moreover have "row_inv i" using tab i(1) by (simp add: table_ok_def)
  ultimately have n: "job_attempts i = max_attempts" "job_status i = Running"
    using i(2) by (auto simp: runnable_def row_inv_def max_attempts_def)
  then have "queue_of s (job_id i) = Some (Lost, max_attempts)"
    using q phase_lost[OF _ runnable_not_held[OF assms(1) i(1,2)]] by simp
  moreover have "phase_of (p_held s) j = Gave_Up (Some ''max_attempts_exceeded'')"
    using n(1) by (simp add: i(3) phase_of_def claim_row_def Let_def)
  then have "queue_of ?s = (queue_of s)(job_id i \<mapsto> (Gave_Up (Some ''max_attempts_exceeded''), Suc max_attempts))"
    using queue_of_row[of ?s "job_id i" j s] row_of_changed[OF conjunct1[OF q]] i(3,4) n(1) by simp
  ultimately show ?thesis using Exhaust by simp
qed

lemma flush_verdict:
  assumes "timely_inv s" "(w, j) \<in> set (p_held s)" "flush_terminal now j st res err (p_rows s) = Some rows"
    and "st \<in> {Completed, Failed}"
  shows "queue_of s (job_id j) = Some (Held w, job_attempts j) \<and>
    queue_of (s\<lparr>p_rows := rows, p_held := drop_worker w (p_held s)\<rparr>) =
      (queue_of s)(job_id j \<mapsto> (if st = Completed then Succeeded res else Gave_Up err, job_attempts j))"
proof -
  let ?s = "s\<lparr>p_rows := rows, p_held := drop_worker w (p_held s)\<rparr>"
  have h: "held_rows (p_held s) (p_rows s)" and tab: "table_ok (p_rows s)" using assms(1) by (simp_all add: timely_inv_def)
  have st: "st \<noteq> Running" using assms(4) by auto
  note f = flush_held[OF h assms(2,3) st]
  note q = queue_of_mem[OF tab conjunct1[OF f]]
  have "phase_of (drop_worker w (p_held s)) r = phase_of (p_held s) r" if "job_id r \<noteq> job_id j" for r
    by (rule phase_drop) (use held_rowsD(4)[OF h assms(2)] that in force)
  then have "queue_of ?s = (queue_of s)(job_id j \<mapsto>
      (phase_of (drop_worker w (p_held s)) (set_terminal now st res err j), job_attempts j))"
    using queue_of_row[of ?s "job_id j" "set_terminal now st res err j" s] row_of_changed[OF conjunct1[OF q]] f by simp
  moreover have "phase_of held (set_terminal now st res err j) = (if st = Completed then Succeeded res else Gave_Up err)" for held
    using assms(4) by (auto simp: phase_of_def)
  ultimately show ?thesis using q phase_held[OF h assms(2)] by simp
qed

lemma drop_is_lose:
  assumes "timely_inv s"
  shows "queue_of (s\<lparr>p_held := drop_worker w (p_held s)\<rparr>) = queue_of s
    \<or> queue_step (queue_of s) (queue_of (s\<lparr>p_held := drop_worker w (p_held s)\<rparr>))"
proof (cases "\<exists>j \<in> set (p_rows s). (w, j) \<in> set (p_held s)")
  case True
  then obtain j where j: "j \<in> set (p_rows s)" "(w, j) \<in> set (p_held s)" by blast
  let ?s = "s\<lparr>p_held := drop_worker w (p_held s)\<rparr>"
  have h: "held_rows (p_held s) (p_rows s)" and tab: "table_ok (p_rows s)" using assms by (simp_all add: timely_inv_def)
  note q = queue_of_mem[OF tab j(1)]
  have "job_id j \<notin> (job_id \<circ> snd) ` set (drop_worker w (p_held s))"
    unfolding drop_worker_mem[OF h j(2)] using held_rowsD(3)[OF h j(2)] by auto
  from phase_lost[OF _ this] have "phase_of (drop_worker w (p_held s)) j = Lost" using held_rowsD(1)[OF h j(2)] by simp
  moreover have "phase_of (drop_worker w (p_held s)) r = phase_of (p_held s) r" if "job_id r \<noteq> job_id j" for r
    by (rule phase_drop) (use held_rowsD(4)[OF h j(2)] that in force)
  ultimately have "queue_of ?s = (queue_of s)(job_id j \<mapsto> (Lost, job_attempts j))"
    using queue_of_row[of ?s "job_id j" j s] q by simp
  then show ?thesis using Lose q phase_held[OF h j(2)] by simp
next
  case False
  have h: "held_rows (p_held s) (p_rows s)" using assms by (simp add: timely_inv_def)
  have "phase_of (drop_worker w (p_held s)) r = phase_of (p_held s) r" if "r \<in> set (p_rows s)" for r
    by (rule phase_drop) (use False held_rowsD(2)[OF h] that in force)
  then have "queue_of (s\<lparr>p_held := drop_worker w (p_held s)\<rparr>) = queue_of s"
    by (auto simp: queue_of_def dest: row_of_Some intro!: ext option.map_cong0)
  then show ?thesis ..
qed

lemma pool_refines:
  assumes "timely_inv s" "pool_step s s'"
  shows "queue_of s' = queue_of s \<or> queue_step (queue_of s) (queue_of s')"
proof -
  have tab: "table_ok (p_rows s)" using assms(1) by (simp add: timely_inv_def)
  from assms(2) show ?thesis
  proof cases
    case (Enqueue j)
    have new: "row_of (job_id j) (p_rows s) = None" using Enqueue(5) by (simp add: row_of_None)
    then have "queue_of s' = (queue_of s)(job_id j \<mapsto> (Waiting, 0))"
      using Enqueue by (auto simp: queue_of_def row_of_append phase_of_def split: option.splits intro!: ext)
    then show ?thesis using Submit[of "queue_of s" "job_id j"] new by (simp add: queue_of_def)
  next
    case (Complete w j res rows)
    from flush_verdict[OF assms(1) Complete(2) Complete(3)[unfolded mark_completed_def]]
    show ?thesis using Succeed Complete(1) by simp
  next
    case (Fail w j e rows)
    from flush_verdict[OF assms(1) Fail(2) Fail(3)[unfolded mark_failed_def]]
    show ?thesis using Give_Up Fail(1) by simp
  next
    case (Delete p)
    have "queue_of s' = queue_of s |` {k. row_of k (p_rows s') \<noteq> None}"
      using Delete tab by (auto simp: queue_of_def row_of_delete table_ok_def restrict_map_def split: option.splits intro!: ext)
    then show ?thesis using Remove by metis
  qed (use claim_is_take[OF assms(1)] cap_is_exhaust[OF assms(1)] drop_is_lose[OF assms(1)] in \<open>auto simp: queue_of_def\<close>)
qed

text \<open>A run in time is a run of the specification, so its guarantees hold of the rows.\<close>

lemma timely_queue_reachable: "timely s \<Longrightarrow> queue_reachable (queue_of s)"
proof (induction rule: timely.induct)
  case (Start t)
  show ?case using Empty by (simp add: queue_of_def row_of_def)
next
  case (Step s s')
  have "queue_of s' = queue_of s \<or> queue_step (queue_of s) (queue_of s')"
    using pool_refines[OF _ Step.hyps(2)] timely_inv[OF Step.hyps(1)] by blast
  then show ?case using Step.IH queue_reachable.Step by auto
qed

lemma timely_verdict_is_final:
  assumes "timely s" "pool_step s s'" "r \<in> set (p_rows s)" "job_status r \<in> {Completed, Failed}"
    and "r' \<in> set (p_rows s')" "job_id r' = job_id r" "in_time s'"
  shows "job_status r' = job_status r \<and> (if job_status r = Completed then job_result r' = job_result r else job_error r' = job_error r)"
proof -
  have inv: "timely_inv s" "timely_inv s'" using timely_inv assms(1,2,7) timely.Step by blast+
  then have q: "queue_of s (job_id r) = Some (phase_of (p_held s) r, job_attempts r)"
      "queue_of s' (job_id r) = Some (phase_of (p_held s') r', job_attempts r')"
    using queue_of_mem[of s r] queue_of_mem[of s' r'] assms(3,5,6) by (simp_all add: timely_inv_def)
  have "verdict (phase_of (p_held s) r)" using assms(4) by (auto simp: verdict_def phase_of_def)
  with pool_refines[OF inv(1) assms(2)] have "phase_of (p_held s') r' = phase_of (p_held s) r"
    using verdict_final q by fastforce
  then show ?thesis using assms(4) by (auto simp: phase_of_def split: job_state.splits option.splits)
qed

subsection \<open>Properties\<close>

text \<open>
  C5: The job table refines a queue. As long as no worker keeps a job beyond its lease, every
  step of any number of workers, claims under locks, crashes, retries and deletes included, is
  a step of the abstract queue or leaves it as it is: a job waits or is lost until one idle
  worker takes it, at most three times; it gets one verdict, from the worker that holds it or
  from the attempt cap; and a verdict is never changed.
\<close>

theorem timely_pool_refines_queue:
  assumes "timely s" "pool_step s s'" "in_time s'"
  shows "queue_reachable (queue_of s') \<and> (queue_of s' = queue_of s \<or> queue_step (queue_of s) (queue_of s'))"
  using timely_queue_reachable[OF timely.Step[OF assms]] pool_refines[OF conjunct1[OF timely_inv[OF assms(1)]] assms(2)] by blast

lemma claimed_timely: "timely \<lparr>p_rows = [job1], p_now = 0, p_held = [(1, job1)]\<rparr>"
proof -
  let ?s0 = "\<lparr>p_rows = [] :: doc_job list, p_now = 0, p_held = []\<rparr>"
  let ?s1 = "\<lparr>p_rows = [job0], p_now = 0, p_held = []\<rparr>"
  have "pool_step ?s0 ?s1" using pool_step.Enqueue[of job0 ?s0] by (simp add: job0_def new_doc_job_def)
  from timely.Step[OF timely.Start this] have "timely ?s1" by (simp add: in_time_def)
  moreover have "claim_next 0 {} [job0] = (Some job1, [job1])"
    by (simp add: job0_def job1_def claim_next_def runnable_def select_where_def order_by_def
        first_row_def update_where_def new_doc_job_def)
  then have "pool_step ?s1 \<lparr>p_rows = [job1], p_now = 0, p_held = [(1, job1)]\<rparr>"
    using pool_step.Claim[of ?s1 "{}" job1 "[job1]" 1] by (simp add: job_values)
  ultimately show ?thesis by (rule timely.Step) (simp add: in_time_def expired_def job_values)
qed

theorem timely_pool_refines_queue_witness:
  "queue_step [7 \<mapsto> (Held 1, 1)] [7 \<mapsto> (Succeeded (Some (JNum 3)), 1)]"
proof -
  let ?d = "set_terminal 0 Completed (Some (JNum 3)) None job1"
  let ?s = "\<lparr>p_rows = [job1], p_now = 0, p_held = [(1, job1)]\<rparr>" and ?s' = "\<lparr>p_rows = [?d], p_now = 0, p_held = []\<rparr>"
  have "mark_completed 0 job1 (JNum 3) [job1] = Some [?d]"
    by (subst mark_completed_owned) (simp_all add: job_values update_where_def)
  then have "pool_step ?s ?s'" using pool_step.Complete[of 1 job1 ?s "JNum 3" "[?d]"] by (simp add: drop_worker_def)
  from timely_pool_refines_queue[OF claimed_timely this] have
    "queue_of ?s' = queue_of ?s \<or> queue_step (queue_of ?s) (queue_of ?s')" by (simp add: in_time_def)
  moreover have "queue_of ?s = [7 \<mapsto> (Held 1, 1)]" "queue_of ?s' = [7 \<mapsto> (Succeeded (Some (JNum 3)), 1)]"
    by (auto simp: queue_of_def row_of_def phase_of_def job_values set_terminal_def intro!: ext)
  moreover have "([7 \<mapsto> (Succeeded (Some (JNum 3)), 1)] :: queue) \<noteq> [7 \<mapsto> (Held 1, 1)]" by (simp add: fun_eq_iff)
  ultimately show ?thesis by simp
qed

end
