(* ===== verification/ClauseNumber.thy ===== *)
theory ClauseNumber
  imports PyStr
begin

section \<open>Clause numbers: the fragments of the two heading patterns\<close>

text \<open>
  Both \<^verbatim>\<open>_HEADING_PATTERN\<close> (parsing.py) and \<^verbatim>\<open>_CLAUSE_NUMBER_PATTERN\<close>
  (diffing.py) are built from the same pieces: an Article/Section/Clause keyword, a dotted
  number \<^verbatim>\<open>\d+(?:\.\d+)*\<close>, an optional closing dot or bracket, white space and a
  first non-space character. Each piece below is the deterministic reader of one of
  these. Reading greedily is exact: a number that stops early is followed by a digit or
  by a dot and a digit, where neither pattern can continue.
\<close>

text \<open>\<^verbatim>\<open>(?:article|section|clause)\s+\<close>, ignoring case: what follows it.\<close>

definition starts_with :: "string \<Rightarrow> string \<Rightarrow> bool" where
  "starts_with pre s \<longleftrightarrow> take (length pre) s = pre"

definition keyword_rest :: "string \<Rightarrow> string option" where
  "keyword_rest line =
     (let low = py_lower line;
          n = (if starts_with ''article'' low \<or> starts_with ''section'' low then 7
               else if starts_with ''clause'' low then 6 else 0);
          r = drop n line
      in if n > 0 \<and> r \<noteq> [] \<and> is_space (hd r) then Some (dropWhile is_space r) else None)"

text \<open>\<^verbatim>\<open>\d+(?:\.\d+)*\<close>: the digit groups and the rest of the line.\<close>

function more_groups :: "string \<Rightarrow> string list \<times> string" where
  "more_groups s =
     (case s of c # t \<Rightarrow>
        if c = CHR ''.'' \<and> takeWhile is_digit t \<noteq> []
        then (let (gs, r) = more_groups (dropWhile is_digit t) in (takeWhile is_digit t # gs, r))
        else ([], s)
      | [] \<Rightarrow> ([], s))"
  by pat_completeness auto
termination
  by (relation "measure length") (auto simp: le_imp_less_Suc length_dropWhile_le)

declare more_groups.simps [simp del]

definition number_groups :: "string \<Rightarrow> (string list \<times> string) option" where
  "number_groups s =
     (let g = takeWhile is_digit s in
      if g = [] then None
      else (let (gs, r) = more_groups (dropWhile is_digit s) in Some (g # gs, r)))"

text \<open>\<^verbatim>\<open>[.)]?\<close>\<close>

definition is_closer :: "char \<Rightarrow> bool" where
  "is_closer c \<longleftrightarrow> c = CHR ''.'' \<or> c = CHR '')''"

definition skip_closer :: "string \<Rightarrow> string" where
  "skip_closer s = (case s of c # t \<Rightarrow> if is_closer c then t else s | [] \<Rightarrow> [])"

text \<open>\<^verbatim>\<open>\s+\S\<close>\<close>

definition space_then_text :: "string \<Rightarrow> bool" where
  "space_then_text s \<longleftrightarrow> s \<noteq> [] \<and> is_space (hd s) \<and> dropWhile is_space s \<noteq> []"

subsection \<open>Lemmas\<close>

lemma takeWhile_digits_append:
  "\<forall>c \<in> set g. is_digit c \<Longrightarrow> r = [] \<or> \<not> is_digit (hd r) \<Longrightarrow>
   takeWhile is_digit (g @ r) = g \<and> dropWhile is_digit (g @ r) = r"
  by (induction g) (cases r, auto)

lemma not_digit_dot [simp]: "\<not> is_digit (CHR ''.'')"
  by (simp add: is_digit_def)

lemma not_digit_space: "is_space c \<Longrightarrow> \<not> is_digit c"
  using digit_not_space by blast

text \<open>Reading back \<open>join "." gs\<close> for any digit groups \<open>gs\<close>.\<close>

definition digit_group :: "string \<Rightarrow> bool" where
  "digit_group g \<longleftrightarrow> g \<noteq> [] \<and> list_all is_digit g"

definition stops_number :: "string \<Rightarrow> bool" where
  "stops_number r \<longleftrightarrow> r = [] \<or> (\<not> is_digit (hd r) \<and> hd r \<noteq> CHR ''.'')"

lemma digit_group_str [simp]: "digit_group (str_of_nat n)"
  by (auto simp: digit_group_def list_all_iff str_of_nat_digits)

lemma join_dots: "join ''.'' (g # gs) = g @ concat (map (\<lambda>g. CHR ''.'' # g) gs)"
  by (induction gs arbitrary: g) simp_all

lemma read_group:
  assumes "digit_group g" "stops_number r"
  shows "takeWhile is_digit (g @ concat (map (\<lambda>g. CHR ''.'' # g) gs) @ r) = g"
    and "dropWhile is_digit (g @ concat (map (\<lambda>g. CHR ''.'' # g) gs) @ r)
         = concat (map (\<lambda>g. CHR ''.'' # g) gs) @ r"
proof -
  let ?r = "concat (map (\<lambda>g. CHR ''.'' # g) gs) @ r"
  have "?r = [] \<or> \<not> is_digit (hd ?r)" using assms(2) by (cases gs) (auto simp: stops_number_def)
  then show "takeWhile is_digit (g @ ?r) = g" "dropWhile is_digit (g @ ?r) = ?r"
    using takeWhile_digits_append[of g ?r] assms(1) by (auto simp: digit_group_def list_all_iff)
qed

lemma more_groups_render:
  "list_all digit_group gs \<Longrightarrow> stops_number r \<Longrightarrow>
   more_groups (concat (map (\<lambda>g. CHR ''.'' # g) gs) @ r) = (gs, r)"
proof (induction gs)
  case Nil
  then show ?case by (cases r) (auto simp: more_groups.simps stops_number_def)
next
  case (Cons g gs)
  then show ?case
    using read_group[of g r gs] by (subst more_groups.simps) (simp add: digit_group_def)
qed

lemma number_groups_render:
  "digit_group g \<Longrightarrow> list_all digit_group gs \<Longrightarrow> stops_number r \<Longrightarrow>
   number_groups (join ''.'' (g # gs) @ r) = Some (g # gs, r)"
  unfolding number_groups_def join_dots append_assoc
  by (simp add: read_group more_groups_render digit_group_def)

lemma keyword_rest_digit:
  assumes "is_digit (hd s)" "s \<noteq> []"
  shows "keyword_rest s = None"
proof -
  obtain c t where s: "s = c # t" using assms(2) by (cases s) auto
  have c: "lower_char c = c" using assms(1) s
    by (auto simp: lower_char_def is_upper_char_def is_ascii_upper_def is_digit_def)
  have "c \<noteq> CHR ''a''" "c \<noteq> CHR ''s''" "c \<noteq> CHR ''c''" using assms(1) s by (auto simp: is_digit_def)
  then show ?thesis by (simp add: keyword_rest_def s py_lower_def starts_with_def c)
qed

text \<open>Leading zeros do not change the number.\<close>

lemma int_of_digits_zero: "int_of_digits (CHR ''0'' # g) = int_of_digits g"
  by (simp add: int_of_digits_def digit_value_def)

end
