(* ===== verification/Parsing.thy ===== *)
theory Parsing
  imports ClauseNumber
begin

section \<open>Document parsing (app/services/parsing.py)\<close>

text \<open>
  Stored bytes become a canonical text, its blocks and its page map. The PDF and DOCX
  readers (pdfplumber, python-docx) are not part of the repository: what they return for
  the bytes is a parameter, the record \<open>extractors\<close>. Bytes are lists of \<open>char\<close>
  (one per byte). Offsets are natural numbers: none is ever negative.
\<close>

type_synonym bytes = "char list"

datatype block_kind = Heading | Paragraph

record parsed_block =
  blk_kind :: block_kind
  blk_text :: string
  blk_start :: nat
  blk_end :: nat
  blk_page :: "nat option"

text \<open>An entry of the page map; its \<^verbatim>\<open>"end"\<close> key is absent while the page is open.\<close>

record page_span =
  pg_page :: nat
  pg_start :: nat
  pg_end :: "nat option"

record parsed_document =
  doc_text :: string
  doc_blocks :: "parsed_block list"
  doc_pages :: "page_span list"

type_synonym block_entry = "block_kind \<times> string \<times> nat option"

subsection \<open>Building the canonical text\<close>

record build_state =
  bs_parts :: "string list"
  bs_blocks :: "parsed_block list"
  bs_pages :: "page_span list"
  bs_pos :: nat

definition build_init :: build_state where
  "build_init = \<lparr>bs_parts = [], bs_blocks = [], bs_pages = [], bs_pos = 0\<rparr>"

definition close_page :: "nat \<Rightarrow> page_span list \<Rightarrow> page_span list" where
  "close_page e pages =
     (if pages = [] then [] else butlast pages @ [(last pages)\<lparr>pg_end := Some e\<rparr>])"

definition block_sep :: string where
  "block_sep = [newline, newline]"

definition build_step :: "build_state \<Rightarrow> block_entry \<Rightarrow> build_state" where
  "build_step s e = (case e of (kind, text, page) \<Rightarrow>
     let start = (if bs_parts s \<noteq> [] then bs_pos s + 2 else bs_pos s);
         parts = (if bs_parts s \<noteq> [] then bs_parts s @ [block_sep] else bs_parts s);
         stop = start + length text;
         pages = (case page of
             None \<Rightarrow> bs_pages s
           | Some p \<Rightarrow>
               if bs_pages s = [] \<or> pg_page (last (bs_pages s)) \<noteq> p
               then close_page start (bs_pages s) @
                    [\<lparr>pg_page = p, pg_start = start, pg_end = None\<rparr>]
               else bs_pages s)
     in \<lparr>bs_parts = parts @ [text],
         bs_blocks = bs_blocks s @
           [\<lparr>blk_kind = kind, blk_text = text, blk_start = start, blk_end = stop, blk_page = page\<rparr>],
         bs_pages = pages,
         bs_pos = stop\<rparr>)"

definition build :: "block_entry list \<Rightarrow> parsed_document" where
  "build entries =
     (let s = foldl build_step build_init entries
      in \<lparr>doc_text = concat (bs_parts s), doc_blocks = bs_blocks s,
          doc_pages = close_page (bs_pos s) (bs_pages s)\<rparr>)"

subsection \<open>The heading pattern\<close>

text \<open>
  \<^verbatim>\<open>^(?:(?:article|section|clause)\s+\d+(?:\.\d+)*[.)]?|\d+(?:\.\d+)+[.)]?|\d+\.)\s+\S\<close>
\<close>

definition heading_pattern :: "string \<Rightarrow> bool" where
  "heading_pattern line =
     (case keyword_rest line of
        Some r \<Rightarrow>
          (case number_groups r of
             Some (_, r') \<Rightarrow> space_then_text (skip_closer r')
           | None \<Rightarrow> False)
      | None \<Rightarrow>
          (case number_groups line of
             Some (gs, r) \<Rightarrow>
               if length gs \<ge> 2 then space_then_text (skip_closer r)
               else r \<noteq> [] \<and> hd r = CHR ''.'' \<and> space_then_text (tl r)
           | None \<Rightarrow> False))"

subsection \<open>The three parsers\<close>

definition is_line_break :: "char \<Rightarrow> bool" where
  "is_line_break c \<longleftrightarrow> (10 \<le> code c \<and> code c \<le> 13) \<or> (28 \<le> code c \<and> code c \<le> 30) \<or> code c = 133"

fun drop_line_break :: "string \<Rightarrow> string" where
  "drop_line_break (c # d # s) = (if code c = 13 \<and> code d = 10 then s else d # s)"
| "drop_line_break [c] = []"
| "drop_line_break [] = []"

lemma length_drop_line_break: "s \<noteq> [] \<Longrightarrow> length (drop_line_break s) < length s"
  by (cases s rule: drop_line_break.cases) auto

text \<open>\<^verbatim>\<open>str.splitlines()\<close>\<close>

function splitlines :: "string \<Rightarrow> string list" where
  "splitlines s =
     (if s = [] then []
      else takeWhile (\<lambda>c. \<not> is_line_break c) s
           # splitlines (drop_line_break (dropWhile (\<lambda>c. \<not> is_line_break c) s)))"
  by pat_completeness auto
termination
proof (relation "measure length", simp)
  fix s :: string
  assume "s \<noteq> []"
  let ?r = "dropWhile (\<lambda>c. \<not> is_line_break c) s"
  have "length (drop_line_break ?r) < length s"
  proof (cases "?r = []")
    case True
    then have "drop_line_break ?r = []" by (simp only: drop_line_break.simps)
    with \<open>s \<noteq> []\<close> show ?thesis by simp
  next
    case False
    then show ?thesis using length_drop_line_break[OF False] length_dropWhile_le
      by (metis order_less_le_trans)
  qed
  then show "(drop_line_break ?r, s) \<in> measure length" by simp
qed

declare splitlines.simps [simp del]

text \<open>\<open>parse_pdf\<close>: per page (1-based), the lines of its text, stripped, blank ones dropped.\<close>

definition pdf_entries :: "string option list \<Rightarrow> block_entry list" where
  "pdf_entries pages =
     concat (map (\<lambda>(number, page).
         map (\<lambda>line. (if heading_pattern line then Heading else Paragraph, line, Some number))
           (filter (\<lambda>line. line \<noteq> [])
             (map strip (splitlines (case page of None \<Rightarrow> [] | Some t \<Rightarrow> t)))))
       (zip [1 ..< Suc (length pages)] pages))"

definition parse_pdf :: "string option list \<Rightarrow> parsed_document" where
  "parse_pdf pages = build (pdf_entries pages)"

text \<open>\<open>parse_docx\<close>: the paragraphs with their style names, \<open>None\<close> without a style.\<close>

definition docx_entries :: "(string \<times> string option) list \<Rightarrow> block_entry list" where
  "docx_entries paras =
     concat (map (\<lambda>(raw, style).
         let text = strip raw; name = (case style of None \<Rightarrow> [] | Some n \<Rightarrow> n) in
         if text = [] then []
         else [(if starts_with ''Heading'' name \<or> starts_with ''Title'' name then Heading else Paragraph,
                text, None)]) paras)"

definition parse_docx :: "(string \<times> string option) list \<Rightarrow> parsed_document" where
  "parse_docx paras = build (docx_entries paras)"

text \<open>
  \<^verbatim>\<open>re.split(r"\n\s*\n", text)\<close>. A match starts at the leftmost newline whose
  following white space holds another newline, and ends after the last one of it.
\<close>

definition after_blank :: "string \<Rightarrow> string option" where
  "after_blank s =
     (let w = takeWhile is_space s in
      if newline \<in> set w
      then Some (drop (length w - length (takeWhile (\<lambda>c. c \<noteq> newline) (rev w))) s)
      else None)"

lemma after_blank_length: "after_blank s = Some r \<Longrightarrow> length r \<le> length s"
  by (auto simp: after_blank_def Let_def split: if_splits)

function (sequential) split_blank :: "string \<Rightarrow> string \<Rightarrow> string list" where
  "split_blank cur [] = [rev cur]"
| "split_blank cur (c # s) =
     (if c = newline
      then (case after_blank s of
              Some r \<Rightarrow> rev cur # split_blank [] r
            | None \<Rightarrow> split_blank (c # cur) s)
      else split_blank (c # cur) s)"
  by pat_completeness auto
termination
  by (relation "measure (\<lambda>(cur, s). length s)") (auto simp: le_imp_less_Suc after_blank_length)

definition text_entries :: "string \<Rightarrow> block_entry list" where
  "text_entries text =
     map (\<lambda>p. (Paragraph, p, None)) (filter (\<lambda>p. p \<noteq> []) (map strip (split_blank [] text)))"

text \<open>\<^verbatim>\<open>content.decode("utf-8")\<close>: strict UTF-8, to code points.\<close>

definition is_cont :: "char \<Rightarrow> bool" where
  "is_cont c \<longleftrightarrow> 128 \<le> code c \<and> code c \<le> 191"

definition cont :: "char \<Rightarrow> nat" where
  "cont c = code c - 128"

definition second_ok :: "nat \<Rightarrow> char \<Rightarrow> bool" where
  "second_ok lead c \<longleftrightarrow> is_cont c
     \<and> (lead = 224 \<longrightarrow> 160 \<le> code c) \<and> (lead = 237 \<longrightarrow> code c \<le> 159)
     \<and> (lead = 240 \<longrightarrow> 144 \<le> code c) \<and> (lead = 244 \<longrightarrow> code c \<le> 143)"

fun utf8_decode :: "bytes \<Rightarrow> nat list option" where
  "utf8_decode [] = Some []"
| "utf8_decode (b # bs) =
     (if code b < 128 then map_option (Cons (code b)) (utf8_decode bs)
      else if 194 \<le> code b \<and> code b \<le> 223 then
        (case bs of
           c # r \<Rightarrow> if is_cont c
                   then map_option (Cons ((code b - 192) * 64 + cont c)) (utf8_decode r)
                   else None
         | _ \<Rightarrow> None)
      else if 224 \<le> code b \<and> code b \<le> 239 then
        (case bs of
           c # d # r \<Rightarrow> if second_ok (code b) c \<and> is_cont d
                       then map_option (Cons ((code b - 224) * 4096 + cont c * 64 + cont d)) (utf8_decode r)
                       else None
         | _ \<Rightarrow> None)
      else if 240 \<le> code b \<and> code b \<le> 244 then
        (case bs of
           c # d # e # r \<Rightarrow> if second_ok (code b) c \<and> is_cont d \<and> is_cont e
                           then map_option (Cons ((code b - 240) * 262144 + cont c * 4096
                                  + cont d * 64 + cont e)) (utf8_decode r)
                           else None
         | _ \<Rightarrow> None)
      else None)"

text \<open>
  The failures of parsing. \<open>Not_Latin1\<close> is not an error of the program: it marks texts
  with a code point above 255, which this model's strings do not hold.
\<close>

datatype parse_error =
    Unsupported_Parse string
  | Unicode_Decode
  | Extractor_Raised string
  | Not_Latin1

definition parse_text :: "bytes \<Rightarrow> parse_error + parsed_document" where
  "parse_text content =
     (case utf8_decode content of
        None \<Rightarrow> Inl Unicode_Decode
      | Some cps \<Rightarrow>
          if list_all (\<lambda>n. n < 256) cps then Inr (build (text_entries (map char_of cps)))
          else Inl Not_Latin1)"

record extractors =
  pdf_pages :: "bytes \<Rightarrow> string + string option list"
  docx_paragraphs :: "bytes \<Rightarrow> string + (string \<times> string option) list"

definition pdf_mime :: string where
  "pdf_mime = ''application/pdf''"

definition text_mime :: string where
  "text_mime = ''text/plain''"

definition docx_mime :: string where
  "docx_mime = ''application/vnd.openxmlformats-officedocument.wordprocessingml.document''"

definition parse :: "extractors \<Rightarrow> string \<Rightarrow> bytes \<Rightarrow> parse_error + parsed_document" where
  "parse ex mime content =
     (if mime = pdf_mime then
        (case pdf_pages ex content of Inl m \<Rightarrow> Inl (Extractor_Raised m) | Inr ps \<Rightarrow> Inr (parse_pdf ps))
      else if mime = docx_mime then
        (case docx_paragraphs ex content of Inl m \<Rightarrow> Inl (Extractor_Raised m) | Inr ps \<Rightarrow> Inr (parse_docx ps))
      else if mime = text_mime then parse_text content
      else Inl (Unsupported_Parse mime))"


subsection \<open>Layout of a built document\<close>

text \<open>
  The reference layout: blocks one after the other, two characters apart. The single pass
  of \<open>build\<close> computes exactly this layout and the separator-join of the block texts.
\<close>

abbreviation entry_text :: "block_entry \<Rightarrow> string" where
  "entry_text e \<equiv> fst (snd e)"

fun layout :: "nat \<Rightarrow> block_entry list \<Rightarrow> parsed_block list" where
  "layout pos [] = []"
| "layout pos ((kind, text, page) # es) =
     \<lparr>blk_kind = kind, blk_text = text, blk_start = pos, blk_end = pos + length text, blk_page = page\<rparr>
     # layout (pos + length text + 2) es"

lemma layout_Cons:
  "layout pos (e # es) =
     \<lparr>blk_kind = fst e, blk_text = entry_text e, blk_start = pos,
      blk_end = pos + length (entry_text e), blk_page = snd (snd e)\<rparr>
     # layout (pos + length (entry_text e) + 2) es"
  by (cases e) simp

lemma build_step_simps:
  "bs_parts (build_step s (k, t, p)) = (if bs_parts s \<noteq> [] then bs_parts s @ [block_sep, t] else [t])"
  "bs_blocks (build_step s (k, t, p)) = bs_blocks s @
     layout (if bs_parts s \<noteq> [] then bs_pos s + 2 else bs_pos s) [(k, t, p)]"
  "bs_pos (build_step s (k, t, p)) = (if bs_parts s \<noteq> [] then bs_pos s + 2 else bs_pos s) + length t"
  by (auto simp: build_step_def Let_def)

lemma foldl_build_step:
  "bs_parts s \<noteq> [] \<Longrightarrow>
     bs_blocks (foldl build_step s es) = bs_blocks s @ layout (bs_pos s + 2) es
   \<and> concat (bs_parts (foldl build_step s es)) =
       concat (bs_parts s) @ concat (map (\<lambda>e. block_sep @ entry_text e) es)
   \<and> bs_parts (foldl build_step s es) \<noteq> []"
proof (induction es arbitrary: s)
  case Nil
  then show ?case by simp
next
  case (Cons e es)
  obtain k t p where e: "e = (k, t, p)" by (cases e)
  have "bs_parts (build_step s e) \<noteq> []" by (simp add: e build_step_simps)
  note IH = Cons.IH[OF this]
  show ?case using Cons.prems IH by (simp add: e build_step_simps)
qed

lemma join_sep: "join sep (x # xs) = x @ concat (map (\<lambda>y. sep @ y) xs)"
  by (induction xs arbitrary: x) simp_all

lemma build_text: "doc_text (build es) = join block_sep (map entry_text es)"
proof (cases es)
  case Nil
  then show ?thesis by (simp add: build_def build_init_def)
next
  case (Cons e es')
  obtain k t p where e: "e = (k, t, p)" by (cases e)
  have "bs_parts (build_step build_init e) \<noteq> []" by (simp add: e build_step_simps)
  from foldl_build_step[OF this, of es'] show ?thesis
    by (simp add: Cons build_def Let_def e build_step_simps build_init_def join_sep comp_def)
qed

lemma build_blocks: "doc_blocks (build es) = layout 0 es"
proof (cases es)
  case Nil
  then show ?thesis by (simp add: build_def build_init_def)
next
  case (Cons e es')
  obtain k t p where e: "e = (k, t, p)" by (cases e)
  have "bs_parts (build_step build_init e) \<noteq> []" by (simp add: e build_step_simps)
  from foldl_build_step[OF this, of es'] show ?thesis
    by (simp add: Cons build_def Let_def e build_step_simps build_init_def add.commute add.left_commute)
qed

lemma join_block_sep_Cons:
  "join block_sep (t # ts) = (if ts = [] then t else t @ block_sep @ join block_sep ts)"
  by (cases ts) simp_all

lemma length_block_sep [simp]: "length block_sep = 2"
  by (simp add: block_sep_def)

text \<open>Every block is the slice of the canonical text its offsets name.\<close>

lemma layout_slice:
  "b \<in> set (layout (length pre) es) \<Longrightarrow>
     slice (pre @ join block_sep (map entry_text es)) (blk_start b) (blk_end b) = blk_text b
   \<and> blk_start b + length (blk_text b) = blk_end b
   \<and> blk_end b \<le> length pre + length (join block_sep (map entry_text es))
   \<and> length pre \<le> blk_start b"
proof (induction es arbitrary: pre)
  case Nil
  then show ?case by simp
next
  case (Cons e es)
  obtain k t p where e: "e = (k, t, p)" by (cases e)
  show ?case
  proof (cases "b \<in> set (layout (length (pre @ t @ block_sep)) es)")
    case True
    then have "es \<noteq> []" by auto
    then show ?thesis using Cons.IH[OF True] by (auto simp: e join_block_sep_Cons)
  next
    case False
    then have b: "b = \<lparr>blk_kind = k, blk_text = t, blk_start = length pre,
        blk_end = length pre + length t, blk_page = p\<rparr>"
      using Cons.prems by (auto simp: e add.assoc add.commute[of _ 2])
    show ?thesis by (cases "es = []") (auto simp: b e join_block_sep_Cons slice_def)
  qed
qed

lemma build_block_slice:
  assumes "b \<in> set (doc_blocks (build es))"
  shows "slice (doc_text (build es)) (blk_start b) (blk_end b) = blk_text b"
    and "blk_start b + length (blk_text b) = blk_end b"
    and "blk_end b \<le> length (doc_text (build es))"
  using layout_slice[of b "[]" es] assms by (simp_all add: build_text build_blocks)

text \<open>Neighbouring blocks are two characters apart, the first starts at 0, the last ends
  with the text.\<close>

lemma length_layout: "length (layout pos es) = length es"
  by (induction pos es rule: layout.induct) simp_all

lemma layout_neighbours:
  "Suc i < length (layout pos es) \<Longrightarrow> blk_start (layout pos es ! Suc i) = blk_end (layout pos es ! i) + 2"
proof (induction pos es arbitrary: i rule: layout.induct)
  case (1 pos)
  then show ?case by simp
next
  case (2 pos k t p es)
  show ?case
  proof (cases i)
    case 0
    with "2.prems" show ?thesis by (cases es) (auto simp: layout_Cons)
  next
    case (Suc j)
    with "2" show ?thesis by simp
  qed
qed

lemma layout_last:
  "es \<noteq> [] \<Longrightarrow> blk_end (last (layout pos es)) = pos + length (join block_sep (map entry_text es))"
proof (induction pos es rule: layout.induct)
  case (1 pos)
  then show ?case by simp
next
  case (2 pos k t p es)
  then show ?case
    by (cases "es = []") (auto simp: join_block_sep_Cons length_layout dest: arg_cong[of _ _ length])
qed

lemma layout_starts: "b \<in> set (layout pos es) \<Longrightarrow> pos \<le> blk_start b"
  by (induction pos es rule: layout.induct) auto

subsection \<open>The page map\<close>

fun page_chain :: "page_span list \<Rightarrow> bool" where
  "page_chain (x # y # r) =
     (pg_end x = Some (pg_start y) \<and> pg_start x < pg_start y \<and> page_chain (y # r))"
| "page_chain _ = True"

definition on_page :: "page_span list \<Rightarrow> parsed_block \<Rightarrow> bool" where
  "on_page pages b =
     (case blk_page b of None \<Rightarrow> True
      | Some p \<Rightarrow> list_ex (\<lambda>q. pg_page q = p \<and> pg_start q \<le> blk_start b
            \<and> (case pg_end q of None \<Rightarrow> True | Some e \<Rightarrow> blk_end b \<le> e)) pages)"

definition pages_inv :: "build_state \<Rightarrow> bool" where
  "pages_inv s \<longleftrightarrow> page_chain (bs_pages s)
     \<and> (bs_pages s \<noteq> [] \<longrightarrow> bs_parts s \<noteq> [] \<and> pg_end (last (bs_pages s)) = None
          \<and> pg_start (last (bs_pages s)) \<le> bs_pos s)
     \<and> (\<forall>b \<in> set (bs_blocks s). blk_end b \<le> bs_pos s \<and> on_page (bs_pages s) b)"

lemma page_chain_snoc:
  "page_chain (xs @ [x]) \<Longrightarrow> pg_start x < st \<Longrightarrow>
   page_chain (xs @ [x\<lparr>pg_end := Some st\<rparr>, \<lparr>pg_page = p, pg_start = st, pg_end = None\<rparr>])"
proof (induction xs)
  case Nil
  then show ?case by simp
next
  case (Cons y ys)
  then show ?case by (cases ys) auto
qed

lemma page_chain_close: "page_chain ps \<Longrightarrow> page_chain (close_page e ps)"
proof (induction ps rule: page_chain.induct)
  case (1 x y r)
  then show ?case by (cases r) (auto simp: close_page_def)
qed (simp_all add: close_page_def)

lemma on_page_close:
  assumes "on_page ps b" "blk_end b \<le> e"
  shows "on_page (close_page e ps) b"
proof (cases "ps = []")
  case True
  with assms show ?thesis by (simp add: close_page_def)
next
  case False
  show ?thesis
  proof (cases "blk_page b")
    case None
    then show ?thesis by (simp add: on_page_def)
  next
    case (Some p)
    then obtain q where q: "q \<in> set ps" "pg_page q = p" "pg_start q \<le> blk_start b"
        "case pg_end q of None \<Rightarrow> True | Some e' \<Rightarrow> blk_end b \<le> e'"
      using assms(1) by (auto simp: on_page_def list_ex_iff)
    then have "q \<in> set (butlast ps) \<or> q = last ps"
      using False by (metis append_butlast_last_id in_set_conv_decomp_first rotate1.simps(2) set_ConsD set_rotate1)
    then show ?thesis using q False Some assms(2)
      by (auto simp: on_page_def close_page_def list_ex_iff)
  qed
qed

lemma on_page_append: "on_page ps b \<Longrightarrow> on_page (ps @ qs) b"
  by (auto simp: on_page_def list_ex_iff split: option.splits)

lemma on_page_last:
  "ps \<noteq> [] \<Longrightarrow> pg_page (last ps) = p \<Longrightarrow> pg_end (last ps) = None \<Longrightarrow> pg_start (last ps) \<le> blk_start b
   \<Longrightarrow> blk_page b = Some p \<Longrightarrow> on_page ps b"
  by (auto simp: on_page_def list_ex_iff intro!: bexI[of _ "last ps"])

lemma pages_inv_step: "pages_inv s \<Longrightarrow> pages_inv (build_step s e)"
proof -
  assume inv: "pages_inv s"
  obtain k t p where e: "e = (k, t, p)" by (cases e)
  let ?st = "if bs_parts s \<noteq> [] then bs_pos s + 2 else bs_pos s"
  let ?b = "\<lparr>blk_kind = k, blk_text = t, blk_start = ?st, blk_end = ?st + length t, blk_page = p\<rparr>"
  let ?ps = "bs_pages (build_step s e)"
  have fields: "bs_blocks (build_step s e) = bs_blocks s @ [?b]" "bs_pos (build_step s e) = ?st + length t"
    "bs_parts (build_step s e) \<noteq> []"
    by (simp_all add: e build_step_simps)
  have old: "blk_end b \<le> bs_pos s" "on_page (bs_pages s) b" if "b \<in> set (bs_blocks s)" for b
    using inv that by (auto simp: pages_inv_def)
  show ?thesis
  proof (cases "\<exists>q. p = Some q \<and> (bs_pages s = [] \<or> pg_page (last (bs_pages s)) \<noteq> q)")
    case False
    then have same: "?ps = bs_pages s" by (auto simp: e build_step_def Let_def split: option.splits)
    have "on_page (bs_pages s) ?b"
    proof (cases p)
      case None
      then show ?thesis by (simp add: on_page_def)
    next
      case (Some q)
      with False inv show ?thesis by (intro on_page_last) (auto simp: pages_inv_def)
    qed
    then show ?thesis using inv old fields by (fastforce simp: pages_inv_def same)
  next
    case True
    then obtain q where q: "p = Some q" "bs_pages s = [] \<or> pg_page (last (bs_pages s)) \<noteq> q" by auto
    let ?new = "\<lparr>pg_page = q, pg_start = ?st, pg_end = None\<rparr>"
    have ps: "?ps = close_page ?st (bs_pages s) @ [?new]"
      using q by (auto simp: e build_step_def Let_def)
    have "page_chain ?ps"
    proof (cases "bs_pages s = []")
      case True
      then show ?thesis by (simp add: ps close_page_def)
    next
      case False
      then have "page_chain (butlast (bs_pages s) @ [last (bs_pages s)])" "pg_start (last (bs_pages s)) < ?st"
        using inv by (auto simp: pages_inv_def)
      from page_chain_snoc[OF this, of q] False show ?thesis by (simp add: ps close_page_def)
    qed
    moreover have "on_page ?ps ?b" by (rule on_page_last[of _ q]) (simp_all add: ps q)
    moreover have "on_page ?ps b" if "b \<in> set (bs_blocks s)" for b
      unfolding ps using old[OF that] by (intro on_page_append on_page_close) auto
    ultimately show ?thesis using old fields by (fastforce simp: pages_inv_def ps)
  qed
qed

lemma pages_inv_fold: "pages_inv s \<Longrightarrow> pages_inv (foldl build_step s es)"
  by (induction es arbitrary: s) (simp_all add: pages_inv_step)

lemma build_pos: "bs_pos (foldl build_step build_init es) = length (doc_text (build es))"
proof -
  have "length (concat (bs_parts s)) = bs_pos s \<Longrightarrow>
    length (concat (bs_parts (foldl build_step s es))) = bs_pos (foldl build_step s es)" for s
  proof (induction es arbitrary: s)
    case (Cons e es)
    obtain k t p where e: "e = (k, t, p)" by (cases e)
    show ?case using Cons.prems by (auto simp: e intro!: Cons.IH simp: build_step_simps)
  qed simp
  from this[of build_init] show ?thesis by (simp add: build_def build_init_def Let_def)
qed

lemma build_page_map:
  shows "page_chain (doc_pages (build es))"
    and "doc_pages (build es) \<noteq> [] \<Longrightarrow> pg_end (last (doc_pages (build es))) = Some (length (doc_text (build es)))"
    and "b \<in> set (doc_blocks (build es)) \<Longrightarrow> on_page (doc_pages (build es)) b"
proof -
  let ?s = "foldl build_step build_init es"
  have inv: "pages_inv ?s" by (rule pages_inv_fold) (simp add: pages_inv_def build_init_def)
  have pages: "doc_pages (build es) = close_page (bs_pos ?s) (bs_pages ?s)"
    and blocks: "doc_blocks (build es) = bs_blocks ?s"
    by (simp_all add: build_def Let_def)
  show "page_chain (doc_pages (build es))"
    using inv by (simp add: pages pages_inv_def page_chain_close)
  show "pg_end (last (doc_pages (build es))) = Some (length (doc_text (build es)))"
    if "doc_pages (build es) \<noteq> []"
    using that by (simp add: pages build_pos close_page_def split: if_splits)
  show "on_page (doc_pages (build es)) b" if "b \<in> set (doc_blocks (build es))"
    using inv that by (auto simp: pages blocks pages_inv_def intro!: on_page_close)
qed

subsection \<open>Blocks of plain text\<close>

text \<open>
  \<open>clean_text t\<close>: what the text parser guarantees of a block, not empty, no white space
  at either end, no blank line inside.
\<close>

definition clean_text :: "string \<Rightarrow> bool" where
  "clean_text t \<longleftrightarrow> t \<noteq> [] \<and> \<not> is_space (hd t) \<and> \<not> is_space (last t) \<and> find_blank t = None"

lemma find_blank_None: "find_blank s = None \<longleftrightarrow> (\<forall>u v. s \<noteq> u @ newline # newline # v)"
proof (induction s rule: find_blank.induct)
  case (1 c d s)
  show ?case
  proof (cases "c = newline \<and> d = newline")
    case True
    then have "c # d # s = [] @ newline # newline # s" by simp
    with True show ?thesis by (metis find_blank.simps(1) option.distinct(1))
  next
    case False
    have "(\<exists>u v. c # d # s = u @ newline # newline # v) \<longleftrightarrow> (\<exists>u v. d # s = u @ newline # newline # v)"
    proof
      assume "\<exists>u v. c # d # s = u @ newline # newline # v"
      then obtain u v where uv: "c # d # s = u @ newline # newline # v" by blast
      with False obtain u' where "u = c # u'" by (cases u) auto
      with uv show "\<exists>u v. d # s = u @ newline # newline # v" by auto
    next
      assume "\<exists>u v. d # s = u @ newline # newline # v"
      then obtain u v where "d # s = u @ newline # newline # v" by blast
      then have "c # d # s = (c # u) @ newline # newline # v" by simp
      then show "\<exists>u v. c # d # s = u @ newline # newline # v" by blast
    qed
    moreover have "find_blank (c # d # s) = None \<longleftrightarrow> find_blank (d # s) = None" using False by auto
    ultimately show ?thesis using "1.IH"[OF False] by (simp only: not_ex [symmetric])
  qed
qed (auto simp: Cons_eq_append_conv)

lemma find_blank_infix: "find_blank (u @ s @ v) = None \<Longrightarrow> find_blank s = None"
  unfolding find_blank_None by (metis append.assoc append_Cons)

lemma find_blank_snoc:
  assumes "find_blank xs = None" "\<not> (xs \<noteq> [] \<and> last xs = newline \<and> c = newline)"
  shows "find_blank (xs @ [c]) = None"
proof -
  { fix u v assume eq: "xs @ [c] = u @ newline # newline # v"
    have False
    proof (cases v rule: rev_cases)
      case Nil
      then have "xs @ [c] = (u @ [newline]) @ [newline]" using eq by simp
      then show False using assms(2) by (simp only: append1_eq_conv) auto
    next
      case (snoc v' d)
      then have "xs @ [c] = (u @ newline # newline # v') @ [d]" using eq by simp
      then show False using assms(1) unfolding find_blank_None by (simp only: append1_eq_conv) blast
    qed }
  then show ?thesis unfolding find_blank_None by blast
qed

lemma after_blank_None_hd: "after_blank s = None \<Longrightarrow> s = [] \<or> hd s \<noteq> newline"
  by (cases s) (auto simp: after_blank_def Let_def split: if_splits)

lemma split_blank_no_blank:
  "find_blank (rev cur) = None \<Longrightarrow> (cur \<noteq> [] \<and> hd cur = newline \<longrightarrow> s = [] \<or> hd s \<noteq> newline) \<Longrightarrow>
   p \<in> set (split_blank cur s) \<Longrightarrow> find_blank p = None"
proof (induction cur s arbitrary: p rule: split_blank.induct)
  case (1 cur)
  then show ?case by simp
next
  case (2 cur c s)
  have "\<not> (rev cur \<noteq> [] \<and> last (rev cur) = newline \<and> c = newline)"
    using "2.prems"(2) by (cases cur) auto
  from find_blank_snoc[OF "2.prems"(1) this]
  have push: "find_blank (rev (c # cur)) = None" by simp
  show ?case
  proof (cases "c = newline")
    case False
    with "2.IH"(3)[OF False push] "2.prems"(3) show ?thesis by simp
  next
    case True
    show ?thesis
    proof (cases "after_blank s")
      case None
      with True "2.IH"(1)[OF True None push] "2.prems"(3) after_blank_None_hd[OF None] show ?thesis by simp
    next
      case (Some r)
      with True "2.IH"(2)[OF True Some] "2.prems"(1,3) show ?thesis by auto
    qed
  qed
qed

lemma text_entries_clean:
  assumes "e \<in> set (text_entries t)"
  shows "clean_text (entry_text e)" and "fst e = Paragraph" and "snd (snd e) = None"
proof -
  obtain p where p: "p \<in> set (split_blank [] t)" "entry_text e = strip p" "strip p \<noteq> []"
    using assms by (auto simp: text_entries_def)
  have "find_blank p = None" by (rule split_blank_no_blank[OF _ _ p(1)]) simp_all
  then have "find_blank (strip p) = None" using strip_infix[of p] find_blank_infix by metis
  then show "clean_text (entry_text e)" using p strip_ends[OF p(3)] by (simp add: clean_text_def)
  show "fst e = Paragraph" "snd (snd e) = None" using assms by (auto simp: text_entries_def)
qed

subsection \<open>Properties\<close>

text \<open>
  The builder's one pass lays the blocks out exactly as the reference layout does: the
  canonical text is the blank-line join of the entries, and every block's offsets cut its
  own text back out of the canonical text.
\<close>

theorem built_blocks_slice_back:
  "doc_text (build es) = join [newline, newline] (map entry_text es)
   \<and> map blk_text (doc_blocks (build es)) = map entry_text es
   \<and> map (\<lambda>b. slice (doc_text (build es)) (blk_start b) (blk_end b)) (doc_blocks (build es)) = map entry_text es"
proof -
  have "map blk_text (layout pos es) = map entry_text es" for pos
    by (induction pos es rule: layout.induct) simp_all
  then have texts: "map blk_text (doc_blocks (build es)) = map entry_text es" by (simp add: build_blocks)
  have "map (\<lambda>b. slice (doc_text (build es)) (blk_start b) (blk_end b)) (doc_blocks (build es))
      = map blk_text (doc_blocks (build es))"
    by (rule map_cong) (simp_all add: build_block_slice(1))
  with texts show ?thesis by (simp add: build_text block_sep_def)
qed

text \<open>
  The page map of a built document is contiguous and ends with the text, and every
  block that names a page lies inside an entry of that page.
\<close>

theorem page_map_contiguous:
  "page_chain (doc_pages (build es))
   \<and> (doc_pages (build es) = [] \<or> pg_end (last (doc_pages (build es))) = Some (length (doc_text (build es))))
   \<and> list_all (on_page (doc_pages (build es))) (doc_blocks (build es))"
  using build_page_map[where es = es] by (auto simp: list_all_iff)

end
