(* ===== verification/Errors.thy ===== *)
theory Errors
  imports Json Parsing
begin

section \<open>The exceptions of the services, as values\<close>

text \<open>
  A call that raises returns \<open>Inl\<close> of the exception, with what the exception object
  carries; \<open>exn_str\<close> is \<^verbatim>\<open>str(exc)\<close>, which ends up in job rows and HTTP
  details. The constructors are grouped by the module that defines the class; the last
  group are library exceptions the code meets.
\<close>

record llm_usage =
  us_model :: string
  us_prompt :: nat
  us_completion :: nat
  us_cost :: rat
  us_latency :: nat

datatype prereq_kind = Prereq_Ingestion | Prereq_Extraction

definition prereq_name :: "prereq_kind \<Rightarrow> string" where
  "prereq_name k = (case k of Prereq_Ingestion \<Rightarrow> ''ingestion'' | Prereq_Extraction \<Rightarrow> ''extraction'')"

datatype role = Admin | Reviewer

definition role_value :: "role \<Rightarrow> string" where
  "role_value r = (case r of Admin \<Rightarrow> ''admin'' | Reviewer \<Rightarrow> ''reviewer'')"

datatype exn =
    Mime_Not_Allowed "string option" "string option"
  | Upload_Too_Large nat
  | Document_Already_Exists "uuid option"
  | Document_Not_Found uuid
  | Document_Has_Amendments uuid
  | Ingestion_Job_Not_Found uuid
  | Ingestion_Job_Conflict uuid
  | Extraction_Job_Not_Found uuid
  | Extraction_Job_Conflict uuid
  | Document_Not_Parsed "uuid option"
  | Change_Report_Job_Not_Found uuid
  | Amendment_Mismatch uuid uuid
  | Prerequisite_Missing uuid prereq_kind "uuid option"
  | Review_Item_Not_Found uuid
  | Review_Item_Already_Resolved uuid
  | Llm_Error string
  | Llm_Not_Configured
  | Llm_Call_Error string string
  | Llm_Output_Error string "llm_usage option"
  | Authentication_Error string
  | Authorization_Error string
  | Auth_Not_Configured string
  | Jwks_Unavailable string
  | Rate_Limit_Exceeded nat
  | Value_Error string
  | Key_Error string
  | Index_Error string
  | Attribute_Error string
  | File_Not_Found string
  | Parse_Raised parse_error
  | Integrity_Error
  | Data_Error
  | Stale_Data

text \<open>\<^verbatim>\<open>repr(str)\<close> on Latin-1 text.\<close>

definition is_printable :: "char \<Rightarrow> bool" where
  "is_printable c \<longleftrightarrow> (32 \<le> code c \<and> code c \<le> 126) \<or> (161 \<le> code c \<and> code c \<noteq> 173)"

definition repr_char :: "char \<Rightarrow> char \<Rightarrow> string" where
  "repr_char quote c =
     (if c = quote \<or> code c = 92 then [char_of (92 :: nat), c]
      else if code c = 10 then [char_of (92 :: nat), CHR ''n'']
      else if code c = 13 then [char_of (92 :: nat), CHR ''r'']
      else if code c = 9 then [char_of (92 :: nat), CHR ''t'']
      else if is_printable c then [c]
      else [char_of (92 :: nat), CHR ''x''] @ hex_digits 2 (code c))"

definition py_repr :: "string \<Rightarrow> string" where
  "py_repr s =
     (let quote = (if char_of (39 :: nat) \<in> set s \<and> char_of (34 :: nat) \<notin> set s
                   then char_of (34 :: nat) else char_of (39 :: nat))
      in [quote] @ concat (map (repr_char quote) s) @ [quote])"

definition opt_repr :: "string option \<Rightarrow> string" where
  "opt_repr s = (case s of None \<Rightarrow> ''None'' | Some t \<Rightarrow> py_repr t)"

text \<open>
  The codec, the file system and the database driver word their own messages; a short
  stand-in replaces those, and no definition depends on their wording.
\<close>

definition parse_error_str :: "parse_error \<Rightarrow> string" where
  "parse_error_str e = (case e of
     Unsupported_Parse m \<Rightarrow> ''no parser for media type '' @ py_repr m
   | Unicode_Decode \<Rightarrow> ''utf-8 codec can't decode the content''
   | Extractor_Raised m \<Rightarrow> m
   | Not_Latin1 \<Rightarrow> ''text outside Latin-1'')"

definition exn_str :: "exn \<Rightarrow> string" where
  "exn_str e = (case e of
     Mime_Not_Allowed ct _ \<Rightarrow> ''unsupported media type '' @ opt_repr ct
   | Upload_Too_Large n \<Rightarrow> ''upload exceeds limit of '' @ str_of_nat n @ '' bytes''
   | Document_Already_Exists _ \<Rightarrow> ''document already exists''
   | Document_Not_Found d \<Rightarrow> ''document '' @ uuid_str d @ '' not found''
   | Document_Has_Amendments d \<Rightarrow> ''document '' @ uuid_str d @ '' has amendments; delete them first''
   | Ingestion_Job_Not_Found j \<Rightarrow> ''ingestion job '' @ uuid_str j @ '' not found''
   | Ingestion_Job_Conflict j \<Rightarrow> ''ingestion job '' @ uuid_str j @ '' is already queued or running''
   | Extraction_Job_Not_Found j \<Rightarrow> ''extraction job '' @ uuid_str j @ '' not found''
   | Extraction_Job_Conflict j \<Rightarrow> ''extraction job '' @ uuid_str j @ '' is already queued or running''
   | Document_Not_Parsed _ \<Rightarrow> ''document is not parsed; extraction requires a completed ingestion''
   | Change_Report_Job_Not_Found j \<Rightarrow> ''change report job '' @ uuid_str j @ '' not found''
   | Amendment_Mismatch b a \<Rightarrow> ''document '' @ uuid_str a @ '' does not amend document '' @ uuid_str b
   | Prerequisite_Missing d k j \<Rightarrow> ''document '' @ uuid_str d @ '' has no completed '' @ prereq_name k @ '' job''
       @ (case j of None \<Rightarrow> [] | Some i \<Rightarrow> ''; run job '' @ uuid_str i @ '' first'')
   | Review_Item_Not_Found i \<Rightarrow> ''review item '' @ uuid_str i @ '' not found''
   | Review_Item_Already_Resolved i \<Rightarrow> ''review item '' @ uuid_str i @ '' is already resolved''
   | Llm_Error m \<Rightarrow> m
   | Llm_Not_Configured \<Rightarrow> ''LLM client not configured: OPENAI_API_KEY is empty''
   | Llm_Call_Error model cause \<Rightarrow> ''llm call failed model='' @ model @ '': '' @ cause
   | Llm_Output_Error m _ \<Rightarrow> m
   | Authentication_Error m \<Rightarrow> m
   | Authorization_Error m \<Rightarrow> m
   | Auth_Not_Configured m \<Rightarrow> m
   | Jwks_Unavailable m \<Rightarrow> m
   | Rate_Limit_Exceeded s \<Rightarrow> ''rate limit exceeded; retry after '' @ str_of_nat s @ ''s''
   | Value_Error m \<Rightarrow> m
   | Key_Error k \<Rightarrow> py_repr k
   | Index_Error m \<Rightarrow> m
   | Attribute_Error m \<Rightarrow> m
   | File_Not_Found p \<Rightarrow> ''[Errno 2] No such file or directory: '' @ py_repr p
   | Parse_Raised e \<Rightarrow> parse_error_str e
   | Integrity_Error \<Rightarrow> ''integrity error''
   | Data_Error \<Rightarrow> ''data error''
   | Stale_Data \<Rightarrow> ''stale data'')"

text \<open>\<^verbatim>\<open>isinstance(exc, LlmError)\<close> and \<^verbatim>\<open>isinstance(exc, ValueError)\<close>.\<close>

definition is_llm_error :: "exn \<Rightarrow> bool" where
  "is_llm_error e \<longleftrightarrow> (case e of
     Llm_Error _ \<Rightarrow> True | Llm_Not_Configured \<Rightarrow> True | Llm_Call_Error _ _ \<Rightarrow> True
   | Llm_Output_Error _ _ \<Rightarrow> True | _ \<Rightarrow> False)"

definition is_value_error :: "exn \<Rightarrow> bool" where
  "is_value_error e \<longleftrightarrow> (case e of
     Value_Error _ \<Rightarrow> True | Parse_Raised Unicode_Decode \<Rightarrow> True | _ \<Rightarrow> False)"

end
