(* ===== verification/Store.thy ===== *)
theory Store
  imports Errors Jobs
begin

section \<open>The database (app/models, app/repositories)\<close>

text \<open>
  The database is a record with one list of rows per table. Each repository function is
  one definition, in the module order of \<^verbatim>\<open>app/repositories\<close>; what it commits is the
  database it returns. Two components stand for the surroundings: \<open>next_id\<close> supplies the
  fresh identifiers of \<^verbatim>\<open>uuid.uuid4\<close> (collisions excluded), and \<open>clock\<close> is the
  time both the process and the server read. The search vectors of
  \<^verbatim>\<open>document_chunks\<close> are derived columns and live in Search.
\<close>

subsection \<open>Rows\<close>

datatype document_status = Uploaded | Parsed | Parse_Failed

record document =
  doc_id :: uuid
  doc_tenant :: uuid
  doc_filename :: string
  doc_mime :: string
  doc_sha :: string
  doc_amends :: "uuid option"
  doc_status :: document_status
  doc_created :: time
  doc_updated :: time

record document_text =
  txt_document :: uuid
  txt_tenant :: uuid
  txt_text :: string
  txt_page_map :: "page_span list"

record document_chunk =
  ck_id :: uuid
  ck_tenant :: uuid
  ck_document :: uuid
  ck_ordinal :: nat
  ck_text :: string
  ck_start :: nat
  ck_end :: nat
  ck_embedding :: "rat list option"

datatype review_source = Src_Extraction | Src_Impact_Mapping

datatype review_status = Pending | Approved | Edited | Rejected

record review_item =
  ri_id :: uuid
  ri_tenant :: uuid
  ri_source :: review_source
  ri_type :: string
  ri_document :: uuid
  ri_job :: uuid
  ri_payload :: json
  ri_confidence :: rat
  ri_status :: review_status
  ri_corrected :: "json option"
  ri_resolved :: "time option"
  ri_created :: time
  ri_updated :: time

record audit_entry =
  au_id :: uuid
  au_tenant :: uuid
  au_actor :: "string option"
  au_request :: string
  au_action :: string
  au_resource_type :: string
  au_resource :: "uuid option"
  au_detail :: "json option"
  au_created :: time

datatype usage_kind = Use_Ingestion | Use_Extraction | Use_Change_Report | Use_Search

text \<open>A Postgres enum sorts by declaration order.\<close>

fun kind_index :: "usage_kind \<Rightarrow> nat" where
  "kind_index Use_Ingestion = 0"
| "kind_index Use_Extraction = 1"
| "kind_index Use_Change_Report = 2"
| "kind_index Use_Search = 3"

lemma kind_index_inj: "kind_index a = kind_index b \<Longrightarrow> a = b"
  by (cases a; cases b) simp_all

instantiation usage_kind :: linorder
begin

definition less_eq_usage_kind :: "usage_kind \<Rightarrow> usage_kind \<Rightarrow> bool" where
  "less_eq_usage_kind a b \<longleftrightarrow> kind_index a \<le> kind_index b"

definition less_usage_kind :: "usage_kind \<Rightarrow> usage_kind \<Rightarrow> bool" where
  "less_usage_kind a b \<longleftrightarrow> kind_index a < kind_index b"

instance
  by standard (auto simp: less_eq_usage_kind_def less_usage_kind_def intro: kind_index_inj)

end

record usage_record =
  ur_id :: uuid
  ur_tenant :: uuid
  ur_kind :: usage_kind
  ur_job :: "uuid option"
  ur_usage :: llm_usage
  ur_request :: string
  ur_created :: time

record db =
  documents :: "document list"
  texts :: "document_text list"
  chunks :: "document_chunk list"
  ingestion_jobs :: "doc_job list"
  extraction_jobs :: "doc_job list"
  report_jobs :: "report_job list"
  review_items :: "review_item list"
  audit_log :: "audit_entry list"
  usage_log :: "usage_record list"
  next_id :: uuid
  clock :: time

text \<open>The request context variables (app/request_context.py).\<close>

record request_context =
  current_request_id :: string
  current_actor :: "string option"

definition no_request :: request_context where
  "no_request = \<lparr>current_request_id = [], current_actor = None\<rparr>"

subsection \<open>documents.py\<close>

text \<open>
  \<open>create\<close>: a text beyond its column's width, or with a zero byte, is a data error; a taken
  \<open>(tenant_id, sha256)\<close> or a missing parent violates a constraint.
\<close>

definition create_document :: "uuid \<Rightarrow> string \<Rightarrow> string \<Rightarrow> string \<Rightarrow> uuid option \<Rightarrow> db \<Rightarrow> exn + document \<times> db" where
  "create_document tenant filename mime sha amends d =
     (if length filename > 1024 \<or> length mime > 255 \<or> length sha > 64 \<or> has_nul filename then Inl Data_Error
      else if list_ex (\<lambda>r. doc_tenant r = tenant \<and> doc_sha r = sha) (documents d) then Inl Integrity_Error
      else if amends \<noteq> None \<and> the amends \<notin> doc_id ` set (documents d) then Inl Integrity_Error
      else (let r = \<lparr>doc_id = next_id d, doc_tenant = tenant, doc_filename = filename, doc_mime = mime,
                     doc_sha = sha, doc_amends = amends, doc_status = Uploaded,
                     doc_created = clock d, doc_updated = clock d\<rparr>
            in Inr (r, d\<lparr>documents := documents d @ [r], next_id := Suc (next_id d)\<rparr>)))"

definition find_document_by_sha :: "uuid \<Rightarrow> string \<Rightarrow> db \<Rightarrow> document option" where
  "find_document_by_sha tenant sha d =
     List.find (\<lambda>r. doc_tenant r = tenant \<and> doc_sha r = sha) (documents d)"

definition find_document :: "uuid \<Rightarrow> uuid \<Rightarrow> db \<Rightarrow> document option" where
  "find_document tenant i d = List.find (\<lambda>r. doc_id r = i \<and> doc_tenant r = tenant) (documents d)"

definition document_page_key :: "document \<Rightarrow> time \<times> uuid" where
  "document_page_key r = (- doc_created r, doc_id r)"

definition list_page :: "uuid \<Rightarrow> nat \<Rightarrow> nat \<Rightarrow> db \<Rightarrow> document list" where
  "list_page tenant limit offset d =
     take limit (drop offset
       (order_by document_page_key (select_where (\<lambda>r. doc_tenant r = tenant) (documents d))))"

definition count_for_tenant :: "uuid \<Rightarrow> db \<Rightarrow> nat" where
  "count_for_tenant tenant d = length (select_where (\<lambda>r. doc_tenant r = tenant) (documents d))"

definition has_amendments :: "uuid \<Rightarrow> db \<Rightarrow> bool" where
  "has_amendments i d \<longleftrightarrow> list_ex (\<lambda>r. doc_amends r = Some i) (documents d)"

text \<open>An unchanged status issues no update; a row that is gone raises.\<close>

definition set_status :: "uuid \<Rightarrow> document_status \<Rightarrow> db \<Rightarrow> exn + db" where
  "set_status i st d =
     (case List.find (\<lambda>r. doc_id r = i) (documents d) of
        None \<Rightarrow> Inl Stale_Data
      | Some r \<Rightarrow> if doc_status r = st then Inr d
          else Inr (d\<lparr>documents := update_where (\<lambda>r. doc_id r = i)
                 (\<lambda>r. r\<lparr>doc_status := st, doc_updated := clock d\<rparr>) (documents d)\<rparr>))"

text \<open>Every foreign key into \<^verbatim>\<open>documents\<close> restricts the delete.\<close>

definition referenced :: "uuid \<Rightarrow> db \<Rightarrow> bool" where
  "referenced i d \<longleftrightarrow> has_amendments i d
     \<or> list_ex (\<lambda>r. txt_document r = i) (texts d) \<or> list_ex (\<lambda>r. ck_document r = i) (chunks d)
     \<or> list_ex (\<lambda>r. dj_document r = i) (ingestion_jobs d) \<or> list_ex (\<lambda>r. dj_document r = i) (extraction_jobs d)
     \<or> list_ex (\<lambda>r. rj_base r = i \<or> rj_amended r = i) (report_jobs d)
     \<or> list_ex (\<lambda>r. ri_document r = i) (review_items d)"

definition delete_document_row :: "uuid \<Rightarrow> db \<Rightarrow> exn + db" where
  "delete_document_row i d =
     (if referenced i d then Inl Integrity_Error
      else Inr (d\<lparr>documents := delete_where (\<lambda>r. doc_id r = i) (documents d)\<rparr>))"

subsection \<open>document_texts.py, document_chunks.py\<close>

definition find_text :: "uuid \<Rightarrow> db \<Rightarrow> document_text option" where
  "find_text i d = List.find (\<lambda>r. txt_document r = i) (texts d)"

definition with_text :: "uuid \<Rightarrow> uuid \<Rightarrow> string \<Rightarrow> page_span list \<Rightarrow> db \<Rightarrow> db" where
  "with_text tenant i text page_map d =
     d\<lparr>texts := delete_where (\<lambda>r. txt_document r = i) (texts d)
          @ [\<lparr>txt_document = i, txt_tenant = tenant, txt_text = text, txt_page_map = page_map\<rparr>]\<rparr>"

definition replace_text :: "uuid \<Rightarrow> uuid \<Rightarrow> string \<Rightarrow> page_span list \<Rightarrow> db \<Rightarrow> exn + db" where
  "replace_text tenant i text page_map d =
     (if has_nul text then Inl Data_Error else Inr (with_text tenant i text page_map d))"

definition delete_texts :: "uuid \<Rightarrow> db \<Rightarrow> db" where
  "delete_texts i d = d\<lparr>texts := delete_where (\<lambda>r. txt_document r = i) (texts d)\<rparr>"

definition embedding_dimensions :: nat where
  "embedding_dimensions = 1536"

definition count_chunks :: "uuid \<Rightarrow> db \<Rightarrow> nat" where
  "count_chunks i d = length (select_where (\<lambda>r. ck_document r = i) (chunks d))"

fun chunk_rows :: "uuid \<Rightarrow> uuid \<Rightarrow> uuid \<Rightarrow> nat \<Rightarrow> (string \<times> nat \<times> nat) list \<Rightarrow> rat list list \<Rightarrow> document_chunk list" where
  "chunk_rows tenant i ident ordinal ((text, s, e) # cs) (v # vs) =
     \<lparr>ck_id = ident, ck_tenant = tenant, ck_document = i, ck_ordinal = ordinal, ck_text = text,
      ck_start = s, ck_end = e, ck_embedding = Some v\<rparr> # chunk_rows tenant i (Suc ident) (Suc ordinal) cs vs"
| "chunk_rows tenant i ident ordinal _ _ = []"

text \<open>
  The vector column rejects a vector of another dimension, and the text column a zero byte,
  when the rows are flushed.
\<close>

definition replace_with_embeddings :: "uuid \<Rightarrow> uuid \<Rightarrow> (string \<times> nat \<times> nat) list \<Rightarrow> rat list list \<Rightarrow> db \<Rightarrow> exn + db" where
  "replace_with_embeddings tenant i cs vs d =
     (if length cs \<noteq> length vs then Inl (Value_Error ''every chunk needs exactly one embedding vector'')
      else if list_ex (\<lambda>v. length v \<noteq> embedding_dimensions) vs \<or> list_ex (\<lambda>c. has_nul (fst c)) cs then Inl Data_Error
      else Inr (d\<lparr>chunks := delete_where (\<lambda>r. ck_document r = i) (chunks d)
                    @ chunk_rows tenant i (next_id d) 0 cs vs,
                  next_id := next_id d + length cs\<rparr>))"

definition delete_chunks :: "uuid \<Rightarrow> db \<Rightarrow> db" where
  "delete_chunks i d = d\<lparr>chunks := delete_where (\<lambda>r. ck_document r = i) (chunks d)\<rparr>"

subsection \<open>The job tables\<close>

definition create_ingestion_job :: "uuid \<Rightarrow> uuid \<Rightarrow> db \<Rightarrow> doc_job \<times> db" where
  "create_ingestion_job tenant i d =
     (let j = new_doc_job (next_id d) (clock d) tenant i
      in (j, d\<lparr>ingestion_jobs := ingestion_jobs d @ [j], next_id := Suc (next_id d)\<rparr>))"

definition create_extraction_job :: "uuid \<Rightarrow> uuid \<Rightarrow> db \<Rightarrow> doc_job \<times> db" where
  "create_extraction_job tenant i d =
     (let j = new_doc_job (next_id d) (clock d) tenant i
      in (j, d\<lparr>extraction_jobs := extraction_jobs d @ [j], next_id := Suc (next_id d)\<rparr>))"

definition create_report_job :: "uuid \<Rightarrow> uuid \<Rightarrow> uuid \<Rightarrow> db \<Rightarrow> report_job \<times> db" where
  "create_report_job tenant base amended d =
     (let j = new_report_job (next_id d) (clock d) tenant base amended
      in (j, d\<lparr>report_jobs := report_jobs d @ [j], next_id := Suc (next_id d)\<rparr>))"

definition claim_ingestion :: "db \<Rightarrow> doc_job option \<times> db" where
  "claim_ingestion d = (let (j, rows) = claim_next (clock d) {} (ingestion_jobs d) in (j, d\<lparr>ingestion_jobs := rows\<rparr>))"

definition claim_extraction :: "db \<Rightarrow> doc_job option \<times> db" where
  "claim_extraction d = (let (j, rows) = claim_next (clock d) {} (extraction_jobs d) in (j, d\<lparr>extraction_jobs := rows\<rparr>))"

definition claim_report :: "db \<Rightarrow> report_job option \<times> db" where
  "claim_report d = (let (j, rows) = claim_next (clock d) {} (report_jobs d) in (j, d\<lparr>report_jobs := rows\<rparr>))"

text \<open>A result or an error text with a zero byte cannot be stored.\<close>

definition complete_ingestion :: "doc_job \<Rightarrow> json \<Rightarrow> db \<Rightarrow> exn + db" where
  "complete_ingestion j res d = (if json_nul res then Inl Data_Error else case mark_completed (clock d) j res (ingestion_jobs d) of
     None \<Rightarrow> Inl Stale_Data | Some rows \<Rightarrow> Inr (d\<lparr>ingestion_jobs := rows\<rparr>))"

definition fail_ingestion :: "doc_job \<Rightarrow> string \<Rightarrow> db \<Rightarrow> exn + db" where
  "fail_ingestion j e d = (if has_nul (take 1024 e) then Inl Data_Error else case mark_failed (clock d) j e (ingestion_jobs d) of
     None \<Rightarrow> Inl Stale_Data | Some rows \<Rightarrow> Inr (d\<lparr>ingestion_jobs := rows\<rparr>))"

definition complete_extraction :: "doc_job \<Rightarrow> json \<Rightarrow> db \<Rightarrow> exn + db" where
  "complete_extraction j res d = (if json_nul res then Inl Data_Error else case mark_completed (clock d) j res (extraction_jobs d) of
     None \<Rightarrow> Inl Stale_Data | Some rows \<Rightarrow> Inr (d\<lparr>extraction_jobs := rows\<rparr>))"

definition fail_extraction :: "doc_job \<Rightarrow> string \<Rightarrow> db \<Rightarrow> exn + db" where
  "fail_extraction j e d = (if has_nul (take 1024 e) then Inl Data_Error else case mark_failed (clock d) j e (extraction_jobs d) of
     None \<Rightarrow> Inl Stale_Data | Some rows \<Rightarrow> Inr (d\<lparr>extraction_jobs := rows\<rparr>))"

definition complete_report :: "report_job \<Rightarrow> json \<Rightarrow> db \<Rightarrow> exn + db" where
  "complete_report j res d = (if json_nul res then Inl Data_Error else case mark_completed (clock d) j res (report_jobs d) of
     None \<Rightarrow> Inl Stale_Data | Some rows \<Rightarrow> Inr (d\<lparr>report_jobs := rows\<rparr>))"

definition fail_report :: "report_job \<Rightarrow> string \<Rightarrow> db \<Rightarrow> exn + db" where
  "fail_report j e d = (if has_nul (take 1024 e) then Inl Data_Error else case mark_failed (clock d) j e (report_jobs d) of
     None \<Rightarrow> Inl Stale_Data | Some rows \<Rightarrow> Inr (d\<lparr>report_jobs := rows\<rparr>))"

subsection \<open>review_items.py\<close>

fun review_rows :: "uuid \<Rightarrow> review_source \<Rightarrow> uuid \<Rightarrow> uuid \<Rightarrow> time \<Rightarrow> uuid \<Rightarrow> (string \<times> json \<times> rat) list \<Rightarrow> review_item list" where
  "review_rows tenant source i job now ident [] = []"
| "review_rows tenant source i job now ident ((ty, payload, conf) # xs) =
     \<lparr>ri_id = ident, ri_tenant = tenant, ri_source = source, ri_type = ty, ri_document = i, ri_job = job,
      ri_payload = payload, ri_confidence = conf, ri_status = Pending, ri_corrected = None,
      ri_resolved = None, ri_created = now, ri_updated = now\<rparr>
     # review_rows tenant source i job now (Suc ident) xs"

definition create_review_items :: "uuid \<Rightarrow> review_source \<Rightarrow> uuid \<Rightarrow> uuid \<Rightarrow> (string \<times> json \<times> rat) list \<Rightarrow> db
    \<Rightarrow> review_item list \<times> db" where
  "create_review_items tenant source i job xs d =
     (let rows = review_rows tenant source i job (clock d) (next_id d) xs
      in (rows, d\<lparr>review_items := review_items d @ rows, next_id := next_id d + length xs\<rparr>))"

definition find_review_item :: "uuid \<Rightarrow> uuid \<Rightarrow> db \<Rightarrow> review_item option" where
  "find_review_item tenant i d = List.find (\<lambda>r. ri_id r = i \<and> ri_tenant r = tenant) (review_items d)"

definition review_key :: "review_item \<Rightarrow> time \<times> uuid" where
  "review_key r = (ri_created r, ri_id r)"

definition list_review_rows :: "uuid \<Rightarrow> review_status option \<Rightarrow> db \<Rightarrow> review_item list" where
  "list_review_rows tenant st d =
     order_by review_key (select_where (\<lambda>r. ri_tenant r = tenant \<and> (st = None \<or> st = Some (ri_status r))) (review_items d))"

definition resolve_row :: "uuid \<Rightarrow> uuid \<Rightarrow> review_status \<Rightarrow> json option \<Rightarrow> db \<Rightarrow> review_item option \<times> db" where
  "resolve_row tenant i st corrected d =
     (let p = (\<lambda>r. ri_id r = i \<and> ri_tenant r = tenant \<and> ri_status r = Pending);
          f = (\<lambda>r. r\<lparr>ri_status := st, ri_corrected := corrected, ri_resolved := Some (clock d), ri_updated := clock d\<rparr>)
      in (map_option f (List.find p (review_items d)), d\<lparr>review_items := update_where p f (review_items d)\<rparr>))"

definition delete_reviews_for_document :: "uuid \<Rightarrow> db \<Rightarrow> db" where
  "delete_reviews_for_document i d = d\<lparr>review_items := delete_where (\<lambda>r. ri_document r = i) (review_items d)\<rparr>"

definition delete_reviews_for_jobs :: "uuid list \<Rightarrow> db \<Rightarrow> db" where
  "delete_reviews_for_jobs js d =
     (if js = [] then d else d\<lparr>review_items := delete_where (\<lambda>r. ri_job r \<in> set js) (review_items d)\<rparr>)"

subsection \<open>audit_log.py, llm_usage.py\<close>

definition audit_record :: "request_context \<Rightarrow> uuid \<Rightarrow> string \<Rightarrow> string \<Rightarrow> uuid option \<Rightarrow> json option \<Rightarrow> db \<Rightarrow> db" where
  "audit_record ctx tenant action rtype resource detail d =
     d\<lparr>audit_log := audit_log d @ [\<lparr>au_id = next_id d, au_tenant = tenant, au_actor = current_actor ctx,
           au_request = current_request_id ctx, au_action = action, au_resource_type = rtype,
           au_resource = resource, au_detail = detail, au_created = clock d\<rparr>],
       next_id := Suc (next_id d)\<rparr>"

definition audit_key :: "audit_entry \<Rightarrow> time \<times> uuid" where
  "audit_key r = (au_created r, au_id r)"

definition list_audit :: "uuid \<Rightarrow> string option \<Rightarrow> nat \<Rightarrow> db \<Rightarrow> audit_entry list" where
  "list_audit tenant action limit d =
     take limit (order_by audit_key
       (select_where (\<lambda>r. au_tenant r = tenant \<and> (action = None \<or> action = Some (au_action r))) (audit_log d)))"

definition usage_record_call :: "request_context \<Rightarrow> uuid \<Rightarrow> usage_kind \<Rightarrow> uuid option \<Rightarrow> llm_usage \<Rightarrow> db \<Rightarrow> db" where
  "usage_record_call ctx tenant kind job u d =
     d\<lparr>usage_log := usage_log d @ [\<lparr>ur_id = next_id d, ur_tenant = tenant, ur_kind = kind, ur_job = job,
           ur_usage = u, ur_request = current_request_id ctx, ur_created = clock d\<rparr>],
       next_id := Suc (next_id d)\<rparr>"

end
