(* ===== verification/DbInv.thy ===== *)
theory DbInv
  imports Store
begin

section \<open>The database invariant\<close>

text \<open>
  What the constraints of the schema and the services together maintain: primary keys are
  distinct and below the identifier supply, \<open>(tenant, sha256)\<close> is unique, every foreign
  key points at a document of the same tenant, a change report names a document and one
  of its amendments, and the job tables are well formed.
\<close>

definition owned :: "document list \<Rightarrow> uuid \<Rightarrow> uuid \<Rightarrow> bool" where
  "owned ds tenant i \<longleftrightarrow> (\<exists>r \<in> set ds. doc_id r = i \<and> doc_tenant r = tenant)"

definition docs_ok :: "document list \<Rightarrow> bool" where
  "docs_ok ds \<longleftrightarrow> distinct (map doc_id ds) \<and> distinct (map (\<lambda>r. (doc_tenant r, doc_sha r)) ds)
     \<and> (\<forall>r \<in> set ds. \<forall>p. doc_amends r = Some p \<longrightarrow> owned ds (doc_tenant r) p)"

definition texts_ok :: "document list \<Rightarrow> document_text list \<Rightarrow> bool" where
  "texts_ok ds ts \<longleftrightarrow> distinct (map txt_document ts) \<and> (\<forall>t \<in> set ts. owned ds (txt_tenant t) (txt_document t))"

definition chunks_ok :: "document list \<Rightarrow> document_chunk list \<Rightarrow> bool" where
  "chunks_ok ds cs \<longleftrightarrow> distinct (map ck_id cs) \<and> (\<forall>c \<in> set cs. owned ds (ck_tenant c) (ck_document c))"

definition jobs_ok :: "document list \<Rightarrow> doc_job list \<Rightarrow> bool" where
  "jobs_ok ds js \<longleftrightarrow> table_ok js \<and> (\<forall>j \<in> set js. owned ds (job_tenant j) (dj_document j))"

text \<open>A report's amended document amends its base, both of the report's tenant.\<close>

definition amends :: "document list \<Rightarrow> uuid \<Rightarrow> uuid \<Rightarrow> uuid \<Rightarrow> bool" where
  "amends ds tenant base amended \<longleftrightarrow>
     (\<exists>r \<in> set ds. doc_id r = amended \<and> doc_tenant r = tenant \<and> doc_amends r = Some base)"

definition reports_ok :: "document list \<Rightarrow> report_job list \<Rightarrow> bool" where
  "reports_ok ds js \<longleftrightarrow> table_ok js \<and> (\<forall>j \<in> set js. amends ds (job_tenant j) (rj_base j) (rj_amended j))"

definition reviews_ok :: "document list \<Rightarrow> review_item list \<Rightarrow> bool" where
  "reviews_ok ds rs \<longleftrightarrow> distinct (map ri_id rs) \<and> (\<forall>r \<in> set rs. owned ds (ri_tenant r) (ri_document r))"

definition ids_ok :: "db \<Rightarrow> bool" where
  "ids_ok d \<longleftrightarrow> (\<forall>i \<in> doc_id ` set (documents d) \<union> ck_id ` set (chunks d) \<union> job_id ` set (ingestion_jobs d)
     \<union> job_id ` set (extraction_jobs d) \<union> job_id ` set (report_jobs d) \<union> ri_id ` set (review_items d). i < next_id d)"

definition db_ok :: "db \<Rightarrow> bool" where
  "db_ok d \<longleftrightarrow> docs_ok (documents d) \<and> texts_ok (documents d) (texts d) \<and> chunks_ok (documents d) (chunks d)
     \<and> jobs_ok (documents d) (ingestion_jobs d) \<and> jobs_ok (documents d) (extraction_jobs d)
     \<and> reports_ok (documents d) (report_jobs d) \<and> reviews_ok (documents d) (review_items d) \<and> ids_ok d"

definition empty_db :: db where
  "empty_db = \<lparr>documents = [], texts = [], chunks = [], ingestion_jobs = [], extraction_jobs = [],
     report_jobs = [], review_items = [], audit_log = [], usage_log = [], next_id = 0, clock = 0\<rparr>"

named_theorems table_oks \<open>the table invariants, unfolded\<close>

lemmas [table_oks] = docs_ok_def texts_ok_def chunks_ok_def jobs_ok_def reports_ok_def reviews_ok_def

lemma db_ok_empty: "db_ok empty_db"
  by (simp add: db_ok_def empty_db_def table_oks ids_ok_def table_ok_def)

subsection \<open>Documents\<close>

lemma owned_mono: "owned ds t i \<Longrightarrow> set ds \<subseteq> set ds' \<Longrightarrow> owned ds' t i"
  by (auto simp: owned_def)

lemma amends_mono: "amends ds t b a \<Longrightarrow> set ds \<subseteq> set ds' \<Longrightarrow> amends ds' t b a"
  unfolding amends_def by blast

lemma tables_mono:
  assumes "set ds \<subseteq> set ds'"
  shows "texts_ok ds ts \<Longrightarrow> texts_ok ds' ts" "chunks_ok ds cs \<Longrightarrow> chunks_ok ds' cs"
    "jobs_ok ds js \<Longrightarrow> jobs_ok ds' js" "reports_ok ds rs \<Longrightarrow> reports_ok ds' rs"
    "reviews_ok ds vs \<Longrightarrow> reviews_ok ds' vs"
  using assms by (auto simp: table_oks intro: owned_mono amends_mono)

lemma find_document_Some:
  "find_document t i d = Some r \<Longrightarrow> r \<in> set (documents d) \<and> doc_id r = i \<and> doc_tenant r = t"
  by (auto simp: find_document_def dest: find_Some_mem)

lemma find_document_owned: "find_document t i d = Some r \<Longrightarrow> owned (documents d) t i"
  by (auto simp: owned_def dest: find_document_Some)

lemma find_document_None: "find_document t i d = None \<longleftrightarrow> \<not> owned (documents d) t i"
  by (auto simp: find_document_def owned_def find_None_all)

lemma find_document_complete:
  "db_ok d \<Longrightarrow> r \<in> set (documents d) \<Longrightarrow> find_document (doc_tenant r) (doc_id r) d = Some r"
  unfolding find_document_def
  by (rule find_key_unique[of doc_id]) (auto simp: db_ok_def docs_ok_def)

lemma create_document_ok:
  assumes "db_ok d" "create_document t f m sha am d = Inr (r, d')"
    "\<And>p. am = Some p \<Longrightarrow> owned (documents d) t p"
  shows "db_ok d'" and "documents d' = documents d @ [r]" and "doc_tenant r = t" and "doc_sha r = sha"
    and "doc_amends r = am" and "doc_status r = Uploaded"
    and "\<forall>x \<in> set (documents d). \<not> (doc_tenant x = t \<and> doc_sha x = sha)"
proof -
  let ?r = "\<lparr>doc_id = next_id d, doc_tenant = t, doc_filename = f, doc_mime = m, doc_sha = sha,
      doc_amends = am, doc_status = Uploaded, doc_created = clock d, doc_updated = clock d\<rparr>"
  have e: "r = ?r" "d' = d\<lparr>documents := documents d @ [?r], next_id := Suc (next_id d)\<rparr>"
    "\<not> list_ex (\<lambda>r. doc_tenant r = t \<and> doc_sha r = sha) (documents d)"
    using assms(2) by (auto simp: create_document_def Let_def split: if_splits)
  have fresh: "next_id d \<notin> doc_id ` set (documents d)"
    using assms(1) by (force simp: db_ok_def ids_ok_def)
  have new: "\<forall>x \<in> set (documents d). \<not> (doc_tenant x = t \<and> doc_sha x = sha)"
    using e(3) by (auto simp: list_ex_iff)
  then show "\<forall>x \<in> set (documents d). \<not> (doc_tenant x = t \<and> doc_sha x = sha)" .
  have sub: "set (documents d) \<subseteq> set (documents d @ [?r])" by auto
  have "docs_ok (documents d @ [?r])"
    using assms(1,3) fresh new owned_mono[OF _ sub] by (auto simp: db_ok_def docs_ok_def)
  moreover have "ids_ok d'" using assms(1) unfolding e(2) by (auto simp: db_ok_def ids_ok_def less_Suc_eq)
  ultimately show "db_ok d'" using assms(1) tables_mono[OF sub] by (simp add: db_ok_def e(2))
qed (use assms(2) in \<open>auto simp: create_document_def Let_def split: if_splits\<close>)

text \<open>Two document lists with the same keys, tenants and parents serve the same references.\<close>

definition doc_frame :: "document \<Rightarrow> uuid \<times> uuid \<times> string \<times> uuid option" where
  "doc_frame r = (doc_id r, doc_tenant r, doc_sha r, doc_amends r)"

lemma frame_same:
  assumes "map doc_frame ds' = map doc_frame ds"
  shows "map doc_id ds' = map doc_id ds" "owned ds' = owned ds" "amends ds' = amends ds"
    "docs_ok ds' = docs_ok ds"
proof -
  have s: "doc_frame ` set ds' = doc_frame ` set ds" using assms by (metis set_map)
  have proj: "map (f \<circ> doc_frame) ds' = map (f \<circ> doc_frame) ds" for f :: "_ \<Rightarrow> 'b"
    using assms by (metis map_map)
  show ids: "map doc_id ds' = map doc_id ds" using proj[of fst] by (simp add: doc_frame_def comp_def)
  have keys: "map (\<lambda>r. (doc_tenant r, doc_sha r)) ds' = map (\<lambda>r. (doc_tenant r, doc_sha r)) ds"
    using proj[of "\<lambda>(i, t, h, p). (t, h)"] by (simp add: doc_frame_def comp_def)
  have o: "owned xs t i \<longleftrightarrow> (\<exists>(j, u, h, p) \<in> doc_frame ` set xs. j = i \<and> u = t)" for xs t i
    by (auto simp: owned_def doc_frame_def)
  show own: "owned ds' = owned ds" by (simp add: fun_eq_iff o s)
  have a: "amends xs t b i \<longleftrightarrow> (\<exists>(j, u, h, p) \<in> doc_frame ` set xs. j = i \<and> u = t \<and> p = Some b)" for xs t b i
    by (auto simp: amends_def doc_frame_def)
  show "amends ds' = amends ds" by (simp add: fun_eq_iff a s)
  have refs: "(\<forall>r \<in> set xs. \<forall>p. doc_amends r = Some p \<longrightarrow> owned ds (doc_tenant r) p) \<longleftrightarrow>
      (\<forall>x \<in> doc_frame ` set xs. \<forall>p. snd (snd (snd x)) = Some p \<longrightarrow> owned ds (fst (snd x)) p)" for xs
    by (simp add: doc_frame_def)
  show "docs_ok ds' = docs_ok ds" unfolding docs_ok_def ids keys own refs s ..
qed

lemma set_status_ok:
  assumes "db_ok d" "set_status i st d = Inr d'"
  shows "db_ok d'"
proof -
  let ?ds = "update_where (\<lambda>r. doc_id r = i) (\<lambda>r. r\<lparr>doc_status := st, doc_updated := clock d\<rparr>) (documents d)"
  have f: "map doc_frame ?ds = map doc_frame (documents d)"
    by (rule map_update_where_key) (simp add: doc_frame_def)
  have "d' = d \<or> d' = d\<lparr>documents := ?ds\<rparr>"
    using assms(2) by (auto simp: set_status_def split: option.splits if_splits)
  moreover have "db_ok (d\<lparr>documents := ?ds\<rparr>)"
  proof -
    have "doc_id ` set ?ds = doc_id ` set (documents d)" using frame_same(1)[OF f] by (metis set_map)
    then show ?thesis using assms(1) frame_same[OF f]
      by (simp add: db_ok_def table_oks ids_ok_def)
  qed
  ultimately show ?thesis using assms(1) by auto
qed

subsection \<open>Texts, chunks, review items\<close>

lemma with_text_ok: "db_ok d \<Longrightarrow> owned (documents d) t i \<Longrightarrow> db_ok (with_text t i tx pm d)"
  by (auto simp: db_ok_def ids_ok_def with_text_def texts_ok_def row_simps distinct_delete_where)

lemma find_text_replaced: "find_text i (with_text t i tx pm d) = Some \<lparr>txt_document = i, txt_tenant = t, txt_text = tx, txt_page_map = pm\<rparr>"
proof -
  have "List.find (\<lambda>r. txt_document r = i) (delete_where (\<lambda>r. txt_document r = i) xs @ [y]) = Some y"
    if "txt_document y = i" for xs :: "document_text list" and y
    using that by (induction xs) (auto simp: delete_where_def)
  then show ?thesis by (simp add: find_text_def with_text_def)
qed

lemma chunk_rows_ids: "length cs = length vs \<Longrightarrow> map ck_id (chunk_rows t i n k cs vs) = [n ..< n + length cs]"
proof (induction t i n k cs vs rule: chunk_rows.induct)
  case (1 t i n k "text" s e cs v vs)
  then show ?case by (simp add: upt_conv_Cons del: upt_Suc)
qed simp_all

lemma chunk_rows_owner: "c \<in> set (chunk_rows t i n k cs vs) \<Longrightarrow> ck_tenant c = t \<and> ck_document c = i"
  by (induction t i n k cs vs rule: chunk_rows.induct) auto

lemma chunk_rows_contents:
  "length cs = length vs \<Longrightarrow>
   map (\<lambda>c. (ck_text c, ck_start c, ck_end c)) (chunk_rows t i n k cs vs) = cs
   \<and> map ck_embedding (chunk_rows t i n k cs vs) = map Some vs
   \<and> map ck_ordinal (chunk_rows t i n k cs vs) = [k ..< k + length cs]"
proof (induction t i n k cs vs rule: chunk_rows.induct)
  case (1 t i n k "text" s e cs v vs)
  then show ?case by (simp add: upt_conv_Cons del: upt_Suc)
qed simp_all

lemma replace_chunks_Inr:
  assumes "replace_with_embeddings t i cs vs d = Inr d'"
  shows "length cs = length vs"
    and "d' = d\<lparr>chunks := delete_where (\<lambda>r. ck_document r = i) (chunks d) @ chunk_rows t i (next_id d) 0 cs vs,
                next_id := next_id d + length cs\<rparr>"
  using assms by (auto simp: replace_with_embeddings_def split: if_splits)

lemma distinct_fresh_append:
  assumes "distinct (map k xs)" "\<forall>x \<in> set xs. k x < (n :: nat)" "map k ys = [n ..< m]"
  shows "distinct (map k (xs @ ys))"
proof -
  have "k ` set ys = {n ..< m}" using assms(3) by (metis set_map set_upt)
  then have "k ` set xs \<inter> k ` set ys = {}" using assms(2) by auto
  then show ?thesis using assms(1) by (simp add: assms(3)) (metis assms(3) set_map set_upt)
qed

lemma replace_chunks_ok:
  assumes "db_ok d" "owned (documents d) t i" "replace_with_embeddings t i cs vs d = Inr d'"
  shows "db_ok d'"
proof -
  let ?new = "chunk_rows t i (next_id d) 0 cs vs"
  note d' = replace_chunks_Inr[OF assms(3)]
  have ids: "map ck_id ?new = [next_id d ..< next_id d + length cs]" by (rule chunk_rows_ids[OF d'(1)])
  then have sids: "ck_id ` set ?new = {next_id d ..< next_id d + length cs}" by (metis set_map set_upt)
  have "distinct (map ck_id (delete_where (\<lambda>r. ck_document r = i) (chunks d) @ ?new))"
    by (rule distinct_fresh_append[OF _ _ ids])
      (use assms(1) in \<open>auto simp: db_ok_def chunks_ok_def ids_ok_def row_simps distinct_delete_where\<close>)
  moreover have "\<forall>c \<in> set (delete_where (\<lambda>r. ck_document r = i) (chunks d) @ ?new). owned (documents d) (ck_tenant c) (ck_document c)"
    using assms(1,2) chunk_rows_owner[of _ t i "next_id d" 0 cs vs] by (auto simp: db_ok_def chunks_ok_def row_simps)
  moreover have "ids_ok d'"
    using assms(1) sids unfolding d'(2) by (auto simp: db_ok_def ids_ok_def row_simps trans_less_add1)
  ultimately show ?thesis using assms(1) by (simp add: db_ok_def chunks_ok_def d'(2))
qed

lemma review_rows_ids: "map ri_id (review_rows t s i j now n xs) = [n ..< n + length xs]"
  by (induction t s i j now n xs rule: review_rows.induct) (simp_all add: upt_conv_Cons del: upt_Suc)

lemma review_rows_fields:
  "r \<in> set (review_rows t s i j now n xs) \<Longrightarrow>
     ri_tenant r = t \<and> ri_document r = i \<and> ri_source r = s \<and> ri_job r = j \<and> ri_status r = Pending
     \<and> ri_corrected r = None \<and> (ri_type r, ri_payload r, ri_confidence r) \<in> set xs"
  by (induction t s i j now n xs rule: review_rows.induct) auto

lemma review_rows_items:
  "map (\<lambda>r. (ri_type r, ri_payload r, ri_confidence r)) (review_rows t s i j now n xs) = xs"
  by (induction t s i j now n xs rule: review_rows.induct) auto

lemma create_reviews_ok:
  assumes "db_ok d" "owned (documents d) t i"
  shows "db_ok (snd (create_review_items t s i j xs d))"
proof -
  let ?new = "review_rows t s i j (clock d) (next_id d) xs"
  have ids: "map ri_id ?new = [next_id d ..< next_id d + length xs]" by (rule review_rows_ids)
  then have sids: "ri_id ` set ?new = {next_id d ..< next_id d + length xs}" by (metis set_map set_upt)
  have "distinct (map ri_id (review_items d @ ?new))"
    by (rule distinct_fresh_append[OF _ _ ids]) (use assms(1) in \<open>auto simp: db_ok_def reviews_ok_def ids_ok_def\<close>)
  moreover have "\<forall>r \<in> set (review_items d @ ?new). owned (documents d) (ri_tenant r) (ri_document r)"
    using assms review_rows_fields[of _ t s i j "clock d" "next_id d" xs] by (auto simp: db_ok_def reviews_ok_def)
  moreover have "ids_ok (d\<lparr>review_items := review_items d @ ?new, next_id := next_id d + length xs\<rparr>)"
    using assms(1) sids by (auto simp: db_ok_def ids_ok_def trans_less_add1)
  ultimately show ?thesis using assms(1) by (simp add: db_ok_def reviews_ok_def create_review_items_def Let_def)
qed

lemma resolve_ok:
  assumes "db_ok d"
  shows "db_ok (snd (resolve_row t i st c d))"
proof -
  define f :: "review_item \<Rightarrow> review_item" where "f = (\<lambda>r. r\<lparr>ri_status := st, ri_corrected := c, ri_resolved := Some (clock d), ri_updated := clock d\<rparr>)"
  define rows where "rows = update_where (\<lambda>r. ri_id r = i \<and> ri_tenant r = t \<and> ri_status r = Pending) f (review_items d)"
  have same: "map ri_id rows = map ri_id (review_items d)"
    unfolding rows_def by (rule map_update_where_key) (simp add: f_def)
  then have s: "ri_id ` set rows = ri_id ` set (review_items d)" by (metis set_map)
  have "\<forall>r \<in> set rows. owned (documents d) (ri_tenant r) (ri_document r)"
    using assms by (auto simp: rows_def row_simps f_def db_ok_def reviews_ok_def)
  then have "db_ok (d\<lparr>review_items := rows\<rparr>)" using assms same s by (simp add: db_ok_def reviews_ok_def ids_ok_def)
  then show ?thesis by (simp add: resolve_row_def Let_def rows_def f_def)
qed

subsection \<open>Jobs\<close>

lemma table_ok_append:
  "table_ok js \<Longrightarrow> job_id j \<notin> job_id ` set js \<Longrightarrow> row_inv j \<Longrightarrow> table_ok (js @ [j])"
  by (auto simp: table_ok_def)

lemma row_inv_new: "row_inv (new_doc_job i now t x)" "row_inv (new_report_job i now t x y)"
  by (simp_all add: row_inv_def new_doc_job_def new_report_job_def)

lemma new_job_fields [simp]:
  "job_id (new_doc_job i now t x) = i" "job_tenant (new_doc_job i now t x) = t" "dj_document (new_doc_job i now t x) = x"
  "job_id (new_report_job i now t x y) = i" "job_tenant (new_report_job i now t x y) = t"
  "rj_base (new_report_job i now t x y) = x" "rj_amended (new_report_job i now t x y) = y"
  "job_status (new_doc_job i now t x) = Queued" "job_status (new_report_job i now t x y) = Queued"
  by (simp_all add: new_doc_job_def new_report_job_def)

lemma fresh_job_id:
  assumes "db_ok d"
  shows "next_id d \<notin> job_id ` set (ingestion_jobs d)" "next_id d \<notin> job_id ` set (extraction_jobs d)"
    "next_id d \<notin> job_id ` set (report_jobs d)"
  using assms by (force simp: db_ok_def ids_ok_def)+

lemma create_jobs_ok:
  assumes "db_ok d"
  shows "owned (documents d) t i \<Longrightarrow> db_ok (snd (create_ingestion_job t i d))"
    and "owned (documents d) t i \<Longrightarrow> db_ok (snd (create_extraction_job t i d))"
    and "amends (documents d) t b a \<Longrightarrow> db_ok (snd (create_report_job t b a d))"
proof -
  note f = fresh_job_id[OF assms]
  have ids: "ids_ok d" using assms by (simp add: db_ok_def)
  show "db_ok (snd (create_ingestion_job t i d))" if "owned (documents d) t i"
    using assms that f ids
    by (auto simp: db_ok_def create_ingestion_job_def Let_def jobs_ok_def ids_ok_def less_Suc_eq
        intro!: table_ok_append row_inv_new)
  show "db_ok (snd (create_extraction_job t i d))" if "owned (documents d) t i"
    using assms that f ids
    by (auto simp: db_ok_def create_extraction_job_def Let_def jobs_ok_def ids_ok_def less_Suc_eq
        intro!: table_ok_append row_inv_new)
  show "db_ok (snd (create_report_job t b a d))" if "amends (documents d) t b a"
    using assms that f ids
    by (auto simp: db_ok_def create_report_job_def Let_def reports_ok_def ids_ok_def less_Suc_eq
        intro!: table_ok_append row_inv_new)
qed

lemma jobs_ok_rows:
  "jobs_ok ds js \<Longrightarrow> table_ok js' \<Longrightarrow>
   (\<forall>j' \<in> set js'. \<exists>j \<in> set js. job_tenant j' = job_tenant j \<and> dj_document j' = dj_document j) \<Longrightarrow> jobs_ok ds js'"
  by (fastforce simp: jobs_ok_def)

lemma reports_ok_rows:
  "reports_ok ds js \<Longrightarrow> table_ok js' \<Longrightarrow>
   (\<forall>j' \<in> set js'. \<exists>j \<in> set js. job_tenant j' = job_tenant j \<and> rj_base j' = rj_base j \<and> rj_amended j' = rj_amended j)
   \<Longrightarrow> reports_ok ds js'"
  by (fastforce simp: reports_ok_def)

text \<open>
  What a claim on a job table gives the worker: a row of the table, charged one more
  attempt, running or failed by the cap; nothing outside the table changes.
\<close>

lemma claim_table:
  assumes "table_ok rows" "claim_next now {} rows = (r, rows')"
  shows "table_ok rows'" and "map job_id rows' = map job_id rows"
    and "\<forall>x' \<in> set rows'. \<exists>x \<in> set rows. x' = x \<or> x' = claim_row now x"
    and "r = None \<Longrightarrow> rows' = rows"
    and "r = Some j \<Longrightarrow> pending_claims rows' < pending_claims rows \<and> j \<in> set rows'
        \<and> job_status j \<in> {Running, Failed}"
proof -
  show "table_ok rows'" by (rule table_ok_claim[OF assms])
  show "map job_id rows' = map job_id rows" by (rule claim_next_keeps_ids[OF assms(2)])
  show "\<forall>x' \<in> set rows'. \<exists>x \<in> set rows. x' = x \<or> x' = claim_row now x"
    using assms(2) by (auto simp: claim_next_def row_simps split: option.splits)
  show "rows' = rows" if "r = None" using assms(2) claim_next_None[of now "{}" rows rows'] that by simp
  assume r: "r = Some j"
  then obtain i where i: "i \<in> set rows" "j = claim_row now i"
      "rows' = update_where (\<lambda>r. job_id r = job_id i) (claim_row now) rows"
    using claim_next_Some assms(2) by metis
  then show "pending_claims rows' < pending_claims rows \<and> j \<in> set rows' \<and> job_status j \<in> {Running, Failed}"
    using claim_uses_one[OF assms(1)] assms(2) r by (auto simp: row_simps claim_row_status)
qed

lemma claim_ingestion_ok:
  assumes "db_ok d" "claim_ingestion d = (r, d')"
  shows "db_ok d'" and "d' = d\<lparr>ingestion_jobs := ingestion_jobs d'\<rparr>" and "r = None \<Longrightarrow> d' = d"
    and "r = Some j \<Longrightarrow> pending_claims (ingestion_jobs d') < pending_claims (ingestion_jobs d)
        \<and> j \<in> set (ingestion_jobs d') \<and> job_status j \<in> {Running, Failed}"
proof -
  obtain rows where c: "claim_next (clock d) {} (ingestion_jobs d) = (r, rows)" and d': "d' = d\<lparr>ingestion_jobs := rows\<rparr>"
    using assms(2) by (auto simp: claim_ingestion_def Let_def split: prod.splits)
  have t: "table_ok (ingestion_jobs d)" using assms(1) by (simp add: db_ok_def jobs_ok_def)
  note ct = claim_table[OF t c]
  have "jobs_ok (documents d) rows"
    by (rule jobs_ok_rows[of _ "ingestion_jobs d"]) (use assms(1) ct in \<open>fastforce simp: db_ok_def\<close>)+
  moreover have "job_id ` set rows = job_id ` set (ingestion_jobs d)" using ct(2) by (metis set_map)
  ultimately show "db_ok d'" using assms(1) by (simp add: db_ok_def d' ids_ok_def)
  show "d' = d\<lparr>ingestion_jobs := ingestion_jobs d'\<rparr>" "r = None \<Longrightarrow> d' = d" using ct(4) by (auto simp: d')
  show "pending_claims (ingestion_jobs d') < pending_claims (ingestion_jobs d)
        \<and> j \<in> set (ingestion_jobs d') \<and> job_status j \<in> {Running, Failed}" if "r = Some j"
    using ct(5)[OF that] by (simp add: d')
qed

lemma claim_extraction_ok:
  assumes "db_ok d" "claim_extraction d = (r, d')"
  shows "db_ok d'" and "d' = d\<lparr>extraction_jobs := extraction_jobs d'\<rparr>" and "r = None \<Longrightarrow> d' = d"
    and "r = Some j \<Longrightarrow> pending_claims (extraction_jobs d') < pending_claims (extraction_jobs d)
        \<and> j \<in> set (extraction_jobs d') \<and> job_status j \<in> {Running, Failed}"
proof -
  obtain rows where c: "claim_next (clock d) {} (extraction_jobs d) = (r, rows)" and d': "d' = d\<lparr>extraction_jobs := rows\<rparr>"
    using assms(2) by (auto simp: claim_extraction_def Let_def split: prod.splits)
  have t: "table_ok (extraction_jobs d)" using assms(1) by (simp add: db_ok_def jobs_ok_def)
  note ct = claim_table[OF t c]
  have "jobs_ok (documents d) rows"
    by (rule jobs_ok_rows[of _ "extraction_jobs d"]) (use assms(1) ct in \<open>fastforce simp: db_ok_def\<close>)+
  moreover have "job_id ` set rows = job_id ` set (extraction_jobs d)" using ct(2) by (metis set_map)
  ultimately show "db_ok d'" using assms(1) by (simp add: db_ok_def d' ids_ok_def)
  show "d' = d\<lparr>extraction_jobs := extraction_jobs d'\<rparr>" "r = None \<Longrightarrow> d' = d" using ct(4) by (auto simp: d')
  show "pending_claims (extraction_jobs d') < pending_claims (extraction_jobs d)
        \<and> j \<in> set (extraction_jobs d') \<and> job_status j \<in> {Running, Failed}" if "r = Some j"
    using ct(5)[OF that] by (simp add: d')
qed

lemma claim_report_ok:
  assumes "db_ok d" "claim_report d = (r, d')"
  shows "db_ok d'" and "d' = d\<lparr>report_jobs := report_jobs d'\<rparr>" and "r = None \<Longrightarrow> d' = d"
    and "r = Some j \<Longrightarrow> pending_claims (report_jobs d') < pending_claims (report_jobs d)
        \<and> j \<in> set (report_jobs d') \<and> job_status j \<in> {Running, Failed}"
proof -
  obtain rows where c: "claim_next (clock d) {} (report_jobs d) = (r, rows)" and d': "d' = d\<lparr>report_jobs := rows\<rparr>"
    using assms(2) by (auto simp: claim_report_def Let_def split: prod.splits)
  have t: "table_ok (report_jobs d)" using assms(1) by (simp add: db_ok_def reports_ok_def)
  note ct = claim_table[OF t c]
  have "reports_ok (documents d) rows"
    by (rule reports_ok_rows[of _ "report_jobs d"]) (use assms(1) ct in \<open>fastforce simp: db_ok_def\<close>)+
  moreover have "job_id ` set rows = job_id ` set (report_jobs d)" using ct(2) by (metis set_map)
  ultimately show "db_ok d'" using assms(1) by (simp add: db_ok_def d' ids_ok_def)
  show "d' = d\<lparr>report_jobs := report_jobs d'\<rparr>" "r = None \<Longrightarrow> d' = d" using ct(4) by (auto simp: d')
  show "pending_claims (report_jobs d') < pending_claims (report_jobs d)
        \<and> j \<in> set (report_jobs d') \<and> job_status j \<in> {Running, Failed}" if "r = Some j"
    using ct(5)[OF that] by (simp add: d')
qed

lemma image_terminal: "job_id ` set (update_where p (set_terminal now st res err) rows) = job_id ` set rows"
proof -
  have "map job_id (update_where p (set_terminal now st res err) rows) = map job_id rows"
    by (rule map_update_where_key) simp
  then show ?thesis by (metis set_map)
qed

definition finish_rows :: "time \<Rightarrow> 'm job_scheme \<Rightarrow> job_state \<Rightarrow> json option \<Rightarrow> string option \<Rightarrow> 'm job_scheme list \<Rightarrow> 'm job_scheme list" where
  "finish_rows now j st res err rows = update_where (\<lambda>r. job_id r = job_id j) (set_terminal now st res err) rows"

lemma finish_ok:
  assumes "db_ok d" "job_status j = Running" "st \<in> {Completed, Failed}"
  shows "j \<in> set (ingestion_jobs d) \<Longrightarrow> db_ok (d\<lparr>ingestion_jobs := finish_rows now j st res err (ingestion_jobs d)\<rparr>)"
    and "j \<in> set (extraction_jobs d) \<Longrightarrow> db_ok (d\<lparr>extraction_jobs := finish_rows now j st res err (extraction_jobs d)\<rparr>)"
  using assms table_ok_terminal[of _ j st now res err] image_terminal[of _ now st res err]
  by (auto simp: db_ok_def jobs_ok_def ids_ok_def finish_rows_def row_simps)

lemma finish_report_ok:
  assumes "db_ok d" "job_status j = Running" "st \<in> {Completed, Failed}" "j \<in> set (report_jobs d)"
  shows "db_ok (d\<lparr>report_jobs := finish_rows now j st res err (report_jobs d)\<rparr>)"
  using assms table_ok_terminal[of _ j st now res err] image_terminal[of _ now st res err]
  by (auto simp: db_ok_def reports_ok_def ids_ok_def finish_rows_def row_simps)

lemma finish_ingestion:
  assumes "db_ok d" "j \<in> set (ingestion_jobs d)" "job_status j = Running"
  shows "\<not> json_nul res \<Longrightarrow> complete_ingestion j res d = Inr (d\<lparr>ingestion_jobs := finish_rows (clock d) j Completed (Some res) None (ingestion_jobs d)\<rparr>)"
    and "\<not> has_nul (take 1024 e) \<Longrightarrow> fail_ingestion j e d = Inr (d\<lparr>ingestion_jobs := finish_rows (clock d) j Failed None (Some (take 1024 e)) (ingestion_jobs d)\<rparr>)"
  using assms by (auto simp: complete_ingestion_def fail_ingestion_def finish_rows_def mark_completed_owned
      mark_failed_owned db_ok_def jobs_ok_def table_ok_def)

lemma finish_extraction:
  assumes "db_ok d" "j \<in> set (extraction_jobs d)" "job_status j = Running"
  shows "\<not> json_nul res \<Longrightarrow> complete_extraction j res d = Inr (d\<lparr>extraction_jobs := finish_rows (clock d) j Completed (Some res) None (extraction_jobs d)\<rparr>)"
    and "\<not> has_nul (take 1024 e) \<Longrightarrow> fail_extraction j e d = Inr (d\<lparr>extraction_jobs := finish_rows (clock d) j Failed None (Some (take 1024 e)) (extraction_jobs d)\<rparr>)"
  using assms by (auto simp: complete_extraction_def fail_extraction_def finish_rows_def mark_completed_owned
      mark_failed_owned db_ok_def jobs_ok_def table_ok_def)

lemma finish_report:
  assumes "db_ok d" "j \<in> set (report_jobs d)" "job_status j = Running"
  shows "\<not> json_nul res \<Longrightarrow> complete_report j res d = Inr (d\<lparr>report_jobs := finish_rows (clock d) j Completed (Some res) None (report_jobs d)\<rparr>)"
    and "\<not> has_nul (take 1024 e) \<Longrightarrow> fail_report j e d = Inr (d\<lparr>report_jobs := finish_rows (clock d) j Failed None (Some (take 1024 e)) (report_jobs d)\<rparr>)"
  using assms by (auto simp: complete_report_def fail_report_def finish_rows_def mark_completed_owned
      mark_failed_owned db_ok_def reports_ok_def table_ok_def)

subsection \<open>Log rows\<close>

lemma audit_ok: "db_ok d \<Longrightarrow> db_ok (audit_record ctx t a rt r det d)"
  by (auto simp: db_ok_def ids_ok_def audit_record_def less_Suc_eq)

lemma usage_ok: "db_ok d \<Longrightarrow> db_ok (usage_record_call ctx t k j u d)"
  by (auto simp: db_ok_def ids_ok_def usage_record_call_def less_Suc_eq)

end
