(* ===== verification/Usage.thy ===== *)
theory Usage
  imports DbInv
begin

section \<open>LLM usage accounting and the audit trail (services/usage.py, services/audit.py)\<close>

text \<open>
  The sink every LLM call reports to, and the aggregate reads of
  \<^verbatim>\<open>repositories/llm_usage.py\<close>. Sums are exact.
\<close>

type_synonym usage_sink = "llm_usage \<Rightarrow> db \<Rightarrow> db"

definition sink :: "request_context \<Rightarrow> uuid \<Rightarrow> usage_kind \<Rightarrow> uuid option \<Rightarrow> usage_sink" where
  "sink ctx tenant kind job u d = usage_record_call ctx tenant kind job u d"

definition account_rejected_output :: "exn \<Rightarrow> usage_sink \<Rightarrow> db \<Rightarrow> db" where
  "account_rejected_output e snk d =
     (case e of Llm_Output_Error _ (Some u) \<Rightarrow> snk u d | _ \<Rightarrow> d)"

record spend_row =
  sp_kind :: "usage_kind option"
  sp_job :: "uuid option"
  sp_calls :: nat
  sp_prompt :: nat
  sp_completion :: nat
  sp_cost :: rat
  sp_latency :: nat

record spend_report =
  sr_rows :: "spend_row list"
  sr_total :: spend_row

text \<open>The aggregate expressions \<^verbatim>\<open>_SPEND_TOTALS\<close> over one group; an empty sum is zero.\<close>

definition spend_totals :: "usage_kind option \<Rightarrow> uuid option \<Rightarrow> usage_record list \<Rightarrow> spend_row" where
  "spend_totals kind job rs =
     \<lparr>sp_kind = kind, sp_job = job, sp_calls = length rs,
      sp_prompt = sum_list (map (us_prompt \<circ> ur_usage) rs),
      sp_completion = sum_list (map (us_completion \<circ> ur_usage) rs),
      sp_cost = sum_list (map (us_cost \<circ> ur_usage) rs),
      sp_latency = sum_list (map (us_latency \<circ> ur_usage) rs)\<rparr>"

definition tenant_usage :: "uuid \<Rightarrow> db \<Rightarrow> usage_record list" where
  "tenant_usage tenant d = select_where (\<lambda>r. ur_tenant r = tenant) (usage_log d)"

definition group_rows :: "('r \<Rightarrow> 'k) \<Rightarrow> ('k \<Rightarrow> 'o::linorder) \<Rightarrow> 'r list \<Rightarrow> ('k \<times> 'r list) list" where
  "group_rows key ord rs = map (\<lambda>k. (k, filter (\<lambda>r. key r = k) rs)) (sort_key ord (remdups (map key rs)))"

definition spend_by_job_type :: "uuid \<Rightarrow> db \<Rightarrow> spend_row list" where
  "spend_by_job_type tenant d =
     map (\<lambda>(k, rs). spend_totals (Some k) None rs) (group_rows ur_kind (\<lambda>k. k) (tenant_usage tenant d))"

text \<open>\<^verbatim>\<open>ORDER BY job_type, job_id\<close>: nulls last.\<close>

definition job_group_key :: "usage_kind \<times> uuid option \<Rightarrow> usage_kind \<times> bool \<times> uuid" where
  "job_group_key k = (fst k, snd k = None, case snd k of None \<Rightarrow> 0 | Some j \<Rightarrow> j)"

definition spend_by_job :: "uuid \<Rightarrow> db \<Rightarrow> spend_row list" where
  "spend_by_job tenant d =
     map (\<lambda>((k, j), rs). spend_totals (Some k) j rs)
       (group_rows (\<lambda>r. (ur_kind r, ur_job r)) job_group_key (tenant_usage tenant d))"

definition spend_total :: "uuid \<Rightarrow> db \<Rightarrow> spend_row" where
  "spend_total tenant d = spend_totals None None (tenant_usage tenant d)"

datatype group_by = By_Job_Type | By_Job

definition spend :: "uuid \<Rightarrow> group_by \<Rightarrow> db \<Rightarrow> spend_report" where
  "spend tenant g d =
     \<lparr>sr_rows = (if g = By_Job then spend_by_job tenant d else spend_by_job_type tenant d),
      sr_total = spend_total tenant d\<rparr>"

definition list_audit_entries :: "uuid \<Rightarrow> string option \<Rightarrow> nat \<Rightarrow> db \<Rightarrow> audit_entry list" where
  "list_audit_entries tenant action limit d = list_audit tenant action limit d"

subsection \<open>Groups partition the rows\<close>

lemma sum_groups:
  fixes f :: "'r \<Rightarrow> 'n::comm_monoid_add"
  assumes "distinct ks" "\<forall>r \<in> set rs. key r \<in> set ks"
  shows "sum_list (map (\<lambda>k. sum_list (map f (filter (\<lambda>r. key r = k) rs))) ks) = sum_list (map f rs)"
  using assms(2)
proof (induction rs)
  case (Cons r rs)
  have "sum_list (map (\<lambda>k. sum_list (map f (filter (\<lambda>r. key r = k) (r # rs)))) ks)
      = sum_list (map (\<lambda>k. (if k = key r then f r else 0) + sum_list (map f (filter (\<lambda>r. key r = k) rs))) ks)"
    by (rule arg_cong[of _ _ sum_list], rule map_cong) auto
  also have "\<dots> = sum_list (map (\<lambda>k. if k = key r then f r else 0) ks) + sum_list (map f rs)"
    using Cons by (simp add: sum_list_addf)
  also have "sum_list (map (\<lambda>k. if k = key r then f r else 0) ks) = f r"
    using assms(1) Cons.prems by (simp add: sum_list_distinct_conv_sum_set)
  finally show ?case by simp
qed simp

lemma group_rows_sum:
  fixes f :: "'r \<Rightarrow> 'n::comm_monoid_add"
  shows "sum_list (map (\<lambda>x. sum_list (map f (snd x))) (group_rows key ord rows)) = sum_list (map f rows)"
  using sum_groups[of "sort_key ord (remdups (map key rows))" rows key f]
  by (simp add: group_rows_def comp_def)

lemma spend_totals_columns:
  "sp_calls (spend_totals k j rs) = sum_list (map (\<lambda>_. 1) rs)"
  "sp_prompt (spend_totals k j rs) = sum_list (map (us_prompt \<circ> ur_usage) rs)"
  "sp_completion (spend_totals k j rs) = sum_list (map (us_completion \<circ> ur_usage) rs)"
  "sp_cost (spend_totals k j rs) = sum_list (map (us_cost \<circ> ur_usage) rs)"
  "sp_latency (spend_totals k j rs) = sum_list (map (us_latency \<circ> ur_usage) rs)"
  by (simp_all add: spend_totals_def sum_list_triv)

definition adds_up :: "spend_row list \<Rightarrow> spend_row \<Rightarrow> bool" where
  "adds_up rows tot \<longleftrightarrow>
     sum_list (map sp_calls rows) = sp_calls tot \<and> sum_list (map sp_prompt rows) = sp_prompt tot
     \<and> sum_list (map sp_completion rows) = sp_completion tot \<and> sum_list (map sp_cost rows) = sp_cost tot
     \<and> sum_list (map sp_latency rows) = sp_latency tot"

lemma groups_add_up:
  "adds_up (map (\<lambda>(k, rs). spend_totals (a k) (b k) rs) (group_rows key ord rows)) (spend_totals u v rows)"
  using group_rows_sum[of "\<lambda>_. 1 :: nat" key ord rows] group_rows_sum[of "us_prompt \<circ> ur_usage" key ord rows]
    group_rows_sum[of "us_completion \<circ> ur_usage" key ord rows] group_rows_sum[of "us_cost \<circ> ur_usage" key ord rows]
    group_rows_sum[of "us_latency \<circ> ur_usage" key ord rows]
  by (simp add: adds_up_def spend_totals_columns comp_def case_prod_beta)

subsection \<open>Properties\<close>

text \<open>
  Whichever way spend is grouped, per job kind or per job, the groups add up to the
  total row: calls, both token counts, cost and latency; no call is dropped or counted
  twice, and each group is one key.
\<close>

theorem spend_groups_add_up:
  "adds_up (sr_rows (spend tenant g d)) (sr_total (spend tenant g d))
   \<and> distinct (map (\<lambda>r. (sp_kind r, sp_job r)) (sr_rows (spend tenant g d)))"
proof -
  have e: "(\<lambda>((k, j), rs). spend_totals (Some k) j rs) = (\<lambda>(p, rs). spend_totals (Some (fst p)) (snd p) rs)"
    by auto
  have "distinct (map (\<lambda>r. (sp_kind r, sp_job r)) (spend_by_job tenant d))"
    by (auto simp: spend_by_job_def group_rows_def spend_totals_def comp_def distinct_map inj_on_def)
  moreover have "distinct (map (\<lambda>r. (sp_kind r, sp_job r)) (spend_by_job_type tenant d))"
    by (auto simp: spend_by_job_type_def group_rows_def spend_totals_def comp_def distinct_map inj_on_def)
  ultimately show ?thesis
    by (cases g) (simp_all add: spend_def spend_by_job_def spend_by_job_type_def spend_total_def e groups_add_up)
qed

end
