(* ===== verification/Llm.thy ===== *)
theory Llm
  imports Errors
begin

section \<open>The LLM client (app/llm/client.py, app/llm/cost.py)\<close>

text \<open>
  The OpenAI SDK is not part of the repository: the record \<open>openai\<close> holds what its three
  calls answer, with the milliseconds that passed, as functions of the request and of an
  outside world \<open>'w\<close> they may change. What the repository makes of the answers, and of
  the SDK's exceptions, is modelled below. Prices and costs are exact rationals.
\<close>

subsection \<open>Cost\<close>

record model_pricing =
  input_per_million :: rat
  output_per_million :: rat

definition prices :: "(string \<times> model_pricing) list" where
  "prices =
     [(''gpt-4o-mini'', \<lparr>input_per_million = 15 / 100, output_per_million = 60 / 100\<rparr>),
      (''gpt-4o'', \<lparr>input_per_million = 250 / 100, output_per_million = 10\<rparr>),
      (''text-embedding-3-small'', \<lparr>input_per_million = 2 / 100, output_per_million = 0\<rparr>)]"

definition pricing_for :: "string \<Rightarrow> exn + model_pricing" where
  "pricing_for model = (case map_of prices model of None \<Rightarrow> Inl (Key_Error model) | Some p \<Rightarrow> Inr p)"

definition cost_usd :: "string \<Rightarrow> nat \<Rightarrow> nat \<Rightarrow> exn + rat" where
  "cost_usd model prompt_tokens completion_tokens =
     (case pricing_for model of
        Inl e \<Rightarrow> Inl e
      | Inr p \<Rightarrow> Inr (of_nat prompt_tokens / 1000000 * input_per_million p
                    + of_nat completion_tokens / 1000000 * output_per_million p))"

subsection \<open>What the SDK answers\<close>

type_synonym wire_usage = "(nat \<times> nat) option"

text \<open>
  A structured reply's message: a refusal, content that is not JSON, or JSON content. The
  SDK validates JSON content against the schema the caller gave.
\<close>

datatype sdk_choice = Refusal | Malformed | Content json

datatype parse_reply =
    Parse_Unusable string
  | Parse_Api_Error string
  | Parse_Reply wire_usage "sdk_choice list"

datatype chat_reply =
    Chat_Api_Error string
  | Chat_Reply wire_usage "string option list"

datatype embed_reply =
    Embed_Api_Error string
  | Embed_Reply "nat option" "(int \<times> rat list) list"

record 'w openai =
  sdk_parse :: "string \<Rightarrow> string \<Rightarrow> string \<Rightarrow> string \<Rightarrow> 'w \<Rightarrow> (parse_reply \<times> nat) \<times> 'w"
  sdk_chat :: "string \<Rightarrow> string \<Rightarrow> string \<Rightarrow> 'w \<Rightarrow> (chat_reply \<times> nat) \<times> 'w"
  sdk_embed :: "string \<Rightarrow> string list \<Rightarrow> 'w \<Rightarrow> (embed_reply \<times> nat) \<times> 'w"
  client_model :: string
  client_embedding_model :: string

subsection \<open>The client\<close>

definition make_client :: "string \<Rightarrow> 'w openai \<Rightarrow> exn + 'w openai" where
  "make_client api_key sdk = (if api_key = [] then Inl Llm_Not_Configured else Inr sdk)"

definition usage_of :: "string \<Rightarrow> nat \<Rightarrow> nat \<Rightarrow> rat \<Rightarrow> nat \<Rightarrow> llm_usage" where
  "usage_of model prompt completion cost ms =
     \<lparr>us_model = model, us_prompt = prompt, us_completion = completion, us_cost = cost, us_latency = ms\<rparr>"

text \<open>\<^verbatim>\<open>_usage_cost\<close> and \<^verbatim>\<open>_log_usage\<close>: a reply without usage counts zero tokens.\<close>

definition usage_cost :: "string \<Rightarrow> wire_usage \<Rightarrow> nat \<Rightarrow> exn + llm_usage" where
  "usage_cost model u ms =
     (let prompt = (case u of None \<Rightarrow> 0 | Some (p, _) \<Rightarrow> p);
          completion = (case u of None \<Rightarrow> 0 | Some (_, c) \<Rightarrow> c)
      in case cost_usd model prompt completion of
           Inl e \<Rightarrow> Inl e
         | Inr cost \<Rightarrow> Inr (usage_of model prompt completion cost ms))"

definition list_index_error :: exn where
  "list_index_error = Index_Error ''list index out of range''"

definition complete :: "'w openai \<Rightarrow> string \<Rightarrow> string \<Rightarrow> 'w \<Rightarrow> (exn + string \<times> llm_usage) \<times> 'w" where
  "complete c system user w =
     (case sdk_chat c (client_model c) system user w of ((reply, ms), w') \<Rightarrow>
       (case reply of
          Chat_Api_Error m \<Rightarrow> Inl (Llm_Call_Error (client_model c) m)
        | Chat_Reply u choices \<Rightarrow>
            (case usage_cost (client_model c) u ms of
               Inl e \<Rightarrow> Inl e
             | Inr usage \<Rightarrow>
                 (case choices of
                    [] \<Rightarrow> Inl list_index_error
                  | m # _ \<Rightarrow> Inr (case m of None \<Rightarrow> [] | Some t \<Rightarrow> t, usage))), w'))"

definition rejected_output :: "string \<Rightarrow> string" where
  "rejected_output model = ''model output failed schema validation model='' @ model"

definition choice_valid :: "(json \<Rightarrow> 'a option) \<Rightarrow> sdk_choice \<Rightarrow> bool" where
  "choice_valid validate ch \<longleftrightarrow>
     (case ch of Refusal \<Rightarrow> True | Malformed \<Rightarrow> False | Content v \<Rightarrow> validate v \<noteq> None)"

definition complete_structured :: "'w openai \<Rightarrow> string \<Rightarrow> (json \<Rightarrow> 'a option) \<Rightarrow> string \<Rightarrow> string \<Rightarrow> 'w
    \<Rightarrow> (exn + 'a \<times> llm_usage) \<times> 'w" where
  "complete_structured c schema validate system user w =
     (let model = client_model c in
      case sdk_parse c model schema system user w of ((reply, ms), w') \<Rightarrow>
       (case reply of
          Parse_Unusable _ \<Rightarrow> Inl (Llm_Output_Error (rejected_output model) None)
        | Parse_Api_Error m \<Rightarrow> Inl (Llm_Call_Error model m)
        | Parse_Reply u choices \<Rightarrow>
            if \<not> list_all (choice_valid validate) choices
            then Inl (Llm_Output_Error (rejected_output model) None)
            else (case usage_cost model u ms of
               Inl e \<Rightarrow> Inl e
             | Inr usage \<Rightarrow>
                 (case choices of
                    [] \<Rightarrow> Inl list_index_error
                  | Content v # _ \<Rightarrow> Inr (the (validate v), usage)
                  | _ # _ \<Rightarrow> Inl (Llm_Output_Error (rejected_output model) (Some usage)))), w'))"

definition embed :: "'w openai \<Rightarrow> string list \<Rightarrow> 'w \<Rightarrow> (exn + rat list list \<times> llm_usage) \<times> 'w" where
  "embed c inputs w =
     (let model = client_embedding_model c in
      case sdk_embed c model inputs w of ((reply, ms), w') \<Rightarrow>
       (case reply of
          Embed_Api_Error m \<Rightarrow> Inl (Llm_Call_Error model m)
        | Embed_Reply u items \<Rightarrow>
            (let prompt = (case u of None \<Rightarrow> 0 | Some p \<Rightarrow> p) in
             case cost_usd model prompt 0 of
               Inl e \<Rightarrow> Inl e
             | Inr cost \<Rightarrow> Inr (map snd (sort_key fst items), usage_of model prompt 0 cost ms)), w'))"

text \<open>
  \<^verbatim>\<open>stream_complete\<close> as the list of its events: the deltas yielded until the consumer
  breaks out (right after the \<open>budget\<close>-th, if it does), and how the call ended: with a
  usage line, aborted, or with an exception.
\<close>

datatype stream_event = Delta wire_usage "string option" | Stream_Api_Error string

datatype stream_end = Stream_Logged llm_usage | Stream_Aborted | Stream_Raised exn

fun stream_from :: "string \<Rightarrow> nat \<Rightarrow> nat option \<Rightarrow> nat \<Rightarrow> nat \<Rightarrow> stream_event list \<Rightarrow> string list \<times> stream_end" where
  "stream_from model ms budget p q [] =
     ([], case cost_usd model p q of Inl e \<Rightarrow> Stream_Raised e | Inr cost \<Rightarrow> Stream_Logged (usage_of model p q cost ms))"
| "stream_from model ms budget p q (Stream_Api_Error m # es) = ([], Stream_Raised (Llm_Call_Error model m))"
| "stream_from model ms budget p q (Delta u t # es) =
     (let (p', q') = (case u of None \<Rightarrow> (p, q) | Some pq \<Rightarrow> pq) in
      case t of
        Some (c # cs) \<Rightarrow>
          (if budget = Some 1 then ([c # cs], Stream_Aborted)
           else let (ts, e) = stream_from model ms (map_option (\<lambda>n. n - 1) budget) p' q' es in ((c # cs) # ts, e))
      | _ \<Rightarrow> stream_from model ms budget p' q' es)"

definition stream_complete :: "'w openai \<Rightarrow> nat option \<Rightarrow> nat \<Rightarrow> string + stream_event list \<Rightarrow> string list \<times> stream_end" where
  "stream_complete c budget ms opened =
     (case opened of
        Inl m \<Rightarrow> ([], Stream_Raised (Llm_Call_Error (client_model c) m))
      | Inr events \<Rightarrow> stream_from (client_model c) ms budget 0 0 events)"

subsection \<open>What callers may rely on\<close>

text \<open>Every failure is one of the client's errors, a missing price or an empty reply.\<close>

definition client_error :: "exn \<Rightarrow> bool" where
  "client_error e \<longleftrightarrow> is_llm_error e \<or> (\<exists>m. e = Key_Error m) \<or> e = list_index_error"

lemma cost_usd_error: "cost_usd model p q = Inl e \<Longrightarrow> e = Key_Error model"
  by (auto simp: cost_usd_def pricing_for_def split: option.splits sum.splits)

lemma usage_cost_error: "usage_cost model u ms = Inl e \<Longrightarrow> e = Key_Error model"
  by (auto simp: usage_cost_def Let_def split: sum.splits option.splits dest: cost_usd_error)

lemma complete_structured_error:
  "complete_structured c schema validate system user w = (Inl e, w') \<Longrightarrow> client_error e"
  by (auto simp: complete_structured_def Let_def client_error_def is_llm_error_def list_index_error_def
      split: prod.splits parse_reply.splits sum.splits list.splits sdk_choice.splits if_splits dest: usage_cost_error)

lemma embed_error: "embed c inputs w = (Inl e, w') \<Longrightarrow> client_error e"
  by (auto simp: embed_def Let_def client_error_def is_llm_error_def
      split: prod.splits embed_reply.splits sum.splits option.splits dest!: cost_usd_error)

lemma complete_structured_valid:
  "complete_structured c schema validate system user w = (Inr (x, u), w') \<Longrightarrow> \<exists>v. validate v = Some x"
  by (auto simp: complete_structured_def Let_def choice_valid_def
      split: prod.splits parse_reply.splits sum.splits list.splits sdk_choice.splits if_splits)

end
