(* ===== verification/Spans.thy ===== *)
theory Spans
  imports PyStr
begin

section \<open>Spans into a text: the citation contract\<close>

text \<open>
  Blocks, chunks, clause sections, changes and citations are all spans, end exclusive,
  into one parsed text. What the consumers of a span rely on is the same everywhere: it
  names a non-empty stretch of the text. The locale states that contract; each component
  that produces spans interprets it on its own definitions.
\<close>

definition valid_span :: "'a list \<Rightarrow> nat \<times> nat \<Rightarrow> bool" where
  "valid_span text sp \<longleftrightarrow> fst sp < snd sp \<and> snd sp \<le> length text"

definition cited :: "'a list \<Rightarrow> nat \<times> nat \<Rightarrow> 'a list" where
  "cited text sp = slice text (fst sp) (snd sp)"

locale span_source =
  fixes ok :: "'d \<Rightarrow> bool"
    and source :: "'d \<Rightarrow> string"
    and spans :: "'d \<Rightarrow> (nat \<times> nat) list"
  assumes spans_valid: "ok d \<Longrightarrow> sp \<in> set (spans d) \<Longrightarrow> valid_span (source d) sp"
begin

lemma cited_nonempty: "ok d \<Longrightarrow> sp \<in> set (spans d) \<Longrightarrow> cited (source d) sp \<noteq> []"
  using spans_valid[of d sp] by (auto simp: cited_def valid_span_def slice_nonempty)

lemma cited_length: "ok d \<Longrightarrow> sp \<in> set (spans d) \<Longrightarrow> length (cited (source d) sp) = snd sp - fst sp"
  using spans_valid[of d sp] by (auto simp: cited_def valid_span_def slice_simps)

lemma cited_chars:
  "ok d \<Longrightarrow> sp \<in> set (spans d) \<Longrightarrow> i < snd sp - fst sp \<Longrightarrow>
   cited (source d) sp ! i = source d ! (fst sp + i)"
  using cited_length[of d sp] by (simp add: cited_def slice_nth)

text \<open>A whole list of citations, sliced out of the text and put back at their offsets.\<close>

lemma all_cited_nonempty: "ok d \<Longrightarrow> list_all (\<lambda>t. t \<noteq> []) (map (cited (source d)) (spans d))"
  by (simp add: list_all_iff cited_nonempty)

end

subsection \<open>Chains of windows\<close>

text \<open>
  \<open>window_chain a b ws\<close>: the windows \<open>ws\<close> cover \<open>[a, b)\<close> from left to right without a
  gap; each starts inside, or right at the end of, the one before, and strictly later.
\<close>

fun window_chain :: "nat \<Rightarrow> nat \<Rightarrow> (nat \<times> nat) list \<Rightarrow> bool" where
  "window_chain a b [] \<longleftrightarrow> b \<le> a"
| "window_chain a b [(s, e)] \<longleftrightarrow> s = a \<and> s < e \<and> e = b"
| "window_chain a b ((s, e) # (s', e') # ws) \<longleftrightarrow>
     s = a \<and> s < s' \<and> s' \<le> e \<and> e < b \<and> window_chain s' b ((s', e') # ws)"

lemma window_chain_covers:
  "window_chain a b ws \<Longrightarrow> a \<le> i \<Longrightarrow> i < b \<Longrightarrow> \<exists>(s, e) \<in> set ws. s \<le> i \<and> i < e"
proof (induction a b ws rule: window_chain.induct)
  case (3 a b s e s' e' ws)
  show ?case
  proof (cases "i < e")
    case True
    with 3 show ?thesis by auto
  next
    case False
    with 3 have "\<exists>(s, e) \<in> set ((s', e') # ws). s \<le> i \<and> i < e" by auto
    then show ?thesis by auto
  qed
qed auto

lemma window_chain_bounds:
  "window_chain a b ws \<Longrightarrow> (s, e) \<in> set ws \<Longrightarrow> a \<le> s \<and> s < e \<and> e \<le> b"
  by (induction a b ws arbitrary: s e rule: window_chain.induct) fastforce+

lemma window_chain_Cons:
  "window_chain p b ws \<Longrightarrow> p < b \<Longrightarrow> a < p \<Longrightarrow> p \<le> e \<Longrightarrow> e < b \<Longrightarrow> window_chain a b ((a, e) # ws)"
  by (cases "(p, b, ws)" rule: window_chain.cases) auto

end
