(* ===== verification/Chunking.thy ===== *)
theory Chunking
  imports Parsing Spans
begin

section \<open>The chunker (app/services/chunking.py)\<close>

text \<open>
  One chunk per clause; a clause beyond the cap is cut into windows at block ends, or at
  white space when no block end qualifies, with a small overlap. Positions are natural
  numbers: \<open>stop - overlap\<close> stops at 0, which the \<open>max\<close> with \<open>pos + 1\<close> around it makes
  the same as the negative number Python would compute.
\<close>

definition max_chunk_chars :: nat where
  "max_chunk_chars = 8000"

definition overlap_chars :: nat where
  "overlap_chars = 200"

record chunk =
  chunk_text :: string
  chunk_start :: nat
  chunk_end :: nat

subsection \<open>Snapping a cut to white space\<close>

text \<open>\<^verbatim>\<open>text.rfind(c, lo, hi)\<close>\<close>

definition rfind :: "char \<Rightarrow> string \<Rightarrow> nat \<Rightarrow> nat \<Rightarrow> int" where
  "rfind c text lo hi =
     (case List.find (\<lambda>i. text ! i = c) (rev [lo ..< min hi (length text)]) of
        Some i \<Rightarrow> int i
      | None \<Rightarrow> - 1)"

definition snap_backward :: "string \<Rightarrow> nat \<Rightarrow> nat \<Rightarrow> nat" where
  "snap_backward text limit floor_pos =
     (let cut = max (rfind (CHR '' '') text floor_pos limit) (rfind newline text floor_pos limit)
      in if cut > int floor_pos then nat cut else limit)"

definition snap_forward :: "string \<Rightarrow> nat \<Rightarrow> nat" where
  "snap_forward text pos =
     (let rest = drop pos text in
      if dropWhile is_space rest \<noteq> [] then pos + length (takeWhile is_space rest) else length text)"

lemma rfind_less: "rfind c text lo hi < int hi \<or> rfind c text lo hi = - 1"
  by (auto simp: rfind_def split: option.splits dest!: find_Some_mem)

lemma snap_backward_bounds: "p < limit \<Longrightarrow> p < snap_backward text limit p \<and> snap_backward text limit p \<le> limit"
  using rfind_less[of "CHR '' ''" "text" p limit] rfind_less[of newline "text" p limit]
  by (auto simp: snap_backward_def Let_def)

subsection \<open>Windows\<close>

definition window_stop :: "string \<Rightarrow> nat list \<Rightarrow> nat \<Rightarrow> nat" where
  "window_stop text bounds pos =
     (let budget = pos + max_chunk_chars;
          stops = filter (\<lambda>b. pos < b \<and> b \<le> budget \<and> b - pos \<ge> max_chunk_chars div 2) bounds
      in if stops \<noteq> [] then Max (set stops) else snap_backward text budget pos)"

definition window_next :: "string \<Rightarrow> nat \<Rightarrow> nat \<Rightarrow> nat" where
  "window_next text stop pos =
     (let nxt = snap_forward text (max (stop - overlap_chars) (pos + 1))
      in max (min nxt stop) (pos + 1))"

lemma window_next_greater: "pos < window_next text e pos"
  by (simp add: window_next_def Let_def)

function split_from :: "string \<Rightarrow> nat list \<Rightarrow> nat \<Rightarrow> nat \<Rightarrow> (nat \<times> nat) list" where
  "split_from text bounds stop pos =
     (if pos < stop then
        if stop - pos \<le> max_chunk_chars then [(pos, stop)]
        else (let e = window_stop text bounds pos
              in (pos, e) # split_from text bounds stop (window_next text e pos))
      else [])"
  by pat_completeness auto
termination
  by (relation "measure (\<lambda>(text, bounds, stop, pos). stop - pos)") (auto simp: Let_def intro!: diff_less_mono2 window_next_greater)

declare split_from.simps [simp del]

definition split_range :: "string \<Rightarrow> nat \<Rightarrow> nat \<Rightarrow> nat list \<Rightarrow> (nat \<times> nat) list" where
  "split_range text start stop bounds = split_from text bounds stop start"

subsection \<open>Clauses and chunks\<close>

definition make_chunks :: "string \<Rightarrow> (nat \<times> nat) list \<Rightarrow> chunk list" where
  "make_chunks text windows =
     map (\<lambda>(s, e). \<lparr>chunk_text = slice text s e, chunk_start = s, chunk_end = e\<rparr>) windows"

type_synonym clause_state = "nat option \<times> nat \<times> (nat \<times> nat) list"

definition clause_step :: "clause_state \<Rightarrow> parsed_block \<Rightarrow> clause_state" where
  "clause_step st b = (case st of (start, stop, spans) \<Rightarrow>
     let cut = (blk_kind b = Heading \<and> start \<noteq> None);
         spans' = (if cut then spans @ [(the start, stop)] else spans);
         start' = (if cut \<or> start = None then Some (blk_start b) else start)
     in (start', blk_end b, spans'))"

definition clause_spans :: "parsed_block list \<Rightarrow> (nat \<times> nat) list" where
  "clause_spans blocks =
     (case foldl clause_step (None, 0, []) blocks of (start, stop, spans) \<Rightarrow>
        (case start of Some s \<Rightarrow> spans @ [(s, stop)] | None \<Rightarrow> spans))"

definition chunk_by_clause :: "parsed_document \<Rightarrow> chunk list" where
  "chunk_by_clause doc =
     concat (map (\<lambda>(s, e).
         let bounds = map blk_end (filter (\<lambda>b. s \<le> blk_start b \<and> blk_end b \<le> e) (doc_blocks doc))
         in make_chunks (doc_text doc) (split_range (doc_text doc) s e bounds))
       (clause_spans (doc_blocks doc)))"

definition chunk_document :: "parsed_document \<Rightarrow> chunk list" where
  "chunk_document doc =
     (if doc_text doc = [] \<or> doc_blocks doc = [] then []
      else if list_ex (\<lambda>b. blk_kind b = Heading) (doc_blocks doc) then chunk_by_clause doc
      else make_chunks (doc_text doc) (split_range (doc_text doc) 0 (length (doc_text doc)) []))"

subsection \<open>Windows cover their range\<close>

lemma window_stop_bounds:
  "pos < window_stop text bounds pos \<and> window_stop text bounds pos \<le> pos + max_chunk_chars"
proof -
  let ?stops = "filter (\<lambda>b. pos < b \<and> b \<le> pos + max_chunk_chars \<and> b - pos \<ge> max_chunk_chars div 2) bounds"
  show ?thesis
  proof (cases "?stops = []")
    case True
    have "pos < pos + max_chunk_chars" by (simp add: max_chunk_chars_def)
    with True show ?thesis
      using snap_backward_bounds unfolding window_stop_def Let_def by (simp del: filter_empty_conv)
  next
    case False
    then have "Max (set ?stops) \<in> set ?stops" by (intro Max_in) (simp_all del: filter_empty_conv set_filter)
    with False show ?thesis unfolding window_stop_def Let_def by (auto simp del: filter_empty_conv)
  qed
qed

lemma window_next_le: "pos < e \<Longrightarrow> window_next text e pos \<le> e"
  by (simp add: window_next_def Let_def)

lemma snap_forward_cases: "snap_forward text p = length text \<or> p \<le> snap_forward text p"
  by (simp add: snap_forward_def Let_def)

lemma window_next_overlap: "e \<le> length text \<Longrightarrow> e - window_next text e pos \<le> overlap_chars"
  using snap_forward_cases[of "text" "max (e - overlap_chars) (pos + 1)"]
  unfolding window_next_def Let_def by linarith

text \<open>
  A window is at most \<open>max_chunk_chars\<close> long, and the next one reaches back over at most
  \<open>overlap_chars\<close> of it.
\<close>

lemma split_from_chain: "window_chain pos stop (split_from text bounds stop pos)"
proof (induction "text" bounds stop pos rule: split_from.induct)
  case (1 "text" bounds stop pos)
  let ?e = "window_stop text bounds pos"
  let ?n = "window_next text ?e pos"
  show ?case
  proof (cases "pos < stop \<and> \<not> stop - pos \<le> max_chunk_chars")
    case True
    note b = window_stop_bounds[of pos "text" bounds]
    have "?e < stop" using b True by linarith
    moreover have "?n \<le> ?e" using b by (simp add: window_next_le)
    ultimately have "window_chain pos stop ((pos, ?e) # split_from text bounds stop ?n)"
      using "1"[of ?e] True by (intro window_chain_Cons[of ?n]) (auto simp: window_next_greater)
    with True show ?thesis by (subst split_from.simps) (simp add: Let_def)
  next
    case False
    then show ?thesis by (subst split_from.simps) auto
  qed
qed

lemma split_from_sizes: "(s, e) \<in> set (split_from text bounds stop pos) \<Longrightarrow> e - s \<le> max_chunk_chars"
proof (induction "text" bounds stop pos rule: split_from.induct)
  case (1 "text" bounds stop pos)
  show ?case
  proof (cases "pos < stop \<and> \<not> stop - pos \<le> max_chunk_chars")
    case True
    with "1.prems" have "(s, e) = (pos, window_stop text bounds pos)
        \<or> (s, e) \<in> set (split_from text bounds stop (window_next text (window_stop text bounds pos) pos))"
      by (subst (asm) split_from.simps) (auto simp: Let_def)
    then show ?thesis using "1.IH"[OF _ _ refl] True window_stop_bounds[of pos "text" bounds] by auto
  next
    case False
    with "1.prems" show ?thesis by (subst (asm) split_from.simps) (auto split: if_splits)
  qed
qed

fun overlaps_within :: "nat \<Rightarrow> (nat \<times> nat) list \<Rightarrow> bool" where
  "overlaps_within k ((s, e) # (s', e') # ws) = (e - s' \<le> k \<and> overlaps_within k ((s', e') # ws))"
| "overlaps_within k _ = True"

lemma split_from_hd: "split_from text bounds stop pos = w # ws \<Longrightarrow> fst w = pos"
  by (subst (asm) split_from.simps) (auto simp: Let_def split: if_splits)

lemma split_from_overlap:
  "stop \<le> length text \<Longrightarrow> overlaps_within overlap_chars (split_from text bounds stop pos)"
proof (induction "text" bounds stop pos rule: split_from.induct)
  case (1 "text" bounds stop pos)
  let ?e = "window_stop text bounds pos"
  let ?rest = "split_from text bounds stop (window_next text ?e pos)"
  show ?case
  proof (cases "pos < stop \<and> \<not> stop - pos \<le> max_chunk_chars")
    case True
    have IH: "overlaps_within overlap_chars ?rest" using "1.IH"[OF _ _ refl] True "1.prems" by simp
    have "?e \<le> length text" using window_stop_bounds[of pos "text" bounds] True "1.prems" by linarith
    then have ov: "?e - window_next text ?e pos \<le> overlap_chars" by (rule window_next_overlap)
    have "overlaps_within overlap_chars ((pos, ?e) # ?rest)"
    proof (cases ?rest)
      case (Cons w ws)
      then show ?thesis using IH ov split_from_hd[OF Cons] by (cases w) simp
    qed simp
    with True show ?thesis by (subst split_from.simps) (simp add: Let_def)
  next
    case False
    then show ?thesis by (subst split_from.simps) auto
  qed
qed

subsection \<open>Clauses hold every block\<close>

definition blocks_ordered :: "parsed_block list \<Rightarrow> bool" where
  "blocks_ordered bs \<longleftrightarrow> sorted_wrt (\<lambda>b c. blk_end b \<le> blk_start c) bs \<and> (\<forall>b \<in> set bs. blk_start b \<le> blk_end b)"

definition within :: "parsed_block \<Rightarrow> nat \<times> nat \<Rightarrow> bool" where
  "within b sp \<longleftrightarrow> fst sp \<le> blk_start b \<and> blk_end b \<le> snd sp"

definition clause_inv :: "parsed_block list \<Rightarrow> clause_state \<Rightarrow> bool" where
  "clause_inv seen st \<longleftrightarrow> (case st of (start, stop, spans) \<Rightarrow>
     (seen = [] \<longleftrightarrow> start = None) \<and> (seen = [] \<longrightarrow> spans = []) \<and> (seen \<noteq> [] \<longrightarrow> stop = blk_end (last seen)) \<and>
     (\<forall>b \<in> set seen. blk_end b \<le> stop \<and> (list_ex (within b) spans \<or> (\<exists>s. start = Some s \<and> s \<le> blk_start b))) \<and>
     (\<forall>(s, e) \<in> set spans. s \<le> e \<and> e \<le> stop) \<and> (\<forall>s. start = Some s \<longrightarrow> s \<le> stop))"

lemma clause_inv_step:
  assumes "clause_inv seen st" "blocks_ordered (seen @ [b])"
  shows "clause_inv (seen @ [b]) (clause_step st b)"
proof -
  obtain start stop spans where st: "st = (start, stop, spans)" by (cases st) auto
  have b: "blk_start b \<le> blk_end b" and before: "\<forall>c \<in> set seen. blk_end c \<le> blk_start b"
    using assms(2) by (auto simp: blocks_ordered_def sorted_wrt_append)
  have stop: "seen \<noteq> [] \<Longrightarrow> stop \<le> blk_start b"
    using assms(1) before by (auto simp: clause_inv_def st)
  show ?thesis
  proof (cases "start = None")
    case True
    with assms(1) have e: "seen = []" "spans = []" by (simp_all add: clause_inv_def st)
    have "clause_step st b = (Some (blk_start b), blk_end b, [])"
      using True e by (simp add: clause_step_def st)
    then show ?thesis using e b by (simp add: clause_inv_def)
  next
    case False
    then obtain s where s: "start = Some s" by auto
    with assms(1) have ne: "seen \<noteq> []" by (auto simp: clause_inv_def st)
    have old: "\<forall>c \<in> set seen. blk_end c \<le> stop \<and> (list_ex (within c) spans \<or> s \<le> blk_start c)"
      "\<forall>(u, v) \<in> set spans. u \<le> v \<and> v \<le> stop" "s \<le> stop"
      using assms(1) by (auto simp: clause_inv_def st s)
    show ?thesis
    proof (cases "blk_kind b = Heading")
      case True
      have "\<forall>c \<in> set seen. blk_end c \<le> blk_end b \<and> list_ex (within c) (spans @ [(s, stop)])"
        using old before b by (auto simp: within_def list_ex_iff)
      moreover have "clause_step st b = (Some (blk_start b), blk_end b, spans @ [(s, stop)])"
        using True by (simp add: clause_step_def st s)
      moreover have "\<forall>(u, v) \<in> set (spans @ [(s, stop)]). u \<le> v \<and> v \<le> blk_end b"
        using old stop[OF ne] b by auto
      ultimately show ?thesis using b by (auto simp: clause_inv_def)
    next
      case False
      have "\<forall>c \<in> set seen. blk_end c \<le> blk_end b" using before b by fastforce
      moreover have "clause_step st b = (Some s, blk_end b, spans)"
        using False by (simp add: clause_step_def st s)
      moreover have "\<forall>(u, v) \<in> set spans. u \<le> v \<and> v \<le> blk_end b"
        using old stop[OF ne] b by auto
      ultimately show ?thesis using old stop[OF ne] b by (auto simp: clause_inv_def)
    qed
  qed
qed

lemma blocks_ordered_append: "blocks_ordered (xs @ ys) \<Longrightarrow> blocks_ordered xs"
  by (auto simp: blocks_ordered_def sorted_wrt_append)

lemma clause_inv_fold:
  "blocks_ordered bs \<Longrightarrow> clause_inv bs (foldl clause_step (None, 0, []) bs)"
proof (induction bs rule: rev_induct)
  case Nil
  show ?case by (simp add: clause_inv_def)
next
  case (snoc b bs)
  then show ?case using clause_inv_step blocks_ordered_append by fastforce
qed

lemma clause_spans_hold:
  assumes "blocks_ordered bs"
  shows "b \<in> set bs \<Longrightarrow> list_ex (within b) (clause_spans bs)"
    and "(s, e) \<in> set (clause_spans bs) \<Longrightarrow> s \<le> e \<and> e \<le> blk_end (last bs)"
proof -
  obtain start stop spans where st: "foldl clause_step (None, 0, []) bs = (start, stop, spans)"
    by (cases "foldl clause_step (None, 0, []) bs") auto
  have inv: "clause_inv bs (start, stop, spans)" using clause_inv_fold[OF assms] st by simp
  show "list_ex (within b) (clause_spans bs)" if "b \<in> set bs"
    using inv that by (auto simp: clause_inv_def clause_spans_def st within_def split: option.split)
  show "s \<le> e \<and> e \<le> blk_end (last bs)" if "(s, e) \<in> set (clause_spans bs)"
    using inv that by (cases "bs = []") (auto simp: clause_inv_def clause_spans_def st split: option.splits)
qed

lemma layout_ordered: "blocks_ordered (layout pos es)"
proof (induction pos es rule: layout.induct)
  case (2 pos k t p es)
  then show ?case using layout_starts by (fastforce simp: blocks_ordered_def)
qed (simp add: blocks_ordered_def)

subsection \<open>Chunks are grounded in the text and cover every block\<close>

definition chunk_windows :: "parsed_document \<Rightarrow> (nat \<times> nat) list" where
  "chunk_windows doc = map (\<lambda>c. (chunk_start c, chunk_end c)) (chunk_document doc)"

definition built :: "parsed_document \<Rightarrow> bool" where
  "built doc \<longleftrightarrow> (\<exists>es. doc = build es)"

lemma split_range_chain: "window_chain start stop (split_range text start stop bounds)"
  by (simp add: split_range_def split_from_chain)

lemma chunk_origin:
  assumes "c \<in> set (chunk_document doc)"
  obtains s e bounds where "(chunk_start c, chunk_end c) \<in> set (split_range (doc_text doc) s e bounds)"
    and "chunk_text c = slice (doc_text doc) (chunk_start c) (chunk_end c)"
    and "(s, e) \<in> set (clause_spans (doc_blocks doc)) \<or> (s, e) = (0, length (doc_text doc))"
  using assms that
  by (fastforce simp: chunk_document_def chunk_by_clause_def make_chunks_def Let_def split: if_splits)

lemma clause_spans_built:
  assumes "built doc" "(s, e) \<in> set (clause_spans (doc_blocks doc))"
  shows "e \<le> length (doc_text doc)"
proof -
  obtain es where es: "doc = build es" using assms(1) by (auto simp: built_def)
  have "e \<le> blk_end (last (layout 0 es))"
    using assms(2) clause_spans_hold(2)[OF layout_ordered] by (simp add: es build_blocks)
  moreover have "es \<noteq> []"
    using assms(2) by (auto simp: es build_blocks clause_spans_def)
  ultimately show ?thesis using layout_last[of es 0] by (simp add: es build_text)
qed

lemma chunk_grounded:
  assumes "built doc" "c \<in> set (chunk_document doc)"
  shows "valid_span (doc_text doc) (chunk_start c, chunk_end c)"
    and "chunk_text c = slice (doc_text doc) (chunk_start c) (chunk_end c)"
    and "chunk_end c - chunk_start c \<le> max_chunk_chars"
proof -
  obtain s e bounds where o: "(chunk_start c, chunk_end c) \<in> set (split_range (doc_text doc) s e bounds)"
      "chunk_text c = slice (doc_text doc) (chunk_start c) (chunk_end c)"
      "(s, e) \<in> set (clause_spans (doc_blocks doc)) \<or> (s, e) = (0, length (doc_text doc))"
    using chunk_origin[OF assms(2)] by metis
  have "e \<le> length (doc_text doc)" using o(3) clause_spans_built[OF assms(1)] by auto
  then show "valid_span (doc_text doc) (chunk_start c, chunk_end c)"
    using window_chain_bounds[OF split_range_chain o(1)] by (simp add: valid_span_def)
  show "chunk_text c = slice (doc_text doc) (chunk_start c) (chunk_end c)" by (rule o(2))
  show "chunk_end c - chunk_start c \<le> max_chunk_chars"
    using o(1) split_from_sizes by (auto simp: split_range_def)
qed

interpretation chunker: span_source built doc_text chunk_windows
  by unfold_locales (auto simp: chunk_windows_def intro: chunk_grounded(1))

lemma make_chunks_mem:
  "(s, e) \<in> set ws \<Longrightarrow> \<exists>c \<in> set (make_chunks text ws). chunk_start c = s \<and> chunk_end c = e"
  by (force simp: make_chunks_def)

lemma chunks_cover_blocks:
  assumes "b \<in> set (doc_blocks (build es))" "blk_start b \<le> i" "i < blk_end b"
  shows "\<exists>c \<in> set (chunk_document (build es)). chunk_start c \<le> i \<and> i < chunk_end c"
proof -
  let ?d = "build es"
  have i: "i < length (doc_text ?d)" using build_block_slice(3)[OF assms(1)] assms(3) by simp
  then have ne: "\<not> (doc_text ?d = [] \<or> doc_blocks ?d = [])" using assms(1) by auto
  show ?thesis
  proof (cases "list_ex (\<lambda>b. blk_kind b = Heading) (doc_blocks ?d)")
    case False
    obtain s e where w: "(s, e) \<in> set (split_range (doc_text ?d) 0 (length (doc_text ?d)) [])" "s \<le> i" "i < e"
      using window_chain_covers[OF split_range_chain _ i] by fastforce
    with make_chunks_mem[OF w(1)] show ?thesis using ne False by (auto simp: chunk_document_def)
  next
    case True
    have "blocks_ordered (doc_blocks ?d)" by (simp add: build_blocks layout_ordered)
    from clause_spans_hold(1)[OF this assms(1)] obtain s e
      where sp: "(s, e) \<in> set (clause_spans (doc_blocks ?d))" "s \<le> blk_start b" "blk_end b \<le> e"
      by (auto simp: list_ex_iff within_def)
    let ?bounds = "map blk_end (filter (\<lambda>b. s \<le> blk_start b \<and> blk_end b \<le> e) (doc_blocks ?d))"
    obtain u v where w: "(u, v) \<in> set (split_range (doc_text ?d) s e ?bounds)" "u \<le> i" "i < v"
      using window_chain_covers[OF split_range_chain, of s i e] sp assms(2,3) by fastforce
    obtain c where c: "c \<in> set (make_chunks (doc_text ?d) (split_range (doc_text ?d) s e ?bounds))"
        "chunk_start c = u" "chunk_end c = v"
      using make_chunks_mem[OF w(1)] by blast
    then have "c \<in> set (chunk_by_clause ?d)" unfolding chunk_by_clause_def Let_def using sp(1) by fastforce
    then show ?thesis using ne True c w(2,3) by (auto simp: chunk_document_def)
  qed
qed

subsection \<open>Properties\<close>

text \<open>
  Splitting a range yields windows that cover it from left to right without a gap,
  each strictly later than the one before, none longer than the chunk limit, and two
  neighbours share at most the overlap.
\<close>

theorem split_range_windows:
  assumes "stop \<le> length text"
  shows "window_chain start stop (split_range text start stop bounds)
    \<and> list_all (\<lambda>(s, e). e - s \<le> max_chunk_chars) (split_range text start stop bounds)
    \<and> overlaps_within overlap_chars (split_range text start stop bounds)"
  using split_from_overlap[OF assms] split_from_sizes
  by (auto simp: split_from_chain list_all_iff split_range_def)

theorem split_range_windows_witness:
  "window_chain 1 5 (split_range ''Fees due'' 1 5 [])
   \<and> list_all (\<lambda>(s, e). e - s \<le> max_chunk_chars) (split_range ''Fees due'' 1 5 [])
   \<and> overlaps_within overlap_chars (split_range ''Fees due'' 1 5 [])"
  by (rule split_range_windows) simp

text \<open>
  Every chunk of a built document is grounded: its span is valid in the canonical
  text, its text is that slice, and it is no longer than the chunk limit.
\<close>

theorem chunks_grounded:
  "list_all (\<lambda>c. valid_span (doc_text (build es)) (chunk_start c, chunk_end c)
      \<and> chunk_text c = slice (doc_text (build es)) (chunk_start c) (chunk_end c)
      \<and> chunk_end c - chunk_start c \<le> max_chunk_chars) (chunk_document (build es))"
proof -
  have "built (build es)" by (auto simp: built_def)
  then show ?thesis using chunk_grounded by (simp add: list_all_iff)
qed

text \<open>
  C18: Nothing parsed is lost to retrieval: every character of every block lies in some
  chunk, whether the document is split by clauses or by length.
\<close>

theorem chunks_cover_every_block:
  assumes "b \<in> set (doc_blocks (build es))" "blk_start b \<le> i" "i < blk_end b"
  shows "\<exists>c \<in> set (chunk_document (build es)). chunk_start c \<le> i \<and> i < chunk_end c
    \<and> chunk_text c ! (i - chunk_start c) = doc_text (build es) ! i"
proof -
  obtain c where c: "c \<in> set (chunk_document (build es))" "chunk_start c \<le> i" "i < chunk_end c"
    using chunks_cover_blocks[OF assms] by auto
  have "built (build es)" by (auto simp: built_def)
  note g = chunk_grounded[OF this c(1)]
  have "chunk_text c ! (i - chunk_start c) = doc_text (build es) ! i"
    using g(1) c by (simp add: g(2) slice_nth slice_simps valid_span_def)
  with c show ?thesis by blast
qed

theorem chunks_cover_every_block_witness:
  "\<exists>c \<in> set (chunk_document (build [(Heading, ''1. Fees'', None), (Paragraph, ''Due'', None)])).
     chunk_start c \<le> 9 \<and> 9 < chunk_end c
     \<and> chunk_text c ! (9 - chunk_start c) = doc_text (build [(Heading, ''1. Fees'', None), (Paragraph, ''Due'', None)]) ! 9"
  by (rule chunks_cover_every_block
      [of "\<lparr>blk_kind = Paragraph, blk_text = ''Due'', blk_start = 9, blk_end = 12, blk_page = None\<rparr>"])
    (simp_all add: build_blocks)

end
