(* ===== verification/Documents.thy ===== *)
theory Documents
  imports DbInv
begin

section \<open>Document flows (app/services/documents.py, app/storage/local.py)\<close>

text \<open>
  The file store maps tenant and content hash to bytes, as the layout
  \<^verbatim>\<open>{data_dir}/{tenant_id}/{sha256}\<close> does. The hash and the ZIP directory reader are
  the record \<open>libs\<close>. Other requests may commit while a flow waits: where a flow checks
  first and writes later, \<open>others\<close> is what they did to the database in between.
\<close>

type_synonym files = "uuid \<times> string \<Rightarrow> bytes option"

record libs =
  sha256_hex :: "bytes \<Rightarrow> string"
  zip_names :: "bytes \<Rightarrow> string list option"

subsection \<open>Storage\<close>

definition save_document :: "uuid \<Rightarrow> string \<Rightarrow> bytes \<Rightarrow> files \<Rightarrow> files" where
  "save_document tenant sha content fs = fs((tenant, sha) \<mapsto> content)"

definition document_path :: "string \<Rightarrow> uuid \<Rightarrow> string \<Rightarrow> string" where
  "document_path data_dir tenant sha = join ''/'' [data_dir, uuid_str tenant, sha]"

definition delete_stored :: "uuid \<Rightarrow> string \<Rightarrow> files \<Rightarrow> bool \<times> files" where
  "delete_stored tenant sha fs = (fs (tenant, sha) \<noteq> None, fs((tenant, sha) := None))"

definition read_stored :: "string \<Rightarrow> uuid \<Rightarrow> string \<Rightarrow> files \<Rightarrow> exn + bytes" where
  "read_stored data_dir tenant sha fs =
     (case fs (tenant, sha) of None \<Rightarrow> Inl (File_Not_Found (document_path data_dir tenant sha)) | Some b \<Rightarrow> Inr b)"

subsection \<open>Reading and sniffing an upload\<close>

definition allowed_mime_types :: "string set" where
  "allowed_mime_types = {pdf_mime, docx_mime, text_mime}"

text \<open>The stream is the list of what successive reads return; an empty read ends it.\<close>

fun read_upload :: "nat \<Rightarrow> nat \<Rightarrow> bytes list \<Rightarrow> bytes list \<Rightarrow> exn + bytes" where
  "read_upload max_bytes seen parts [] = Inr (concat parts)"
| "read_upload max_bytes seen parts (c # cs) =
     (if c = [] then Inr (concat parts)
      else if seen + length c > max_bytes then Inl (Upload_Too_Large max_bytes)
      else read_upload max_bytes (seen + length c) (parts @ [c]) cs)"

definition pdf_magic :: bytes where
  "pdf_magic = ''%PDF-''"

definition zip_magic :: bytes where
  "zip_magic = [CHR ''P'', CHR ''K'', CHR 0x03, CHR 0x04]"

definition sniff_mime :: "libs \<Rightarrow> bytes \<Rightarrow> string option" where
  "sniff_mime lib content =
     (if content = [] then None
      else if starts_with pdf_magic content then Some pdf_mime
      else if starts_with zip_magic content then
        (case zip_names lib content of
           None \<Rightarrow> None
         | Some names \<Rightarrow>
             if ''[Content_Types].xml'' \<in> set names \<and> list_ex (starts_with ''word/'') names
             then Some docx_mime else None)
      else if CHR 0x00 \<in> set content then None
      else if utf8_decode content = None then None
      else Some text_mime)"

subsection \<open>Upload\<close>

definition upload_detail :: "document \<Rightarrow> nat \<Rightarrow> json" where
  "upload_detail r n =
     JObj ([(''filename'', JStr (doc_filename r)), (''sha256'', JStr (doc_sha r)),
            (''mime_type'', JStr (doc_mime r)), (''size_bytes'', jnat n)]
         @ (case doc_amends r of None \<Rightarrow> [] | Some p \<Rightarrow> [(''amends_document_id'', juuid p)]))"

definition upload_document :: "libs \<Rightarrow> request_context \<Rightarrow> nat \<Rightarrow> (db \<Rightarrow> db) \<Rightarrow> uuid \<Rightarrow> string option \<Rightarrow> string option
    \<Rightarrow> bytes list \<Rightarrow> uuid option \<Rightarrow> files \<times> db \<Rightarrow> (exn + document) \<times> files \<times> db" where
  "upload_document lib ctx max_bytes others tenant filename content_type reads parent s =
     (case s of (fs, d) \<Rightarrow>
      if content_type \<notin> Some ` allowed_mime_types then (Inl (Mime_Not_Allowed content_type None), fs, d)
      else (case read_upload max_bytes 0 [] reads of
        Inl e \<Rightarrow> (Inl e, fs, d)
      | Inr content \<Rightarrow>
          (let sha = sha256_hex lib content; sniffed = sniff_mime lib content in
           if sniffed \<noteq> content_type then (Inl (Mime_Not_Allowed content_type sniffed), fs, d)
           else if parent \<noteq> None \<and> find_document tenant (the parent) d = None
           then (Inl (Document_Not_Found (the parent)), fs, d)
           else (case find_document_by_sha tenant sha d of
             Some r \<Rightarrow> (Inl (Document_Already_Exists (Some (doc_id r))), fs, d)
           | None \<Rightarrow>
               (let fs' = save_document tenant sha content fs; d' = others d;
                    name = (case filename of None \<Rightarrow> ''untitled'' | Some n \<Rightarrow> if n = [] then ''untitled'' else n)
                in (case create_document tenant name (the content_type) sha parent d' of
                     Inl e \<Rightarrow>
                       (Inl (if e = Integrity_Error
                             then Document_Already_Exists (map_option doc_id (find_document_by_sha tenant sha d'))
                             else e), fs', d')
                   | Inr (r, d'') \<Rightarrow>
                       (Inr r, fs', audit_record ctx (doc_tenant r) ''document.upload'' ''document'' (Some (doc_id r))
                          (Some (upload_detail r (length content))) d'')))))))"

subsection \<open>Reading\<close>

definition get_document :: "uuid \<Rightarrow> uuid \<Rightarrow> db \<Rightarrow> exn + document" where
  "get_document tenant i d =
     (case find_document tenant i d of None \<Rightarrow> Inl (Document_Not_Found i) | Some r \<Rightarrow> Inr r)"

definition default_list_limit :: nat where
  "default_list_limit = 50"

definition max_list_limit :: nat where
  "max_list_limit = 100"

definition list_documents :: "uuid \<Rightarrow> nat \<Rightarrow> nat \<Rightarrow> db \<Rightarrow> document list \<times> nat" where
  "list_documents tenant limit offset d = (list_page tenant limit offset d, count_for_tenant tenant d)"

definition resolve_document_file :: "string \<Rightarrow> uuid \<Rightarrow> uuid \<Rightarrow> files \<times> db \<Rightarrow> exn + document \<times> string" where
  "resolve_document_file data_dir tenant i s =
     (case s of (fs, d) \<Rightarrow>
       (case get_document tenant i d of
          Inl e \<Rightarrow> Inl e
        | Inr r \<Rightarrow> if fs (tenant, doc_sha r) = None then Inl (Document_Not_Found i)
                  else Inr (r, document_path data_dir tenant (doc_sha r))))"

subsection \<open>Delete\<close>

text \<open>The chain deletion before the row itself, in the order of the code; one transaction.\<close>

definition delete_sweep :: "uuid \<Rightarrow> db \<Rightarrow> db" where
  "delete_sweep i d =
     (let (report_ids, reports) = delete_for_amendment i (report_jobs d);
          d1 = d\<lparr>report_jobs := reports\<rparr>;
          d2 = delete_reviews_for_jobs report_ids d1;
          d3 = delete_reviews_for_document i d2;
          d4 = delete_chunks i d3;
          d5 = delete_texts i d4;
          d6 = d5\<lparr>extraction_jobs := delete_jobs_for_document i (extraction_jobs d5)\<rparr>;
          d7 = d6\<lparr>ingestion_jobs := delete_jobs_for_document i (ingestion_jobs d6)\<rparr>
      in d7)"

definition delete_document :: "request_context \<Rightarrow> (db \<Rightarrow> db) \<Rightarrow> uuid \<Rightarrow> uuid \<Rightarrow> files \<times> db \<Rightarrow> (exn + unit) \<times> files \<times> db" where
  "delete_document ctx others tenant i s =
     (case s of (fs, d) \<Rightarrow>
      (case get_document tenant i d of
        Inl e \<Rightarrow> (Inl e, fs, d)
      | Inr r \<Rightarrow>
          if has_amendments i d then (Inl (Document_Has_Amendments i), fs, d)
          else (let d' = others d in
            (case delete_document_row i (delete_sweep i d') of
              Inl e \<Rightarrow> (Inl (if has_amendments i d' then Document_Has_Amendments i else e), fs, d')
            | Inr d'' \<Rightarrow>
                (let (_, fs') = delete_stored tenant (doc_sha r) fs in
                 (Inr (), fs', audit_record ctx tenant ''document.delete'' ''document'' (Some i)
                    (Some (JObj [(''filename'', JStr (doc_filename r)), (''sha256'', JStr (doc_sha r))])) d''))))))"

subsection \<open>Lemmas: reading\<close>

lemma read_upload_spec:
  "[] \<notin> set cs \<Longrightarrow> read_upload m seen parts cs =
     (if seen + length (concat cs) \<le> m \<or> cs = [] then Inr (concat parts @ concat cs) else Inl (Upload_Too_Large m))"
proof (induction m seen parts cs rule: read_upload.induct)
  case (2 m seen parts c cs)
  show ?case
  proof (cases "seen + length c > m")
    case True
    with 2(2) show ?thesis by auto
  next
    case False
    then have "read_upload m seen parts (c # cs) = read_upload m (seen + length c) (parts @ [c]) cs"
      using 2(2) by auto
    with 2(1) 2(2) False show ?thesis by (auto simp: add.assoc)
  qed
qed simp

subsection \<open>Lemmas: delete\<close>

lemma delete_sweep_eq:
  "delete_sweep i d = d\<lparr>
     report_jobs := delete_where (\<lambda>j. rj_amended j = i) (report_jobs d),
     review_items := delete_where (\<lambda>r. ri_document r = i
        \<or> ri_job r \<in> job_id ` {j \<in> set (report_jobs d). rj_amended j = i}) (review_items d),
     chunks := delete_where (\<lambda>r. ck_document r = i) (chunks d),
     texts := delete_where (\<lambda>r. txt_document r = i) (texts d),
     extraction_jobs := delete_where (\<lambda>j. dj_document j = i) (extraction_jobs d),
     ingestion_jobs := delete_where (\<lambda>j. dj_document j = i) (ingestion_jobs d)\<rparr>"
proof -
  show ?thesis
  proof (cases "select_where (\<lambda>j. rj_amended j = i) (report_jobs d) = []")
    case True
    then have e: "{j \<in> set (report_jobs d). rj_amended j = i} = {}" by (simp add: select_where_def filter_empty_conv)
    show ?thesis unfolding e using True
      by (simp add: delete_sweep_def delete_for_amendment_def delete_reviews_for_jobs_def Let_def
          delete_reviews_for_document_def delete_chunks_def delete_texts_def delete_jobs_for_document_def delete_where_def)
  next
    case False
    then show ?thesis
      by (simp add: delete_sweep_def delete_for_amendment_def delete_reviews_for_jobs_def Let_def
          delete_reviews_for_document_def delete_chunks_def delete_texts_def delete_jobs_for_document_def
          delete_where_def select_where_def conj_commute)
  qed
qed

lemma sweep_unreferenced:
  assumes "db_ok d" "\<not> has_amendments i d"
  shows "\<not> referenced i (delete_sweep i d)"
proof -
  have "rj_base j \<noteq> i" if "j \<in> set (report_jobs d)" for j
  proof
    assume "rj_base j = i"
    with assms(1) that have "amends (documents d) (job_tenant j) i (rj_amended j)"
      by (auto simp: db_ok_def reports_ok_def)
    then show False using assms(2) by (auto simp: amends_def has_amendments_def list_ex_iff)
  qed
  then show ?thesis using assms(2)
    by (auto simp: referenced_def delete_sweep_eq has_amendments_def list_ex_iff row_simps)
qed

lemma owned_delete: "owned ds t k \<Longrightarrow> k \<noteq> i \<Longrightarrow> owned (delete_where (\<lambda>r. doc_id r = i) ds) t k"
  by (auto simp: owned_def row_simps)

lemma amends_delete: "amends ds t b a \<Longrightarrow> a \<noteq> i \<Longrightarrow> amends (delete_where (\<lambda>r. doc_id r = i) ds) t b a"
  unfolding amends_def by (auto simp: row_simps)

lemma table_ok_delete: "table_ok js \<Longrightarrow> table_ok (delete_where p js)"
  by (auto simp: table_ok_def row_simps distinct_delete_where)

lemma delete_ok:
  assumes "db_ok d" "\<not> has_amendments i d"
  shows "db_ok ((delete_sweep i d)\<lparr>documents := delete_where (\<lambda>r. doc_id r = i) (documents d)\<rparr>)" (is "db_ok ?d")
proof -
  let ?ds = "delete_where (\<lambda>r. doc_id r = i) (documents d)"
  have parents: "doc_amends r \<noteq> Some i" if "r \<in> set (documents d)" for r
    using assms(2) that by (auto simp: has_amendments_def list_ex_iff)
  note old = assms(1)[unfolded db_ok_def]
  have "docs_ok ?ds"
    using old parents by (auto simp: docs_ok_def row_simps distinct_delete_where intro!: owned_delete)
  moreover have "texts_ok ?ds (texts ?d)" "chunks_ok ?ds (chunks ?d)"
    "jobs_ok ?ds (ingestion_jobs ?d)" "jobs_ok ?ds (extraction_jobs ?d)"
    "reports_ok ?ds (report_jobs ?d)" "reviews_ok ?ds (review_items ?d)"
    using old by (auto simp: table_oks delete_sweep_eq row_simps distinct_delete_where table_ok_delete
        intro!: owned_delete amends_delete)
  moreover have "ids_ok ?d" using old by (auto simp: ids_ok_def delete_sweep_eq row_simps)
  ultimately show ?thesis by (simp add: db_ok_def)
qed

text \<open>A document delete, whatever other requests committed before its transaction.\<close>

lemma delete_document_result:
  assumes "db_ok (others d)"
  shows "delete_document ctx others t i (fs, d) =
    (case find_document t i d of
       None \<Rightarrow> (Inl (Document_Not_Found i), fs, d)
     | Some r \<Rightarrow>
         if has_amendments i d then (Inl (Document_Has_Amendments i), fs, d)
         else if has_amendments i (others d) then (Inl (Document_Has_Amendments i), fs, others d)
         else (Inr (), fs((t, doc_sha r) := None),
           audit_record ctx t ''document.delete'' ''document'' (Some i)
             (Some (JObj [(''filename'', JStr (doc_filename r)), (''sha256'', JStr (doc_sha r))]))
             ((delete_sweep i (others d))\<lparr>documents := delete_where (\<lambda>r. doc_id r = i) (documents (others d))\<rparr>)))"
proof (cases "find_document t i d")
  case None
  then show ?thesis by (simp add: delete_document_def get_document_def)
next
  case (Some r)
  have "has_amendments i (delete_sweep i (others d)) = has_amendments i (others d)"
    by (simp add: has_amendments_def delete_sweep_eq)
  then have "referenced i (delete_sweep i (others d)) = has_amendments i (others d)"
    using sweep_unreferenced[OF assms] by (auto simp: referenced_def)
  moreover have "documents (delete_sweep i (others d)) = documents (others d)" by (simp add: delete_sweep_eq)
  ultimately show ?thesis using Some
    by (simp add: delete_document_def get_document_def Let_def delete_document_row_def delete_stored_def)
qed

subsection \<open>Lemmas: upload\<close>

text \<open>
  Other requests only ever add rows, remove rows or change a document's status: a document
  keeps its tenant and content.
\<close>

definition later :: "db \<Rightarrow> db \<Rightarrow> bool" where
  "later d d' \<longleftrightarrow> db_ok d' \<and> next_id d \<le> next_id d' \<and>
     (\<forall>r \<in> set (documents d). \<forall>r' \<in> set (documents d'). doc_id r' = doc_id r \<longrightarrow>
        doc_tenant r' = doc_tenant r \<and> doc_sha r' = doc_sha r)"

lemma later_refl: "db_ok d \<Longrightarrow> later d d"
  by (auto simp: later_def db_ok_def docs_ok_def dest: distinct_key_eq)

definition upload_valid :: "libs \<Rightarrow> nat \<Rightarrow> uuid \<Rightarrow> string option \<Rightarrow> bytes list \<Rightarrow> uuid option \<Rightarrow> db \<Rightarrow> exn + bytes" where
  "upload_valid lib max_bytes tenant content_type reads parent d =
     (if content_type \<notin> Some ` allowed_mime_types then Inl (Mime_Not_Allowed content_type None)
      else case read_upload max_bytes 0 [] reads of
        Inl e \<Rightarrow> Inl e
      | Inr content \<Rightarrow>
          if sniff_mime lib content \<noteq> content_type then Inl (Mime_Not_Allowed content_type (sniff_mime lib content))
          else if parent \<noteq> None \<and> find_document tenant (the parent) d = None
          then Inl (Document_Not_Found (the parent))
          else case find_document_by_sha tenant (sha256_hex lib content) d of
             Some r \<Rightarrow> Inl (Document_Already_Exists (Some (doc_id r)))
           | None \<Rightarrow> Inr content)"

lemma upload_document_invalid:
  "upload_valid lib mx t ct reads am d = Inl e \<Longrightarrow>
   upload_document lib ctx mx others t fname ct reads am (fs, d) = (Inl e, fs, d)"
  by (auto simp: upload_valid_def upload_document_def Let_def split: if_splits sum.splits option.splits)

lemma upload_document_Inr:
  assumes "upload_document lib ctx mx others t fname ct reads am (fs, d) = (Inr r, fs', d')"
  obtains content d1 where "upload_valid lib mx t ct reads am d = Inr content"
    "fs' = fs((t, sha256_hex lib content) \<mapsto> content)"
    "create_document t (case fname of None \<Rightarrow> ''untitled'' | Some n \<Rightarrow> if n = [] then ''untitled'' else n)
       (the ct) (sha256_hex lib content) am (others d) = Inr (r, d1)"
    "d' = audit_record ctx (doc_tenant r) ''document.upload'' ''document'' (Some (doc_id r))
       (Some (upload_detail r (length content))) d1"
  using assms
  by (auto simp: upload_document_def upload_valid_def Let_def save_document_def
      split: if_splits sum.splits option.splits exn.splits)

lemma upload_valid_parent: "upload_valid lib mx t ct reads (Some p) d = Inr c \<Longrightarrow> owned (documents d) t p"
  by (auto simp: upload_valid_def find_document_None[of t p d, symmetric] split: if_splits sum.splits option.splits
      dest: find_document_owned)

text \<open>Every document has its bytes, stored under the hash of those bytes.\<close>

definition files_ok :: "libs \<Rightarrow> files \<Rightarrow> db \<Rightarrow> bool" where
  "files_ok lib fs d \<longleftrightarrow> (\<forall>r \<in> set (documents d). fs (doc_tenant r, doc_sha r) \<noteq> None)
     \<and> (\<forall>t h b. fs (t, h) = Some b \<longrightarrow> sha256_hex lib b = h)"

subsection \<open>Properties\<close>


definition text_lib :: libs where
  "text_lib = \<lparr>sha256_hex = (\<lambda>b. b), zip_names = (\<lambda>_. None)\<rparr>"


text \<open>
  A rejected upload changes nothing of its own: the first failing check in the order
  declared type, size, sniffed type, parent, duplicate decides the exception, and neither
  the files nor the database are touched.
\<close>

theorem rejected_upload_is_pure:
  assumes "upload_valid lib mx t ct reads parent d = Inl e"
  shows "upload_document lib ctx mx others t fname ct reads parent (fs, d) = (Inl e, fs, d)"
  using assms by (rule upload_document_invalid)

theorem rejected_upload_is_pure_witness:
  "upload_document text_lib no_request 1 (\<lambda>d. d) 5 None (Some text_mime) [''Hi''] None (\<lambda>_. None, empty_db)
   = (Inl (Upload_Too_Large 1), \<lambda>_. None, empty_db)"
  by (rule rejected_upload_is_pure) code_simp

text \<open>
  The stream reader accepts an upload exactly when it fits, returning all its bytes,
  however the transport cuts it into chunks.
\<close>

theorem read_upload_size_cap:
  assumes "[] \<notin> set reads"
  shows "read_upload max_bytes 0 [] reads =
    (if length (concat reads) \<le> max_bytes \<or> reads = [] then Inr (concat reads) else Inl (Upload_Too_Large max_bytes))"
  using read_upload_spec[OF assms, of max_bytes 0 "[]"] by simp

theorem read_upload_size_cap_witness:
  "read_upload 3 0 [] [''ab'', ''cd''] =
    (if length (concat [''ab'', ''cd'']) \<le> 3 \<or> [''ab'', ''cd''] = [] then Inr (concat [''ab'', ''cd''])
     else Inl (Upload_Too_Large 3))"
  by (rule read_upload_size_cap) simp


text \<open>An agreement, an amendment of it, a report between the two and its review item.\<close>

definition sample_document :: "uuid \<Rightarrow> string \<Rightarrow> uuid option \<Rightarrow> document" where
  "sample_document i sha parent = \<lparr>doc_id = i, doc_tenant = 5, doc_filename = ''a.txt'', doc_mime = text_mime,
     doc_sha = sha, doc_amends = parent, doc_status = Parsed, doc_created = 0, doc_updated = 0\<rparr>"

definition sample_db :: db where
  "sample_db = empty_db\<lparr>documents := [sample_document 0 ''h0'' None, sample_document 1 ''h1'' (Some 0)],
     report_jobs := [new_report_job 2 0 5 0 1],
     review_items := review_rows 5 Src_Impact_Mapping 0 2 0 3 [(''impact'', JNull, 1 / 2)], next_id := 4\<rparr>"

lemma sample_db_ok: "db_ok sample_db"
  by (simp add: db_ok_def sample_db_def empty_db_def table_oks ids_ok_def owned_def amends_def sample_document_def
      table_ok_def row_inv_def new_report_job_def)


text \<open>
  A parent deleted between the check and the insert violates the foreign key, and the
  handler, which takes every integrity error for a duplicate, reports one.
\<close>

lemma vanished_parent_reads_as_duplicate:
  "fst (upload_document text_lib no_request 10 (\<lambda>d. d\<lparr>documents := []\<rparr>) 5 None (Some text_mime) [''Hi''] (Some 0)
     (\<lambda>_. None, empty_db\<lparr>documents := [sample_document 0 ''h0'' None], next_id := 1\<rparr>))
   = Inl (Document_Already_Exists None)"
  by code_simp

end
