(* ===== verification/Handlers.thy ===== *)
theory Handlers
  imports Usage Llm Chunking Documents
begin

section \<open>What the worker-side handlers share\<close>

text \<open>
  A handler's state is the outside world of the LLM and the database; it returns the
  exception it lets through or whether a job was claimed. A transaction that raises before
  its commit is rolled back. This theory holds the sequencing of committed writes, the
  effect of usage accounting, the citation invariant between texts and chunks, and the
  contract of a job queue as a locale, proved once and interpreted on each handler.
\<close>

subsection \<open>Committed writes\<close>

text \<open>One committed write after another; the first that raises ends the handler.\<close>

definition commit :: "'w \<Rightarrow> db \<Rightarrow> exn + db \<Rightarrow> (db \<Rightarrow> (exn + bool) \<times> 'w \<times> db) \<Rightarrow> (exn + bool) \<times> 'w \<times> db" where
  "commit w d r f = (case r of Inl e \<Rightarrow> (Inl e, w, d) | Inr d' \<Rightarrow> f d')"

definition claimed :: "'w \<Rightarrow> db \<Rightarrow> (exn + bool) \<times> 'w \<times> db" where
  "claimed w d = (Inr True, w, d)"

lemma commit_simps [simp]: "commit w d (Inl e) f = (Inl e, w, d)" "commit w d (Inr d') f = f d'"
  by (simp_all add: commit_def)

definition status_rows :: "uuid \<Rightarrow> document_status \<Rightarrow> time \<Rightarrow> document list \<Rightarrow> document list" where
  "status_rows i st now ds =
     update_where (\<lambda>r. doc_id r = i) (\<lambda>r. if doc_status r = st then r else r\<lparr>doc_status := st, doc_updated := now\<rparr>) ds"

lemma set_status_owned:
  assumes "docs_ok (documents d)" "owned (documents d) t i"
  shows "set_status i st d = Inr (d\<lparr>documents := status_rows i st (clock d) (documents d)\<rparr>)"
proof -
  obtain r where r: "r \<in> set (documents d)" "doc_id r = i" using assms(2) by (auto simp: owned_def)
  have dist: "distinct (map doc_id (documents d))" using assms(1) by (simp add: docs_ok_def)
  have find: "List.find (\<lambda>r. doc_id r = i) (documents d) = Some r"
    by (rule find_key_unique[OF dist r(1)]) (simp_all add: r(2))
  have same: "x = r" if "x \<in> set (documents d)" "doc_id x = i" for x
    using distinct_key_eq[OF dist that(1) r(1)] that(2) r(2) by simp
  have "status_rows i st (clock d) (documents d) =
      (if doc_status r = st then documents d
       else update_where (\<lambda>r. doc_id r = i) (\<lambda>r. r\<lparr>doc_status := st, doc_updated := clock d\<rparr>) (documents d))"
  proof (cases "doc_status r = st")
    case True
    then show ?thesis by (simp add: status_rows_def update_where_def) (rule map_idI, use same in auto)
  next
    case False
    then have "doc_id x = i \<Longrightarrow> x \<in> set (documents d) \<Longrightarrow> doc_status x \<noteq> st" for x using same by auto
    with False show ?thesis unfolding status_rows_def update_where_def by (simp cong: if_cong)
  qed
  then show ?thesis by (simp add: set_status_def find)
qed

lemma status_rows_frame: "map doc_frame (status_rows i st now ds) = map doc_frame ds"
  unfolding status_rows_def by (rule map_update_where_key) (simp add: doc_frame_def)

lemma status_rows_ok:
  assumes "db_ok d" "owned (documents d) t i"
  shows "db_ok (d\<lparr>documents := status_rows i st (clock d) (documents d)\<rparr>)"
proof -
  have "docs_ok (documents d)" using assms(1) by (simp add: db_ok_def)
  from set_status_ok[OF assms(1) set_status_owned[OF this assms(2)]] show ?thesis .
qed

lemma owned_status_rows [simp]: "owned (status_rows i st now ds) = owned ds"
  by (rule frame_same(2)[OF status_rows_frame])

lemma status_rows_status:
  assumes "r \<in> set (status_rows i st now ds)" "doc_id r = i"
  shows "doc_status r = st"
proof -
  obtain x where "x \<in> set ds"
      "r = (if doc_id x = i then (if doc_status x = st then x else x\<lparr>doc_status := st, doc_updated := now\<rparr>) else x)"
    using assms(1) by (auto simp: status_rows_def row_simps)
  with assms(2) show ?thesis by (cases "doc_id x = i"; cases "doc_status x = st") simp_all
qed

lemma finish_rows_mem: "j \<in> set rows \<Longrightarrow> set_terminal now st res err j \<in> set (finish_rows now j st res err rows)"
  by (force simp: finish_rows_def row_simps)

subsection \<open>Accounting\<close>

text \<open>
  The only effect of reporting usage: rows appended to the usage log, one per report, and
  identifiers used.
\<close>

definition usage_frame :: "db \<Rightarrow> db \<Rightarrow> bool" where
  "usage_frame d d' \<longleftrightarrow> documents d' = documents d \<and> texts d' = texts d \<and> chunks d' = chunks d
     \<and> ingestion_jobs d' = ingestion_jobs d \<and> extraction_jobs d' = extraction_jobs d
     \<and> report_jobs d' = report_jobs d \<and> review_items d' = review_items d \<and> audit_log d' = audit_log d
     \<and> clock d' = clock d \<and> next_id d \<le> next_id d' \<and> (\<exists>us. usage_log d' = usage_log d @ us)"

lemma usage_frame_refl: "usage_frame d d"
  by (simp add: usage_frame_def)

lemma usage_frame_simps:
  assumes "usage_frame d d'"
  shows "documents d' = documents d" "texts d' = texts d" "chunks d' = chunks d"
    "ingestion_jobs d' = ingestion_jobs d" "extraction_jobs d' = extraction_jobs d"
    "report_jobs d' = report_jobs d" "review_items d' = review_items d" "audit_log d' = audit_log d"
    "clock d' = clock d" "next_id d \<le> next_id d'"
  using assms by (simp_all add: usage_frame_def)

lemma usage_frame_trans: "usage_frame a b \<Longrightarrow> usage_frame b c \<Longrightarrow> usage_frame a c"
  unfolding usage_frame_def by (elim conjE exE) (intro conjI exI, simp_all)

definition logs :: "usage_sink \<Rightarrow> bool" where
  "logs snk \<longleftrightarrow> (\<forall>u d. usage_frame d (snk u d) \<and> length (usage_log (snk u d)) = Suc (length (usage_log d)))"

lemma logs_sink: "logs (sink ctx t k j)"
  by (simp add: logs_def usage_frame_def sink_def usage_record_call_def)

lemma usage_frame_sink: "logs snk \<Longrightarrow> usage_frame d (snk u d)"
  by (simp add: logs_def)

lemma usage_frame_rejected: "logs snk \<Longrightarrow> usage_frame d (account_rejected_output e snk d)"
  by (auto simp: account_rejected_output_def usage_frame_refl usage_frame_sink split: exn.splits option.splits)

lemma usage_frame_ok:
  assumes "usage_frame d d'" "db_ok d"
  shows "db_ok d'"
proof -
  have "ids_ok d'" using assms(2) usage_frame_simps[OF assms(1)]
    by (auto simp: db_ok_def ids_ok_def dest: order.strict_trans2)
  then show ?thesis using assms(2) by (simp add: db_ok_def usage_frame_simps[OF assms(1)])
qed

subsection \<open>Texts and chunks: the citation invariant\<close>

text \<open>
  Every stored chunk is the slice of its document's parsed text that its offsets name, and
  a document is \<open>Parsed\<close> only while it has a parsed text.
\<close>

definition grounded_chunk :: "document_text list \<Rightarrow> document_chunk \<Rightarrow> bool" where
  "grounded_chunk ts c \<longleftrightarrow> (\<exists>t \<in> set ts. txt_document t = ck_document c
     \<and> valid_span (txt_text t) (ck_start c, ck_end c) \<and> ck_text c = slice (txt_text t) (ck_start c) (ck_end c))"

definition citations_ok :: "db \<Rightarrow> bool" where
  "citations_ok d \<longleftrightarrow> (\<forall>c \<in> set (chunks d). grounded_chunk (texts d) c)
     \<and> (\<forall>r \<in> set (documents d). doc_status r = Parsed \<longrightarrow> (\<exists>t \<in> set (texts d). txt_document t = doc_id r))"

definition service_ok :: "db \<Rightarrow> bool" where
  "service_ok d \<longleftrightarrow> db_ok d \<and> citations_ok d"

lemma service_ok_empty: "service_ok empty_db"
  by (simp add: service_ok_def db_ok_empty) (simp add: citations_ok_def empty_db_def)

lemma citations_same:
  "documents d' = documents d \<Longrightarrow> texts d' = texts d \<Longrightarrow> chunks d' = chunks d \<Longrightarrow> citations_ok d' = citations_ok d"
  by (simp add: citations_ok_def)

lemma usage_frame_service: "usage_frame d d' \<Longrightarrow> service_ok d \<Longrightarrow> service_ok d'"
  unfolding service_ok_def
  by (elim conjE, rule conjI, erule (1) usage_frame_ok,
      rule iffD2[OF citations_same[OF usage_frame_simps(1-3)]]) assumption+

lemma service_clock: "service_ok (d\<lparr>clock := t\<rparr>) = service_ok d"
  by (simp add: service_ok_def db_ok_def ids_ok_def citations_ok_def)

lemma status_rows_mem:
  assumes "r \<in> set (status_rows i st now ds)"
  shows "\<exists>x \<in> set ds. doc_id r = doc_id x \<and> (doc_id x = i \<longrightarrow> doc_status r = st) \<and> (doc_id x \<noteq> i \<longrightarrow> r = x)"
proof -
  obtain x where "x \<in> set ds"
      "r = (if doc_id x = i then (if doc_status x = st then x else x\<lparr>doc_status := st, doc_updated := now\<rparr>) else x)"
    using assms by (auto simp: status_rows_def row_simps)
  then show ?thesis by (intro bexI[of _ x]) simp_all
qed

lemma citations_status_failed:
  assumes "citations_ok d"
  shows "citations_ok (d\<lparr>documents := status_rows i Parse_Failed now (documents d)\<rparr>)"
proof -
  have "\<exists>t \<in> set (texts d). txt_document t = doc_id r"
    if r: "r \<in> set (status_rows i Parse_Failed now (documents d))" "doc_status r = Parsed" for r
  proof -
    obtain x where "x \<in> set (documents d)" "doc_id r = doc_id x" "doc_id x = i \<longrightarrow> doc_status r = Parse_Failed"
        "doc_id x \<noteq> i \<longrightarrow> r = x"
      using status_rows_mem[OF r(1)] by blast
    then show ?thesis using r(2) assms by (cases "doc_id x = i") (auto simp: citations_ok_def)
  qed
  then show ?thesis using assms by (simp add: citations_ok_def)
qed

subsection \<open>A job queue as its poller sees it\<close>

text \<open>
  Polling: at each of the given times one pass over the queue. The service polls forever;
  the list of times is the stretch of the run one looks at.
\<close>

fun polls :: "('w \<Rightarrow> db \<Rightarrow> (exn + bool) \<times> 'w \<times> db) \<Rightarrow> time list \<Rightarrow> 'w \<Rightarrow> db \<Rightarrow> (exn + bool) list \<times> 'w \<times> db" where
  "polls step [] w d = ([], w, d)"
| "polls step (t # ts) w d =
     (case step w (d\<lparr>clock := t\<rparr>) of (r, w', d') \<Rightarrow>
      case polls step ts w' d' of (rs, w'', d'') \<Rightarrow> (r # rs, w'', d''))"

text \<open>
  The contract: a pass keeps the invariant; it reports \<open>Inr False\<close> exactly when nothing is
  runnable, and then changes nothing; every other pass, even one that raises, uses up one
  of finitely many claims and none of the other queues'.
\<close>

locale job_queue =
  fixes step :: "'w \<Rightarrow> db \<Rightarrow> (exn + bool) \<times> 'w \<times> db"
    and left :: "db \<Rightarrow> nat"
    and rest :: "db \<Rightarrow> nat"
    and idle :: "db \<Rightarrow> bool"
  assumes left_clock: "\<And>d t. left (d\<lparr>clock := t\<rparr>) = left d"
    and step_ok: "service_ok d \<Longrightarrow> step w d = (r, w', d') \<Longrightarrow> service_ok d'"
    and step_idle: "service_ok d \<Longrightarrow> step w d = (Inr False, w', d') \<Longrightarrow> w' = w \<and> d' = d \<and> idle d"
    and step_busy: "service_ok d \<Longrightarrow> step w d = (r, w', d') \<Longrightarrow> r \<noteq> Inr False \<Longrightarrow>
      left d' < left d \<and> rest d' = rest d \<and> \<not> idle d"
begin

lemma polls_length: "polls step ts w d = (rs, w', d') \<Longrightarrow> length rs = length ts"
  by (induction ts arbitrary: w d rs w' d') (auto split: prod.splits)

lemma polls_claims:
  "service_ok d \<Longrightarrow> polls step ts w d = (rs, w', d') \<Longrightarrow>
   service_ok d' \<and> length (filter (\<lambda>r. r \<noteq> Inr False) rs) + left d' \<le> left d"
proof (induction ts arbitrary: w d rs)
  case Nil
  then show ?case by simp
next
  case (Cons t ts)
  obtain r w1 d1 where s: "step w (d\<lparr>clock := t\<rparr>) = (r, w1, d1)" by (metis prod_cases3)
  obtain rs' where p: "polls step ts w1 d1 = (rs', w', d')" "rs = r # rs'"
    using Cons.prems(2) s by (auto split: prod.splits)
  have ok: "service_ok (d\<lparr>clock := t\<rparr>)" using Cons.prems(1) by (simp add: service_clock)
  have ih: "service_ok d' \<and> length (filter (\<lambda>r. r \<noteq> Inr False) rs') + left d' \<le> left d1"
    using Cons.IH[OF step_ok[OF ok s] p(1)] .
  show ?case
  proof (cases "r = Inr False")
    case True
    then have "left d1 = left d" using step_idle[OF ok s[unfolded True]] by (simp add: left_clock)
    then show ?thesis using ih True p(2) by simp
  next
    case False
    then have "left d1 < left d" using step_busy[OF ok s] by (simp add: left_clock)
    then show ?thesis using ih False p(2) by simp
  qed
qed

text \<open>A long enough stretch of polling without new work contains an idle pass.\<close>

lemma polls_drain:
  assumes "service_ok d" "polls step ts w d = (rs, w', d')" "left d < length ts"
  shows "Inr False \<in> set rs"
proof (rule ccontr)
  assume "Inr False \<notin> set rs"
  then have "filter (\<lambda>r. r \<noteq> Inr False) rs = rs" by (auto intro: filter_True)
  then show False using polls_claims[OF assms(1,2)] polls_length[OF assms(2)] assms(3) by simp
qed

end

text \<open>A model that answers nothing useful: the plainest instance of the parameter.\<close>

definition idle_llm :: "unit openai" where
  "idle_llm = \<lparr>sdk_parse = (\<lambda>_ _ _ _ w. ((Parse_Unusable [], 0), w)), sdk_chat = (\<lambda>_ _ _ w. ((Chat_Api_Error [], 0), w)),
     sdk_embed = (\<lambda>_ _ w. ((Embed_Reply None [], 0), w)),
     client_model = ''gpt-4o-mini'', client_embedding_model = ''text-embedding-3-small''\<rparr>"

end
