(* ===== verification/Ingestion.thy ===== *)
theory Ingestion
  imports Handlers
begin

section \<open>Document ingestion (app/services/ingestion.py)\<close>

text \<open>
  Enqueue writes a queued row; the worker-side unit claims one job, reads the stored
  bytes, parses, chunks and embeds them, and replaces the document's text and chunks in
  one transaction.
\<close>

definition embed_batch :: nat where
  "embed_batch = 128"

definition ingestion_detail :: "uuid \<Rightarrow> json" where
  "ingestion_detail i = JObj [(''document_id'', juuid i)]"

subsection \<open>Enqueue and read\<close>

definition enqueue_ingestion :: "request_context \<Rightarrow> uuid \<Rightarrow> uuid \<Rightarrow> db \<Rightarrow> (exn + doc_job) \<times> db" where
  "enqueue_ingestion ctx tenant i d =
     (case find_document tenant i d of
        None \<Rightarrow> (Inl (Document_Not_Found i), d)
      | Some _ \<Rightarrow>
          (case find_active_for_document i (ingestion_jobs d) of
             Some j \<Rightarrow> (Inl (Ingestion_Job_Conflict (job_id j)), d)
           | None \<Rightarrow>
               (let (j, d') = create_ingestion_job tenant i d in
                (Inr j, audit_record ctx tenant ''ingestion.enqueue'' ''ingestion_job'' (Some (job_id j))
                   (Some (ingestion_detail i)) d'))))"

definition get_ingestion_job :: "uuid \<Rightarrow> uuid \<Rightarrow> db \<Rightarrow> exn + doc_job" where
  "get_ingestion_job tenant i d =
     (case find_job tenant i (ingestion_jobs d) of None \<Rightarrow> Inl (Ingestion_Job_Not_Found i) | Some j \<Rightarrow> Inr j)"

subsection \<open>The worker-side unit\<close>

function embed_chunk_texts :: "'w openai \<Rightarrow> usage_sink \<Rightarrow> string list \<Rightarrow> 'w \<Rightarrow> db \<Rightarrow> (exn + rat list list) \<times> 'w \<times> db" where
  "embed_chunk_texts llm snk txts w d =
     (if txts = [] then (Inr [], w, d)
      else (case embed llm (take embed_batch txts) w of
          (Inl e, w') \<Rightarrow> (Inl e, w', d)
        | (Inr (vs, u), w') \<Rightarrow>
            (case embed_chunk_texts llm snk (drop embed_batch txts) w' (snk u d) of
               (Inl e, w'', d') \<Rightarrow> (Inl e, w'', d')
             | (Inr rest, w'', d') \<Rightarrow> (Inr (vs @ rest), w'', d'))))"
  by pat_completeness auto
termination
  by (relation "measure (\<lambda>(llm, snk, txts, w, d). length txts)") (auto simp: embed_batch_def)

declare embed_chunk_texts.simps [simp del]

definition ingest :: "'w openai \<Rightarrow> extractors \<Rightarrow> string \<Rightarrow> files \<Rightarrow> usage_sink \<Rightarrow> document \<Rightarrow> 'w \<Rightarrow> db
    \<Rightarrow> (exn + parsed_document \<times> chunk list \<times> rat list list) \<times> 'w \<times> db" where
  "ingest llm ex data_dir fs snk r w d =
     (case read_stored data_dir (doc_tenant r) (doc_sha r) fs of
        Inl e \<Rightarrow> (Inl e, w, d)
      | Inr content \<Rightarrow>
          (case parse ex (doc_mime r) content of
             Inl pe \<Rightarrow> (Inl (Parse_Raised pe), w, d)
           | Inr parsed \<Rightarrow>
               (let cs = chunk_document parsed in
                case embed_chunk_texts llm snk (map chunk_text cs) w d of
                  (Inl e, w', d') \<Rightarrow> (Inl e, w', d')
                | (Inr vs, w', d') \<Rightarrow> (Inr (parsed, cs, vs), w', d'))))"

definition run_next_ingestion_job :: "'w openai \<Rightarrow> extractors \<Rightarrow> string \<Rightarrow> files \<Rightarrow> 'w \<Rightarrow> db \<Rightarrow> (exn + bool) \<times> 'w \<times> db" where
  "run_next_ingestion_job llm ex data_dir fs w d =
     (case claim_ingestion d of
        (None, d1) \<Rightarrow> (Inr False, w, d1)
      | (Some j, d1) \<Rightarrow>
          (if job_status j = Failed then
             (case find_document (job_tenant j) (dj_document j) d1 of
                None \<Rightarrow> claimed w d1
              | Some r \<Rightarrow> commit w d1 (set_status (doc_id r) Parse_Failed d1) (claimed w))
           else
             (case find_document (job_tenant j) (dj_document j) d1 of
                None \<Rightarrow> commit w d1
                  (fail_ingestion j (''document '' @ uuid_str (dj_document j) @ '' vanished after enqueue'') d1) (claimed w)
              | Some r \<Rightarrow>
                  (case ingest llm ex data_dir fs (sink no_request (job_tenant j) Use_Ingestion (Some (job_id j))) r w d1 of
                     (Inl e, w', d2) \<Rightarrow>
                       commit w' d2 (fail_ingestion j (exn_str e) d2) (\<lambda>d3.
                       commit w' d3 (set_status (doc_id r) Parse_Failed d3) (claimed w'))
                   | (Inr (parsed, cs, vs), w', d2) \<Rightarrow>
                       commit w' d2 (case replace_text (job_tenant j) (doc_id r) (doc_text parsed) (doc_pages parsed) d2 of
                           Inl e \<Rightarrow> Inl e
                         | Inr d3 \<Rightarrow> replace_with_embeddings (job_tenant j) (doc_id r)
                             (map (\<lambda>c. (chunk_text c, chunk_start c, chunk_end c)) cs) vs d3) (\<lambda>d3.
                       commit w' d3 (complete_ingestion j (JObj [(''chunk_count'', jnat (length cs))]) d3) (\<lambda>d4.
                       commit w' d4 (set_status (doc_id r) Parsed d4) (claimed w')))))))"

subsection \<open>Lemmas: the stages\<close>

lemma embed_chunk_texts_frame:
  "logs snk \<Longrightarrow> embed_chunk_texts llm snk txts w d = (r, w', d') \<Longrightarrow> usage_frame d d'"
proof (induction llm snk txts w d arbitrary: r w' d' rule: embed_chunk_texts.induct)
  case (1 llm snk txts w d)
  show ?case
  proof (cases "txts = []")
    case True
    then show ?thesis using 1(3) by (simp add: embed_chunk_texts.simps usage_frame_refl)
  next
    case False
    obtain q w1 where e: "embed llm (take embed_batch txts) w = (q, w1)" by (cases "embed llm (take embed_batch txts) w")
    show ?thesis
    proof (cases q)
      case (Inl x)
      then show ?thesis using 1(3) False e by (simp add: embed_chunk_texts.simps[of llm snk txts] usage_frame_refl)
    next
      case (Inr vu)
      obtain vs u where vu: "vu = (vs, u)" by (cases vu)
      obtain q' w2 d2 where r: "embed_chunk_texts llm snk (drop embed_batch txts) w1 (snk u d) = (q', w2, d2)"
        by (metis prod_cases3)
      have "usage_frame (snk u d) d2"
        using "1.IH"[OF False e[symmetric] _ _ 1(2) r] Inr vu by simp
      moreover have "d' = d2"
        using 1(3) False e r by (auto simp: embed_chunk_texts.simps[of llm snk txts] Inr vu split: sum.splits)
      ultimately show ?thesis using usage_frame_sink[OF 1(2)] usage_frame_trans by blast
    qed
  qed
qed

lemma parse_built: "parse ex mime content = Inr pd \<Longrightarrow> built pd"
  by (auto simp: parse_def parse_pdf_def parse_docx_def parse_text_def built_def Let_def
      split: if_splits sum.splits option.splits)

lemma ingest_frame: "logs snk \<Longrightarrow> ingest llm ex dir fs snk r w d = (q, w', d') \<Longrightarrow> usage_frame d d'"
  by (auto simp: ingest_def Let_def usage_frame_refl split: sum.splits prod.splits dest: embed_chunk_texts_frame)

lemma ingest_Inr:
  "ingest llm ex dir fs snk r w d = (Inr (parsed, cs, vs), w', d') \<Longrightarrow> built parsed \<and> cs = chunk_document parsed"
  by (auto simp: ingest_def Let_def split: sum.splits prod.splits dest: parse_built)

subsection \<open>Lemmas: the two ways a pass ends\<close>

definition failed_pass :: "doc_job \<Rightarrow> string \<Rightarrow> db \<Rightarrow> db" where
  "failed_pass j e d = d\<lparr>ingestion_jobs := finish_rows (clock d) j Failed None (Some (take 1024 e)) (ingestion_jobs d),
     documents := status_rows (dj_document j) Parse_Failed (clock d) (documents d)\<rparr>"

definition chunk_triples :: "chunk list \<Rightarrow> (string \<times> nat \<times> nat) list" where
  "chunk_triples cs = map (\<lambda>c. (chunk_text c, chunk_start c, chunk_end c)) cs"

definition completed_pass :: "doc_job \<Rightarrow> parsed_document \<Rightarrow> chunk list \<Rightarrow> db \<Rightarrow> db" where
  "completed_pass j parsed cs d = d\<lparr>
     ingestion_jobs := finish_rows (clock d) j Completed (Some (JObj [(''chunk_count'', jnat (length cs))])) None (ingestion_jobs d),
     documents := status_rows (dj_document j) Parsed (clock d) (documents d)\<rparr>"

lemma job_owner: "db_ok d \<Longrightarrow> j \<in> set (ingestion_jobs d) \<Longrightarrow> owned (documents d) (job_tenant j) (dj_document j)"
  by (simp add: db_ok_def jobs_ok_def)

lemma set_status_after:
  assumes "db_ok d" "owned (documents d) t i"
  shows "set_status i st d = Inr (d\<lparr>documents := status_rows i st (clock d) (documents d)\<rparr>)"
  using set_status_owned[OF _ assms(2)] assms(1) by (simp add: db_ok_def)

lemma failed_pass_steps:
  assumes "db_ok d" "j \<in> set (ingestion_jobs d)" "job_status j = Running"
  shows "\<not> has_nul (take 1024 e) \<Longrightarrow>
      commit w d (fail_ingestion j e d) (\<lambda>d3. commit w d3 (set_status (dj_document j) Parse_Failed d3) (claimed w))
        = (Inr True, w, failed_pass j e d)"
    and "has_nul (take 1024 e) \<Longrightarrow>
      commit w d (fail_ingestion j e d) (\<lambda>d3. commit w d3 (set_status (dj_document j) Parse_Failed d3) (claimed w))
        = (Inl Data_Error, w, d)"
    and "db_ok (failed_pass j e d)"
proof -
  let ?d = "d\<lparr>ingestion_jobs := finish_rows (clock d) j Failed None (Some (take 1024 e)) (ingestion_jobs d)\<rparr>"
  have ok: "db_ok ?d" using assms by (intro finish_ok(1)) auto
  have own: "owned (documents ?d) (job_tenant j) (dj_document j)" using job_owner assms by simp
  show "commit w d (fail_ingestion j e d) (\<lambda>d3. commit w d3 (set_status (dj_document j) Parse_Failed d3) (claimed w))
    = (Inr True, w, failed_pass j e d)" if "\<not> has_nul (take 1024 e)"
    by (simp add: finish_ingestion(2)[OF assms that] set_status_after[OF ok own] claimed_def failed_pass_def)
  show "commit w d (fail_ingestion j e d) (\<lambda>d3. commit w d3 (set_status (dj_document j) Parse_Failed d3) (claimed w))
    = (Inl Data_Error, w, d)" if "has_nul (take 1024 e)"
    using that by (simp add: fail_ingestion_def)
  show "db_ok (failed_pass j e d)" using status_rows_ok[OF ok own] by (simp add: failed_pass_def)
qed

lemma count_stores: "\<not> json_nul (JObj [(''chunk_count'', jnat n)])"
  by (simp add: jnat_def jint_def has_nul_def)

lemma completed_pass_steps:
  assumes "db_ok d" "j \<in> set (ingestion_jobs d)" "job_status j = Running"
  shows "commit w d (complete_ingestion j (JObj [(''chunk_count'', jnat (length cs))]) d)
      (\<lambda>d4. commit w d4 (set_status (dj_document j) Parsed d4) (claimed w)) = (Inr True, w, completed_pass j parsed cs d)"
    and "db_ok (completed_pass j parsed cs d)"
proof -
  let ?d = "d\<lparr>ingestion_jobs := finish_rows (clock d) j Completed (Some (JObj [(''chunk_count'', jnat (length cs))])) None (ingestion_jobs d)\<rparr>"
  have ok: "db_ok ?d" using assms by (intro finish_ok(1)) auto
  have own: "owned (documents ?d) (job_tenant j) (dj_document j)" using job_owner assms by simp
  show "commit w d (complete_ingestion j (JObj [(''chunk_count'', jnat (length cs))]) d)
      (\<lambda>d4. commit w d4 (set_status (dj_document j) Parsed d4) (claimed w)) = (Inr True, w, completed_pass j parsed cs d)"
    by (simp add: finish_ingestion(1)[OF assms count_stores] set_status_after[OF ok own] claimed_def completed_pass_def)
  show "db_ok (completed_pass j parsed cs d)" using status_rows_ok[OF ok own] by (simp add: completed_pass_def)
qed

text \<open>Text and chunks of one parse, replaced together.\<close>

definition store_parse :: "uuid \<Rightarrow> uuid \<Rightarrow> parsed_document \<Rightarrow> chunk list \<Rightarrow> rat list list \<Rightarrow> db \<Rightarrow> exn + db" where
  "store_parse t i parsed cs vs d =
     (case replace_text t i (doc_text parsed) (doc_pages parsed) d of
        Inl e \<Rightarrow> Inl e | Inr d' \<Rightarrow> replace_with_embeddings t i (chunk_triples cs) vs d')"

lemma with_text_simps [simp]:
  "documents (with_text t i tx pm d) = documents d" "ingestion_jobs (with_text t i tx pm d) = ingestion_jobs d"
  "extraction_jobs (with_text t i tx pm d) = extraction_jobs d" "report_jobs (with_text t i tx pm d) = report_jobs d"
  "chunks (with_text t i tx pm d) = chunks d" "clock (with_text t i tx pm d) = clock d"
  by (simp_all add: with_text_def)

lemma store_parse_Inr:
  assumes "store_parse t i parsed cs vs d = Inr d'" "db_ok d" "owned (documents d) t i"
  shows "db_ok d'" and "documents d' = documents d" and "ingestion_jobs d' = ingestion_jobs d"
    and "extraction_jobs d' = extraction_jobs d" and "report_jobs d' = report_jobs d" and "clock d' = clock d"
    and "texts d' = texts (with_text t i (doc_text parsed) (doc_pages parsed) d)"
    and "chunks d' = delete_where (\<lambda>r. ck_document r = i) (chunks d) @ chunk_rows t i (next_id d) 0 (chunk_triples cs) vs"
    and "length cs = length vs"
    and "\<not> has_nul (doc_text parsed)"
proof -
  have w: "\<not> has_nul (doc_text parsed)" and st: "replace_with_embeddings t i (chunk_triples cs) vs
      (with_text t i (doc_text parsed) (doc_pages parsed) d) = Inr d'"
    using assms(1) by (simp_all add: store_parse_def replace_text_def split: if_splits)
  have "db_ok (with_text t i (doc_text parsed) (doc_pages parsed) d)" by (rule with_text_ok[OF assms(2,3)])
  moreover have "owned (documents (with_text t i (doc_text parsed) (doc_pages parsed) d)) t i" using assms(3) by simp
  ultimately show "db_ok d'" using replace_chunks_ok st by blast
  note e = replace_chunks_Inr[OF st]
  have n: "next_id (with_text t i (doc_text parsed) (doc_pages parsed) d) = next_id d" by (simp add: with_text_def)
  show "\<not> has_nul (doc_text parsed)" by (rule w)
  show "length cs = length vs" using e(1) by (simp add: chunk_triples_def)
  show "documents d' = documents d" "ingestion_jobs d' = ingestion_jobs d" "extraction_jobs d' = extraction_jobs d"
    "report_jobs d' = report_jobs d" "clock d' = clock d"
    "texts d' = texts (with_text t i (doc_text parsed) (doc_pages parsed) d)"
    "chunks d' = delete_where (\<lambda>r. ck_document r = i) (chunks d) @ chunk_rows t i (next_id d) 0 (chunk_triples cs) vs"
    unfolding e(2) by (simp_all add: n)
qed

lemma chunk_rows_mem:
  assumes "length cs = length vs" "c \<in> set (chunk_rows t i n k cs vs)"
  shows "(ck_text c, ck_start c, ck_end c) \<in> set cs"
proof -
  have "(ck_text c, ck_start c, ck_end c) \<in> (\<lambda>c. (ck_text c, ck_start c, ck_end c)) ` set (chunk_rows t i n k cs vs)"
    using assms(2) by blast
  moreover have "set (map (\<lambda>c. (ck_text c, ck_start c, ck_end c)) (chunk_rows t i n k cs vs)) = set cs"
    using chunk_rows_contents[OF assms(1), of t i n k] by simp
  ultimately show ?thesis unfolding set_map by simp
qed

text \<open>The new chunks cite the new text; the other documents' chunks still cite theirs.\<close>

lemma store_parse_citations:
  assumes "store_parse t i parsed cs vs d = Inr d'" "db_ok d" "owned (documents d) t i"
    and "built parsed" "cs = chunk_document parsed" "citations_ok d"
  shows "citations_ok d'" and "\<exists>tx \<in> set (texts d'). txt_document tx = i"
proof -
  note e = store_parse_Inr[OF assms(1-3)]
  let ?t = "\<lparr>txt_document = i, txt_tenant = t, txt_text = doc_text parsed, txt_page_map = doc_pages parsed\<rparr>"
  have tx: "texts d' = delete_where (\<lambda>r. txt_document r = i) (texts d) @ [?t]" using e(7) by (simp add: with_text_def)
  then show ex: "\<exists>tx \<in> set (texts d'). txt_document tx = i" by auto
  have "grounded_chunk (texts d') c" if c: "c \<in> set (chunks d')" for c
  proof (cases "c \<in> set (chunk_rows t i (next_id d) 0 (chunk_triples cs) vs)")
    case True
    have "(ck_text c, ck_start c, ck_end c) \<in> set (chunk_triples cs)"
      by (rule chunk_rows_mem[OF _ True]) (simp add: e(9) chunk_triples_def)
    then obtain x where x: "x \<in> set (chunk_document parsed)" "ck_text c = chunk_text x" "ck_start c = chunk_start x"
        "ck_end c = chunk_end x"
      by (auto simp: chunk_triples_def assms(5))
    have "ck_document c = i" using chunk_rows_owner[OF True] by simp
    moreover have "?t \<in> set (texts d')" by (simp add: tx)
    ultimately show ?thesis using chunk_grounded[OF assms(4) x(1)] x(2-4)
      by (auto simp: grounded_chunk_def intro!: bexI[of _ ?t])
  next
    case False
    then have old: "c \<in> set (chunks d)" "ck_document c \<noteq> i" using c by (auto simp: e(8) row_simps)
    then obtain tx where "tx \<in> set (texts d)" "txt_document tx = ck_document c"
        "valid_span (txt_text tx) (ck_start c, ck_end c)" "ck_text c = slice (txt_text tx) (ck_start c) (ck_end c)"
      using assms(6) by (auto simp: citations_ok_def grounded_chunk_def)
    then show ?thesis using old(2) unfolding grounded_chunk_def tx by (intro bexI[of _ tx]) (auto simp: row_simps)
  qed
  moreover have "\<exists>u \<in> set (texts d'). txt_document u = doc_id r" if r: "r \<in> set (documents d')" "doc_status r = Parsed" for r
  proof (cases "doc_id r = i")
    case False
    obtain u where "u \<in> set (texts d)" "txt_document u = doc_id r"
      using r assms(6) by (auto simp: e(2) citations_ok_def)
    then show ?thesis using False by (intro bexI[of _ u]) (auto simp: tx row_simps)
  qed (use ex in simp)
  ultimately show "citations_ok d'" by (simp add: citations_ok_def)
qed

subsection \<open>Lemmas: one pass\<close>

definition ended :: "doc_job \<Rightarrow> db \<Rightarrow> exn + bool \<Rightarrow> db \<Rightarrow> bool" where
  "ended j d2 r d' \<longleftrightarrow>
     (\<exists>e. r = Inr True \<and> d' = failed_pass j e d2)
     \<or> (\<exists>parsed vs d3. built parsed \<and> r = Inr True \<and> d' = completed_pass j parsed (chunk_document parsed) d3
          \<and> store_parse (job_tenant j) (dj_document j) parsed (chunk_document parsed) vs d2 = Inr d3)
     \<or> (\<exists>parsed vs e. store_parse (job_tenant j) (dj_document j) parsed (chunk_document parsed) vs d2 = Inl e
          \<and> r = Inl e \<and> d' = d2)
     \<or> (r = Inl Data_Error \<and> d' = d2)"

lemma ingestion_running:
  assumes "db_ok d1" "j \<in> set (ingestion_jobs d1)" "job_status j = Running"
    and "claim_ingestion d = (Some j, d1)" "run_next_ingestion_job llm ex dir fs w d = (r, w', d')"
  shows "\<exists>d2. usage_frame d1 d2 \<and> ended j d2 r d'"
proof -
  let ?snk = "sink no_request (job_tenant j) Use_Ingestion (Some (job_id j))"
  have own: "owned (documents d1) (job_tenant j) (dj_document j)" by (rule job_owner[OF assms(1,2)])
  then obtain x where x: "find_document (job_tenant j) (dj_document j) d1 = Some x"
    using find_document_None by (cases "find_document (job_tenant j) (dj_document j) d1") auto
  have xid: "doc_id x = dj_document j" using find_document_Some[OF x] by simp
  obtain q w2 d2 where g: "ingest llm ex dir fs ?snk x w d1 = (q, w2, d2)" by (metis prod_cases3)
  have fr: "usage_frame d1 d2" by (rule ingest_frame[OF logs_sink g])
  have ok2: "db_ok d2" by (rule usage_frame_ok[OF fr assms(1)])
  have j2: "j \<in> set (ingestion_jobs d2)" using assms(2) by (simp add: usage_frame_simps[OF fr])
  have own2: "owned (documents d2) (job_tenant j) (dj_document j)" using own by (simp add: usage_frame_simps[OF fr])
  note run = assms(5)[unfolded run_next_ingestion_job_def assms(4), simplified, unfolded assms(3) x, simplified,
      unfolded xid g, simplified]
  have "ended j d2 r d'"
  proof (cases q)
    case (Inl e)
    then have "(r, w', d') = (if has_nul (take 1024 (exn_str e)) then (Inl Data_Error, w2, d2)
        else (Inr True, w2, failed_pass j (exn_str e) d2))"
      using run failed_pass_steps(1,2)[OF ok2 j2 assms(3), of "exn_str e" w2] by (auto split: if_splits)
    then show ?thesis unfolding ended_def by (auto split: if_splits)
  next
    case (Inr pcv)
    obtain parsed cs vs where p: "pcv = (parsed, cs, vs)" by (cases pcv)
    note b = ingest_Inr[OF g[unfolded Inr p]]
    define rest where "rest = store_parse (job_tenant j) (dj_document j) parsed cs vs d2"
    have run': "commit w2 d2 rest (\<lambda>d3. commit w2 d3 (complete_ingestion j (JObj [(''chunk_count'', jnat (length cs))]) d3)
         (\<lambda>d4. commit w2 d4 (set_status (dj_document j) Parsed d4) (claimed w2))) = (r, w', d')"
      using run unfolding Inr p rest_def store_parse_def chunk_triples_def by simp
    show ?thesis
    proof (cases rest)
      case (Inl e)
      then show ?thesis using run' b unfolding ended_def rest_def by fastforce
    next
      case (Inr d3)
      note s = store_parse_Inr[OF Inr[unfolded rest_def] ok2 own2]
      have "j \<in> set (ingestion_jobs d3)" using j2 s(3) by simp
      from completed_pass_steps(1)[OF s(1) this assms(3), of w2 cs parsed]
      have "(r, w', d') = (Inr True, w2, completed_pass j parsed cs d3)" using run' Inr by simp
      then show ?thesis using b Inr unfolding ended_def rest_def by blast
    qed
  qed
  with fr show ?thesis by blast
qed

lemma ended_ok:
  assumes "ended j d2 r d'" "service_ok d2" "j \<in> set (ingestion_jobs d2)" "job_status j = Running"
  shows "service_ok d'" and "extraction_jobs d' = extraction_jobs d2" and "report_jobs d' = report_jobs d2"
    and "pending_claims (ingestion_jobs d') \<le> pending_claims (ingestion_jobs d2)"
proof -
  have ok: "db_ok d2" "citations_ok d2" using assms(2) by (simp_all add: service_ok_def)
  note own = job_owner[OF ok(1) assms(3)]
  have "service_ok d' \<and> extraction_jobs d' = extraction_jobs d2 \<and> report_jobs d' = report_jobs d2
      \<and> pending_claims (ingestion_jobs d') \<le> pending_claims (ingestion_jobs d2)"
    using assms(1) unfolding ended_def
  proof (elim disjE exE conjE)
    fix e assume e: "d' = failed_pass j e d2"
    have "citations_ok d'" using citations_status_failed[OF ok(2), of "dj_document j" "clock d2"]
      by (simp add: e failed_pass_def citations_ok_def)
    then show ?thesis using failed_pass_steps(3)[OF ok(1) assms(3,4), of e]
      by (auto simp: e service_ok_def failed_pass_def finish_rows_def pending_terminal)
  next
    fix parsed vs d3
    assume b: "built parsed" and d': "d' = completed_pass j parsed (chunk_document parsed) d3"
      and st: "store_parse (job_tenant j) (dj_document j) parsed (chunk_document parsed) vs d2 = Inr d3"
    note s = store_parse_Inr[OF st ok(1) own] and c = store_parse_citations[OF st ok(1) own b refl ok(2)]
    have j3: "j \<in> set (ingestion_jobs d3)" using assms(3) s(3) by simp
    have "\<exists>u \<in> set (texts d3). txt_document u = doc_id x"
      if x: "x \<in> set (status_rows (dj_document j) Parsed (clock d3) (documents d3))" "doc_status x = Parsed" for x
    proof -
      obtain y where "y \<in> set (documents d3)" "doc_id x = doc_id y" "doc_id y \<noteq> dj_document j \<longrightarrow> x = y"
        using status_rows_mem[OF x(1)] by blast
      then show ?thesis using c x(2) by (cases "doc_id y = dj_document j") (auto simp: citations_ok_def)
    qed
    then have "citations_ok d'" using c(1) by (simp add: d' completed_pass_def citations_ok_def)
    then show ?thesis using completed_pass_steps(2)[OF s(1) j3 assms(4)] s(3-5)
      by (auto simp: d' service_ok_def completed_pass_def finish_rows_def pending_terminal)
  next
    assume "d' = d2"
    then show ?thesis using assms(2) by simp
  qed (use assms(2) in simp)
  then show "service_ok d'" "extraction_jobs d' = extraction_jobs d2" "report_jobs d' = report_jobs d2"
    "pending_claims (ingestion_jobs d') \<le> pending_claims (ingestion_jobs d2)" by simp_all
qed

lemma ingestion_pass:
  assumes "service_ok d" "run_next_ingestion_job llm ex dir fs w d = (r, w', d')"
  obtains (Idle) "claim_ingestion d = (None, d)" "r = Inr False" "w' = w" "d' = d"
  | (Capped) j d1 where "claim_ingestion d = (Some j, d1)" "job_status j = Failed" "r = Inr True"
      "d' = d1\<lparr>documents := status_rows (dj_document j) Parse_Failed (clock d1) (documents d1)\<rparr>"
  | (Run) j d1 d2 where "claim_ingestion d = (Some j, d1)" "job_status j = Running" "usage_frame d1 d2" "ended j d2 r d'"
proof -
  have ok: "db_ok d" using assms(1) by (simp add: service_ok_def)
  obtain q d1 where c: "claim_ingestion d = (q, d1)" by (cases "claim_ingestion d")
  show thesis
  proof (cases q)
    case None
    then have "d1 = d" using claim_ingestion_ok(3)[OF ok c] by simp
    then show ?thesis using Idle assms(2) c None by (simp add: run_next_ingestion_job_def)
  next
    case (Some j)
    note cl = claim_ingestion_ok[OF ok c[unfolded Some]]
    have j: "j \<in> set (ingestion_jobs d1)" "job_status j \<in> {Running, Failed}" using cl(4) by auto
    show ?thesis
    proof (cases "job_status j = Failed")
      case True
      have own: "owned (documents d1) (job_tenant j) (dj_document j)" by (rule job_owner[OF cl(1) j(1)])
      then obtain x where x: "find_document (job_tenant j) (dj_document j) d1 = Some x"
        using find_document_None by (cases "find_document (job_tenant j) (dj_document j) d1") auto
      have xid: "doc_id x = dj_document j" using find_document_Some[OF x] by simp
      have "(r, w', d') = (Inr True, w, d1\<lparr>documents := status_rows (dj_document j) Parse_Failed (clock d1) (documents d1)\<rparr>)"
        using assms(2) by (simp add: run_next_ingestion_job_def c Some True x xid set_status_after[OF cl(1) own] claimed_def)
      then show ?thesis using Capped c Some True by simp
    next
      case False
      then have "job_status j = Running" using j(2) by simp
      then show ?thesis using Run ingestion_running[OF cl(1) j(1) _ c[unfolded Some] assms(2)] c Some by blast
    qed
  qed
qed

definition ingestion_idle :: "db \<Rightarrow> bool" where
  "ingestion_idle d \<longleftrightarrow> \<not> list_ex (runnable (clock d)) (ingestion_jobs d)"

lemma claim_ingestion_idle: "claim_ingestion d = (None, d) \<longleftrightarrow> ingestion_idle d"
  using claim_next_None[of "clock d" "{}" "ingestion_jobs d" "ingestion_jobs d"]
  by (auto simp: claim_ingestion_def ingestion_idle_def list_ex_iff Let_def claim_next_def split: prod.splits option.splits)

lemma claim_service:
  assumes "service_ok d" "claim_ingestion d = (Some j, d1)"
  shows "service_ok d1" "j \<in> set (ingestion_jobs d1)" "extraction_jobs d1 = extraction_jobs d" "report_jobs d1 = report_jobs d"
    "pending_claims (ingestion_jobs d1) < pending_claims (ingestion_jobs d)" "documents d1 = documents d"
    "texts d1 = texts d" "chunks d1 = chunks d" "clock d1 = clock d"
proof -
  have ok: "db_ok d" using assms(1) by (simp add: service_ok_def)
  note cl = claim_ingestion_ok[OF ok assms(2)]
  show e: "extraction_jobs d1 = extraction_jobs d" "report_jobs d1 = report_jobs d" "documents d1 = documents d"
    "texts d1 = texts d" "chunks d1 = chunks d" "clock d1 = clock d"
    by (subst cl(2), simp)+
  show "service_ok d1" using cl(1) assms(1) e by (simp add: service_ok_def citations_ok_def)
  show "j \<in> set (ingestion_jobs d1)" "pending_claims (ingestion_jobs d1) < pending_claims (ingestion_jobs d)"
    using cl(4) by simp_all
qed

lemma capped_ok:
  assumes "service_ok d1" "j \<in> set (ingestion_jobs d1)"
  shows "service_ok (d1\<lparr>documents := status_rows (dj_document j) Parse_Failed (clock d1) (documents d1)\<rparr>)"
  using assms status_rows_ok[OF _ job_owner[OF _ assms(2)]] citations_status_failed[of d1]
  by (simp add: service_ok_def)

lemma ingestion_queue_laws:
  assumes ok: "service_ok d" and run: "run_next_ingestion_job llm ex dir fs w d = (r, w', d')"
  shows "service_ok d' \<and> (r = Inr False \<longrightarrow> w' = w \<and> d' = d \<and> ingestion_idle d)
    \<and> (r \<noteq> Inr False \<longrightarrow> pending_claims (ingestion_jobs d') < pending_claims (ingestion_jobs d)
        \<and> pending_claims (extraction_jobs d') + pending_claims (report_jobs d')
          = pending_claims (extraction_jobs d) + pending_claims (report_jobs d) \<and> \<not> ingestion_idle d)"
  using ok run
proof (cases rule: ingestion_pass)
  case Idle
  then show ?thesis using ok claim_ingestion_idle by simp
next
  case (Capped j d1)
  note cl = claim_service[OF ok Capped(1)]
  have "\<not> ingestion_idle d" using Capped(1) claim_ingestion_idle[of d] by auto
  then show ?thesis using Capped cl capped_ok[OF cl(1,2)] by simp
next
  case (Run j d1 d2)
  note cl = claim_service[OF ok Run(1)] and fr = usage_frame_simps[OF Run(3)]
  have "service_ok d2" by (rule usage_frame_service[OF Run(3) cl(1)])
  moreover have "j \<in> set (ingestion_jobs d2)" using cl(2) fr by simp
  ultimately have e: "service_ok d' \<and> extraction_jobs d' = extraction_jobs d2 \<and> report_jobs d' = report_jobs d2
      \<and> pending_claims (ingestion_jobs d') \<le> pending_claims (ingestion_jobs d2)"
    using ended_ok[OF Run(4) _ _ Run(2)] by blast
  have "\<not> ingestion_idle d" using Run(1) claim_ingestion_idle[of d] by auto
  moreover have "r \<noteq> Inr False" using Run(4) by (auto simp: ended_def)
  ultimately show ?thesis using e cl fr by simp
qed

interpretation ingestion_queue: job_queue "run_next_ingestion_job llm ex dir fs"
    "\<lambda>d. pending_claims (ingestion_jobs d)"
    "\<lambda>d. pending_claims (extraction_jobs d) + pending_claims (report_jobs d)" ingestion_idle
  for llm ex dir fs
  by unfold_locales (simp, (blast dest: ingestion_queue_laws)+)

lemma status_row_exists:
  assumes "owned ds t i"
  shows "\<exists>x \<in> set (status_rows i st now ds). doc_id x = i \<and> doc_status x = st"
proof -
  have "owned (status_rows i st now ds) t i" using assms by simp
  then obtain x where "x \<in> set (status_rows i st now ds)" "doc_id x = i" unfolding owned_def by blast
  then show ?thesis using status_rows_status by blast
qed

lemma store_parse_count:
  assumes "store_parse t i parsed cs vs d = Inr d'" "db_ok d" "owned (documents d) t i"
  shows "count_chunks i d' = length cs"
proof -
  note s = store_parse_Inr[OF assms]
  let ?new = "chunk_rows t i (next_id d) 0 (chunk_triples cs) vs"
  have "filter (\<lambda>r. ck_document r = i) ?new = ?new" using chunk_rows_owner[of _ t i] by (auto intro: filter_True)
  moreover have "length (chunk_triples cs) = length vs" using s(9) by (simp add: chunk_triples_def)
  then have "length ?new = length cs" using chunk_rows_ids[of "chunk_triples cs" vs t i "next_id d" 0]
    by (metis chunk_triples_def diff_add_inverse length_map length_upt)
  ultimately show ?thesis by (simp add: count_chunks_def select_where_def s(8) delete_where_def)
qed

definition settled :: "doc_job \<Rightarrow> db \<Rightarrow> bool" where
  "settled j d \<longleftrightarrow> job_lease j = None
     \<and> (case job_status j of
          Completed \<Rightarrow> job_error j = None
            \<and> job_result j = Some (JObj [(''chunk_count'', jnat (count_chunks (dj_document j) d))])
            \<and> (\<exists>x \<in> set (documents d). doc_id x = dj_document j \<and> doc_status x = Parsed)
        | Failed \<Rightarrow> job_result j = None \<and> job_error j \<noteq> None
            \<and> (\<exists>x \<in> set (documents d). doc_id x = dj_document j \<and> doc_status x = Parse_Failed)
        | _ \<Rightarrow> False)"

lemma ended_settled:
  assumes "ended j d2 (Inr True) d'" "service_ok d2" "j \<in> set (ingestion_jobs d2)"
  shows "\<exists>k \<in> set (ingestion_jobs d'). job_id k = job_id j \<and> settled k d'"
proof -
  have ok: "db_ok d2" using assms(2) by (simp add: service_ok_def)
  note own = job_owner[OF ok assms(3)]
  from assms(1) show ?thesis unfolding ended_def
  proof (elim disjE exE conjE)
    fix e assume d': "d' = failed_pass j e d2"
    let ?k = "set_terminal (clock d2) Failed None (Some (take 1024 e)) j"
    have "?k \<in> set (ingestion_jobs d')" using finish_rows_mem[OF assms(3)] by (simp add: d' failed_pass_def)
    moreover have "settled ?k d'" using status_row_exists[OF own] by (simp add: settled_def d' failed_pass_def)
    ultimately show ?thesis by (intro bexI[of _ ?k]) simp_all
  next
    fix parsed vs d3
    assume d': "d' = completed_pass j parsed (chunk_document parsed) d3"
      and st: "store_parse (job_tenant j) (dj_document j) parsed (chunk_document parsed) vs d2 = Inr d3"
    note s = store_parse_Inr[OF st ok own]
    let ?k = "set_terminal (clock d3) Completed (Some (JObj [(''chunk_count'', jnat (length (chunk_document parsed)))])) None j"
    have j3: "j \<in> set (ingestion_jobs d3)" using assms(3) s(3) by simp
    have own3: "owned (documents d3) (job_tenant j) (dj_document j)" using own s(2) by simp
    have "count_chunks (dj_document j) d' = length (chunk_document parsed)"
      using store_parse_count[OF st ok own] by (simp add: d' completed_pass_def count_chunks_def)
    then have "settled ?k d'" using status_row_exists[OF own3] by (simp add: settled_def d' completed_pass_def)
    moreover have "?k \<in> set (ingestion_jobs d')" using finish_rows_mem[OF j3] by (simp add: d' completed_pass_def)
    ultimately show ?thesis by (intro bexI[of _ ?k]) simp_all
  qed auto
qed

lemma claim_ingestion_row:
  assumes "claim_ingestion d = (Some j, d1)"
  shows "\<exists>i \<in> set (ingestion_jobs d). runnable (clock d) i \<and> j = claim_row (clock d) i"
proof -
  obtain rows where "claim_next (clock d) {} (ingestion_jobs d) = (Some j, rows)"
    using assms by (auto simp: claim_ingestion_def Let_def split: prod.splits)
  from claim_next_Some[OF this] show ?thesis by blast
qed

subsection \<open>Properties\<close>

text \<open>
  C8: An ingestion pass keeps the service invariant: whatever the file store, the parsers
  and the model answer, every stored chunk afterwards is still the slice of its document's
  current parsed text at its offsets, parsed documents have a text, and no key or
  reference is broken.
\<close>

theorem ingestion_keeps_citations:
  assumes "service_ok d"
  shows "service_ok (snd (snd (run_next_ingestion_job llm ex data_dir fs w d)))"
proof -
  obtain r w' d' where "run_next_ingestion_job llm ex data_dir fs w d = (r, w', d')" by (metis prod_cases3)
  then show ?thesis using ingestion_queue.step_ok[OF assms] by simp
qed

definition no_extractors :: extractors where
  "no_extractors = \<lparr>pdf_pages = (\<lambda>_. Inl []), docx_paragraphs = (\<lambda>_. Inl [])\<rparr>"

text \<open>One plain-text document whose ingestion is queued.\<close>

definition queued_db :: db where
  "queued_db = empty_db\<lparr>documents := [(sample_document 2 ''h0'' None)\<lparr>doc_status := Uploaded\<rparr>],
     ingestion_jobs := [new_doc_job 3 0 5 2], next_id := 4\<rparr>"

lemma queued_db_ok: "service_ok queued_db"
  by (simp add: service_ok_def db_ok_def citations_ok_def queued_db_def empty_db_def table_oks ids_ok_def owned_def
      sample_document_def table_ok_def row_inv_def new_doc_job_def)

theorem ingestion_keeps_citations_witness:
  "service_ok (snd (snd (run_next_ingestion_job idle_llm no_extractors ''data'' (\<lambda>_. None) () queued_db)))"
  by (rule ingestion_keeps_citations[OF queued_db_ok])

text \<open>
  C33: A pass that claims a job and returns leaves it settled: the job that was runnable is
  terminal without a lease; completed, its result counts exactly the chunks now stored for
  the document and the document is parsed; failed (by a parser, the model, a missing file
  or the attempt cap), it carries a reason and no result and the document has failed, so
  it is never stuck as uploaded.
\<close>

theorem ingestion_pass_settles_job:
  assumes "service_ok d" "run_next_ingestion_job llm ex data_dir fs w d = (Inr True, w', d')"
  shows "\<exists>i \<in> set (ingestion_jobs d). runnable (clock d) i
    \<and> (\<exists>k \<in> set (ingestion_jobs d'). job_id k = job_id i \<and> settled k d')"
  using assms
proof (cases rule: ingestion_pass)
  case (Capped j d1)
  note cl = claim_service[OF assms(1) Capped(1)]
  obtain i where i: "i \<in> set (ingestion_jobs d)" "runnable (clock d) i" "j = claim_row (clock d) i"
    using claim_ingestion_row[OF Capped(1)] by blast
  have own: "owned (documents d1) (job_tenant j) (dj_document j)" using job_owner cl(1,2) by (simp add: service_ok_def)
  have "job_result j = None \<and> job_error j \<noteq> None \<and> job_lease j = None"
    using Capped(2) unfolding i(3) by (auto simp: claim_row_def Let_def split: if_splits)
  then have "settled j d'"
    using Capped(2) status_row_exists[OF own] by (simp add: settled_def Capped(4))
  then show ?thesis using i cl(2) by (intro bexI[of _ i] conjI bexI[of _ j]) (simp_all add: Capped(4))
next
  case (Run j d1 d2)
  note cl = claim_service[OF assms(1) Run(1)]
  obtain i where i: "i \<in> set (ingestion_jobs d)" "runnable (clock d) i" "j = claim_row (clock d) i"
    using claim_ingestion_row[OF Run(1)] by blast
  have "service_ok d2" by (rule usage_frame_service[OF Run(3) cl(1)])
  moreover have "j \<in> set (ingestion_jobs d2)" using cl(2) by (simp add: usage_frame_simps[OF Run(3)])
  ultimately have "\<exists>k \<in> set (ingestion_jobs d'). job_id k = job_id j \<and> settled k d'"
    using ended_settled[OF Run(4)] by blast
  then show ?thesis using i by auto
qed simp

text \<open>Missing bytes: the job fails and so does the document.\<close>

theorem ingestion_pass_settles_job_witness:
  "\<exists>k \<in> set (ingestion_jobs (snd (snd (run_next_ingestion_job idle_llm no_extractors ''data'' (\<lambda>_. None) () queued_db)))).
     job_status k = Failed \<and> settled k (snd (snd (run_next_ingestion_job idle_llm no_extractors ''data'' (\<lambda>_. None) () queued_db)))"
proof -
  let ?p = "run_next_ingestion_job idle_llm no_extractors ''data'' (\<lambda>_. None) () queued_db"
  obtain r w' d' where p: "?p = (r, w', d')" by (metis prod_cases3)
  have "fst ?p = Inr True" "map job_status (ingestion_jobs (snd (snd ?p))) = [Failed]" by code_simp+
  then have e: "?p = (Inr True, w', d')" and st: "map job_status (ingestion_jobs d') = [Failed]" by (simp_all add: p)
  obtain k where k: "k \<in> set (ingestion_jobs d')" "settled k d'"
    using ingestion_pass_settles_job[OF queued_db_ok e] by blast
  have "job_status k \<in> set (map job_status (ingestion_jobs d'))" using k(1) by simp
  then have "job_status k = Failed" unfolding st by simp
  then show ?thesis using k by (auto simp: e)
qed

text \<open>
  The only failures a pass lets through are another number of vectors than chunks, and what
  the columns refuse: a vector of another dimension, a zero byte in the parsed text or in the
  error to record. Text, chunks and documents are then as before, and the job is left
  running under a fresh lease, to be retried.
\<close>

theorem ingestion_raises_only_on_bad_vectors:
  assumes "service_ok d" "run_next_ingestion_job llm ex data_dir fs w d = (Inl e, w', d')"
  shows "e \<in> {Value_Error ''every chunk needs exactly one embedding vector'', Data_Error}
    \<and> documents d' = documents d \<and> texts d' = texts d \<and> chunks d' = chunks d
    \<and> (\<exists>j \<in> set (ingestion_jobs d'). job_status j = Running \<and> job_lease j = Some (lease_until (clock d)))"
  using assms
proof (cases rule: ingestion_pass)
  case (Run j d1 d2)
  note cl = claim_service[OF assms(1) Run(1)] and fr = usage_frame_simps[OF Run(3)]
  obtain i where i: "j = claim_row (clock d) i" using claim_ingestion_row[OF Run(1)] by blast
  have "job_lease j = Some (lease_until (clock d))"
    using Run(2) unfolding i by (simp add: claim_row_status claim_row_lease split: if_splits)
  moreover have "d' = d2" "e \<in> {Value_Error ''every chunk needs exactly one embedding vector'', Data_Error}"
    using Run(4) by (auto simp: ended_def store_parse_def replace_text_def replace_with_embeddings_def split: if_splits sum.splits)
  ultimately show ?thesis using cl fr Run(2) by auto
qed simp_all

text \<open>A model that returns no vector for the one chunk of a stored text.\<close>

theorem ingestion_raises_only_on_bad_vectors_witness:
  "fst (run_next_ingestion_job idle_llm no_extractors ''data'' (\<lambda>_. Some ''Hi'') () queued_db)
     = Inl (Value_Error ''every chunk needs exactly one embedding vector'')
   \<and> texts (snd (snd (run_next_ingestion_job idle_llm no_extractors ''data'' (\<lambda>_. Some ''Hi'') () queued_db))) = texts queued_db"
proof -
  let ?p = "run_next_ingestion_job idle_llm no_extractors ''data'' (\<lambda>_. Some ''Hi'') () queued_db"
  have v: "fst ?p = Inl (Value_Error ''every chunk needs exactly one embedding vector'')" by code_simp
  obtain w' d' where e: "?p = (Inl (Value_Error ''every chunk needs exactly one embedding vector''), w', d')"
    using v by (cases ?p) auto
  from ingestion_raises_only_on_bad_vectors[OF queued_db_ok e] show ?thesis using v by (simp add: e)
qed

text \<open>
  C27: A parsed text with a zero byte, as a PDF can yield, is never stored: each pass that
  claims the job parses and embeds it, then raises at the database outside the handler's
  \<^verbatim>\<open>try\<close>, so that no failure is recorded. Texts, chunks and the document's status stay as
  they were, the usage of the embedding calls is kept, and the job still counts as running.
\<close>

theorem zero_byte_text_is_never_stored:
  assumes "service_ok d" "claim_ingestion d = (Some j, d1)" "job_status j = Running"
    and "find_document (job_tenant j) (dj_document j) d1 = Some r"
    and "ingest llm ex data_dir fs (sink no_request (job_tenant j) Use_Ingestion (Some (job_id j))) r w d1
      = (Inr (parsed, cs, vs), w', d2)"
    and "has_nul (doc_text parsed)"
  shows "run_next_ingestion_job llm ex data_dir fs w d = (Inl Data_Error, w', d2)
    \<and> texts d2 = texts d \<and> chunks d2 = chunks d \<and> documents d2 = documents d
    \<and> j \<in> set (ingestion_jobs d2) \<and> (\<exists>paid. usage_log d2 = usage_log d1 @ paid)"
proof -
  have fr: "usage_frame d1 d2" by (rule ingest_frame[OF logs_sink assms(5)])
  have "usage_log d2 = usage_log d1 @ drop (length (usage_log d1)) (usage_log d2)"
    using fr by (auto simp: usage_frame_def)
  moreover have "run_next_ingestion_job llm ex data_dir fs w d = (Inl Data_Error, w', d2)"
    using assms(6) unfolding run_next_ingestion_job_def assms(2)
    by (simp add: assms(3,4,5) replace_text_def)
  ultimately show ?thesis using claim_service[OF assms(1,2)] usage_frame_simps[OF fr] by auto
qed

text \<open>A PDF of one page, whose text is the letter A and a zero byte.\<close>

definition nul_page_pdf :: extractors where
  "nul_page_pdf = no_extractors\<lparr>pdf_pages := (\<lambda>_. Inr [Some [CHR ''A'', char_of (0 :: nat)]])\<rparr>"

definition queued_pdf_db :: db where
  "queued_pdf_db = queued_db\<lparr>documents := [(sample_document 2 ''h0'' None)\<lparr>doc_status := Uploaded, doc_mime := pdf_mime\<rparr>]\<rparr>"

lemma queued_pdf_ok: "service_ok queued_pdf_db"
  by (simp add: service_ok_def db_ok_def citations_ok_def queued_pdf_db_def queued_db_def empty_db_def table_oks ids_ok_def
      owned_def sample_document_def table_ok_def row_inv_def new_doc_job_def)

theorem zero_byte_text_is_never_stored_witness:
  "fst (run_next_ingestion_job idle_llm nul_page_pdf ''data'' (\<lambda>_. Some ''%PDF-1.7'') () queued_pdf_db) = Inl Data_Error
   \<and> texts (snd (snd (run_next_ingestion_job idle_llm nul_page_pdf ''data'' (\<lambda>_. Some ''%PDF-1.7'') () queued_pdf_db))) = []"
proof -
  let ?j = "the (fst (claim_ingestion queued_pdf_db))" and ?d1 = "snd (claim_ingestion queued_pdf_db)"
  let ?r = "the (find_document (job_tenant ?j) (dj_document ?j) ?d1)"
  let ?g = "ingest idle_llm nul_page_pdf ''data'' (\<lambda>_. Some ''%PDF-1.7'')
    (sink no_request (job_tenant ?j) Use_Ingestion (Some (job_id ?j))) ?r () ?d1"
  have "\<not> Option.is_none (fst (claim_ingestion queued_pdf_db))" by code_simp
  then have c: "claim_ingestion queued_pdf_db = (Some ?j, ?d1)"
    by (cases "claim_ingestion queued_pdf_db") (auto simp: Option.is_none_def)
  have run: "job_status ?j = Running" by code_simp
  have "\<not> Option.is_none (find_document (job_tenant ?j) (dj_document ?j) ?d1)" by code_simp
  then have f: "find_document (job_tenant ?j) (dj_document ?j) ?d1 = Some ?r" by (auto simp: Option.is_none_def)
  have g: "case fst ?g of Inl _ \<Rightarrow> False | Inr p \<Rightarrow> has_nul (doc_text (fst p))" by code_simp
  obtain parsed cs vs w' d2 where e: "?g = (Inr (parsed, cs, vs), w', d2)" "has_nul (doc_text parsed)"
    using g by (cases ?g) (auto split: sum.splits)
  have "texts queued_pdf_db = []" by (simp add: queued_pdf_db_def queued_db_def empty_db_def)
  then show ?thesis using zero_byte_text_is_never_stored[OF queued_pdf_ok c run f e] by simp
qed

end
