(* ===== verification/ReviewQueue.thy ===== *)
theory ReviewQueue
  imports Handlers
begin

section \<open>The review queue (app/services/review_queue.py, app/schemas/reviews.py)\<close>

text \<open>
  Low-confidence output becomes a pending item; a reviewer resolves it once. Confidences
  and thresholds are exact rationals.
\<close>

type_synonym review_candidate = "string \<times> json \<times> rat"

definition below_threshold :: "rat \<Rightarrow> rat \<Rightarrow> bool" where
  "below_threshold confidence threshold \<longleftrightarrow> confidence < threshold"

definition route_for_review :: "uuid \<Rightarrow> review_source \<Rightarrow> uuid \<Rightarrow> uuid \<Rightarrow> review_candidate list \<Rightarrow> rat \<Rightarrow> db \<Rightarrow> nat \<times> db" where
  "route_for_review tenant source i job candidates threshold d =
     (let routed = filter (\<lambda>c. below_threshold (snd (snd c)) threshold) candidates in
      if routed = [] then (0, d)
      else (let (rows, d') = create_review_items tenant source i job routed d in (length rows, d')))"

definition list_review_items :: "uuid \<Rightarrow> review_status option \<Rightarrow> db \<Rightarrow> review_item list" where
  "list_review_items tenant st d = list_review_rows tenant st d"

definition get_review_item :: "uuid \<Rightarrow> uuid \<Rightarrow> db \<Rightarrow> exn + review_item" where
  "get_review_item tenant i d =
     (case find_review_item tenant i d of None \<Rightarrow> Inl (Review_Item_Not_Found i) | Some r \<Rightarrow> Inr r)"

definition source_value :: "review_source \<Rightarrow> string" where
  "source_value s = (case s of Src_Extraction \<Rightarrow> ''extraction'' | Src_Impact_Mapping \<Rightarrow> ''impact_mapping'')"

definition status_value :: "review_status \<Rightarrow> string" where
  "status_value s = (case s of Pending \<Rightarrow> ''pending'' | Approved \<Rightarrow> ''approved'' | Edited \<Rightarrow> ''edited'' | Rejected \<Rightarrow> ''rejected'')"

text \<open>
  \<open>others\<close> is what other requests commit between the lookup and the guarded update. The
  update itself raises when the column cannot hold the corrected values.
\<close>

definition unstorable :: "json option \<Rightarrow> bool" where
  "unstorable corrected = (case corrected of None \<Rightarrow> False | Some v \<Rightarrow> json_nul v)"

definition resolve_review_item :: "request_context \<Rightarrow> (db \<Rightarrow> db) \<Rightarrow> uuid \<Rightarrow> uuid \<Rightarrow> review_status \<Rightarrow> json option \<Rightarrow> db
    \<Rightarrow> (exn + review_item) \<times> db" where
  "resolve_review_item ctx others tenant i disposition corrected d =
     (case get_review_item tenant i d of
        Inl e \<Rightarrow> (Inl e, d)
      | Inr _ \<Rightarrow>
          if unstorable corrected then (Inl Data_Error, others d) else
          (case resolve_row tenant i disposition corrected (others d) of
             (None, d') \<Rightarrow> (Inl (Review_Item_Already_Resolved i), d')
           | (Some r, d') \<Rightarrow>
               (Inr r, audit_record ctx tenant ''review_item.resolve'' ''review_item'' (Some i)
                  (Some (JObj [(''disposition'', JStr (status_value disposition)),
                               (''source'', JStr (source_value (ri_source r)))])) d')))"

text \<open>
  The request body: only three dispositions, and corrected values exactly with
  \<^verbatim>\<open>edited\<close>. \<open>None\<close>: rejected by validation.
\<close>

definition disposition_create :: "string \<Rightarrow> json option \<Rightarrow> (review_status \<times> json option) option" where
  "disposition_create disposition corrected =
     (case map_of [(''approved'', Approved), (''edited'', Edited), (''rejected'', Rejected)] disposition of
        None \<Rightarrow> None
      | Some st \<Rightarrow>
          if disposition = ''edited'' \<and> corrected = None then None
          else if disposition \<noteq> ''edited'' \<and> corrected \<noteq> None then None
          else Some (st, corrected))"

definition post_disposition :: "request_context \<Rightarrow> (db \<Rightarrow> db) \<Rightarrow> uuid \<Rightarrow> uuid \<Rightarrow> string \<Rightarrow> json option \<Rightarrow> db
    \<Rightarrow> (exn + review_item) option \<times> db" where
  "post_disposition ctx others tenant i disposition corrected d =
     (case disposition_create disposition corrected of
        None \<Rightarrow> (None, d)
      | Some (st, c) \<Rightarrow> (let (r, d') = resolve_review_item ctx others tenant i st c d in (Some r, d')))"

subsection \<open>Lemmas\<close>

lemma route_result:
  "route_for_review tenant source i job cands th d =
     (length (filter (\<lambda>c. snd (snd c) < th) cands),
      if filter (\<lambda>c. snd (snd c) < th) cands = [] then d
      else snd (create_review_items tenant source i job (filter (\<lambda>c. snd (snd c) < th) cands) d))"
proof -
  have "length (review_rows tenant source i job now n xs) = length xs" for now n and xs :: "review_candidate list"
    using arg_cong[OF review_rows_items[of tenant source i job now n xs], of length] by simp
  then show ?thesis
    by (simp add: route_for_review_def below_threshold_def create_review_items_def Let_def)
qed

lemma route_frame:
  assumes "route_for_review t s i j cs th d = (n, d')"
  shows "documents d' = documents d" "texts d' = texts d" "chunks d' = chunks d"
    "ingestion_jobs d' = ingestion_jobs d" "extraction_jobs d' = extraction_jobs d" "report_jobs d' = report_jobs d"
    "usage_log d' = usage_log d"
  using assms by (auto simp: route_result create_review_items_def Let_def)

lemma route_ok:
  assumes "db_ok d" "owned (documents d) t i" "route_for_review t s i j cs th d = (n, d')"
  shows "db_ok d'"
  using assms create_reviews_ok[OF assms(1,2)] by (auto simp: route_result split: if_splits)

lemma route_service:
  assumes "service_ok d" "owned (documents d) t i" "route_for_review t s i j cs th d = (n, d')"
  shows "service_ok d'"
  using assms route_ok[OF _ assms(2,3)] citations_same[OF route_frame(1-3)[OF assms(3)]]
  by (simp add: service_ok_def)

lemma find_review_Some:
  "find_review_item t i d = Some r \<Longrightarrow> r \<in> set (review_items d) \<and> ri_id r = i \<and> ri_tenant r = t"
  by (auto simp: find_review_item_def dest: find_Some_mem)

lemma resolve_row_None:
  "resolve_row t i st c d = (None, d') \<longleftrightarrow> d' = d \<and> (\<forall>r \<in> set (review_items d). ri_id r = i \<and> ri_tenant r = t \<longrightarrow> ri_status r \<noteq> Pending)"
proof -
  have "update_where p f xs = xs" if "\<forall>x \<in> set xs. \<not> p x" for p f and xs :: "review_item list"
    using that by (auto simp: update_where_def map_idI)
  then show ?thesis
    by (auto simp: resolve_row_def Let_def find_None_all)
qed

lemma resolve_row_Some:
  assumes "resolve_row t i st c d = (Some r', d')" "distinct (map ri_id (review_items d))"
  shows "\<exists>r \<in> set (review_items d). ri_id r = i \<and> ri_tenant r = t \<and> ri_status r = Pending
     \<and> r' = r\<lparr>ri_status := st, ri_corrected := c, ri_resolved := Some (clock d), ri_updated := clock d\<rparr>
     \<and> d' = d\<lparr>review_items := map (\<lambda>x. if x = r then r' else x) (review_items d)\<rparr>"
proof -
  let ?p = "\<lambda>r. ri_id r = i \<and> ri_tenant r = t \<and> ri_status r = Pending"
  let ?f = "\<lambda>r. r\<lparr>ri_status := st, ri_corrected := c, ri_resolved := Some (clock d), ri_updated := clock d\<rparr>"
  obtain r where r: "List.find ?p (review_items d) = Some r" "r' = ?f r"
      "d' = d\<lparr>review_items := update_where ?p ?f (review_items d)\<rparr>"
    using assms(1) by (auto simp: resolve_row_def Let_def)
  have m: "r \<in> set (review_items d)" "?p r" using find_Some_mem[OF r(1)] by simp_all
  have same: "?p x \<longleftrightarrow> x = r" if "x \<in> set (review_items d)" for x
    using distinct_key_eq[OF assms(2) that m(1)] m(2) by auto
  have "update_where ?p ?f (review_items d) = map (\<lambda>x. if x = r then r' else x) (review_items d)"
    unfolding update_where_def by (rule map_cong) (auto simp: same r(2))
  then show ?thesis using m r by (intro bexI[of _ r]) simp_all
qed

lemma resolve_row_SomeE:
  assumes "resolve_row t i st c d = (Some r', d')" "distinct (map ri_id (review_items d))"
  obtains r where "r \<in> set (review_items d)" "ri_status r = Pending" "ri_id r' = ri_id r" "ri_id r = i" "ri_tenant r = t"
    "ri_status r' = st" "ri_corrected r' = c" "ri_source r' = ri_source r"
    "d' = d\<lparr>review_items := map (\<lambda>x. if x = r then r' else x) (review_items d)\<rparr>"
proof -
  obtain r where r: "r \<in> set (review_items d)" "ri_id r = i" "ri_tenant r = t" "ri_status r = Pending"
    and e: "r' = r\<lparr>ri_status := st, ri_corrected := c, ri_resolved := Some (clock d), ri_updated := clock d\<rparr>"
    and d: "d' = d\<lparr>review_items := map (\<lambda>x. if x = r then r' else x) (review_items d)\<rparr>"
    using resolve_row_Some[OF assms] by (elim bexE conjE)
  have "ri_id r' = ri_id r" "ri_status r' = st" "ri_corrected r' = c" "ri_source r' = ri_source r" by (simp_all add: e)
  from that[OF r(1,4) this(1) r(2,3) this(2-4) d] show thesis .
qed

subsection \<open>The life of an item\<close>

text \<open>
  What happens to the review table: items are routed, resolved through the service by any
  tenant's reviewer, and deleted with their document or their report.
\<close>

inductive review_step :: "db \<Rightarrow> db \<Rightarrow> bool" where
  Route: "route_for_review t s i j cs th d = (n, d') \<Longrightarrow> owned (documents d) t i \<Longrightarrow> review_step d d'"
| Resolve: "resolve_review_item ctx (\<lambda>d. d) t i st c d = (r, d') \<Longrightarrow> review_step d d'"
| Tick: "review_step d (d\<lparr>clock := now\<rparr>)"
| Drop_Document: "review_step d (delete_reviews_for_document i d)"
| Drop_Jobs: "review_step d (delete_reviews_for_jobs js d)"

inductive review_run :: "db \<Rightarrow> db \<Rightarrow> bool" where
  Stop: "review_run d d"
| Step: "review_run d d' \<Longrightarrow> review_step d' d'' \<Longrightarrow> review_run d d''"

lemma delete_reviews_ok:
  "db_ok d \<Longrightarrow> db_ok (delete_reviews_for_document i d)" "db_ok d \<Longrightarrow> db_ok (delete_reviews_for_jobs js d)"
  by (auto simp: db_ok_def delete_reviews_for_document_def delete_reviews_for_jobs_def reviews_ok_def ids_ok_def
      row_simps distinct_delete_where)

lemma resolve_item_ok:
  assumes "db_ok (others d)" "db_ok d" "resolve_review_item ctx others t i st c d = (r, d')"
  shows "db_ok d'"
  using assms resolve_ok[OF assms(1), of t i st c]
  by (auto simp: resolve_review_item_def intro: audit_ok split: sum.splits prod.splits option.splits if_splits)

lemma review_step_ok: "review_step d d' \<Longrightarrow> db_ok d \<Longrightarrow> db_ok d'"
proof (induction rule: review_step.induct)
  case (Route t s i j cs th d n d')
  then show ?case using route_ok by blast
next
  case (Resolve ctx t i st c d r d')
  then show ?case using resolve_item_ok[of "\<lambda>d. d"] by blast
qed (auto simp: delete_reviews_ok, simp add: db_ok_def ids_ok_def)

text \<open>\<open>settled_as r d\<close>: the identifier of \<open>r\<close> is taken, and any item that has it is \<open>r\<close>.\<close>

definition settled_as :: "review_item \<Rightarrow> db \<Rightarrow> bool" where
  "settled_as r d \<longleftrightarrow> ri_id r < next_id d \<and> (\<forall>x \<in> set (review_items d). ri_id x = ri_id r \<longrightarrow> x = r)"

lemma review_step_ids: "review_step d d' \<Longrightarrow> next_id d \<le> next_id d'"
proof (induction rule: review_step.induct)
  case (Resolve ctx t i st c d r d')
  then show ?case
    by (auto simp: resolve_review_item_def resolve_row_def Let_def audit_record_def split: sum.splits option.splits if_splits)
qed (auto simp: route_result create_review_items_def Let_def delete_reviews_for_document_def delete_reviews_for_jobs_def
      split: if_splits)

lemma review_step_terminal:
  assumes "review_step d d'" "db_ok d" "settled_as r d" "ri_status r \<noteq> Pending"
  shows "settled_as r d'"
proof -
  have dist: "distinct (map ri_id (review_items d))" and ids: "ri_id r < next_id d"
    using assms(2,3) by (auto simp: db_ok_def reviews_ok_def settled_as_def)
  have old: "x = r" if "x \<in> set (review_items d)" "ri_id x = ri_id r" for x
    using that assms(3) by (simp add: settled_as_def)
  have "r' = r" if r': "r' \<in> set (review_items d')" "ri_id r' = ri_id r" for r'
    using assms(1)
  proof cases
    case (Route t s i j cs th n)
    let ?new = "review_rows t s i j (clock d) (next_id d) (filter (\<lambda>c. snd (snd c) < th) cs)"
    have "r' \<in> set (review_items d) \<or> r' \<in> set ?new"
      using Route(1) r'(1) by (auto simp: route_result create_review_items_def Let_def split: if_splits)
    moreover have "r' \<notin> set ?new"
    proof
      assume "r' \<in> set ?new"
      then have "ri_id r' \<in> ri_id ` set ?new" by blast
      also have "\<dots> = set (map ri_id ?new)" by simp
      also have "\<dots> = {next_id d ..< next_id d + length (filter (\<lambda>c. snd (snd c) < th) cs)}"
        by (simp only: review_rows_ids set_upt)
      finally show False using ids r'(2) by simp
    qed
    ultimately show ?thesis using old r'(2) by blast
  next
    case (Resolve ctx t i st c res)
    obtain q d1 where q: "resolve_row t i st c d = (q, d1)" by (cases "resolve_row t i st c d")
    have "review_items d' = review_items d \<or> review_items d' = review_items d1"
      using Resolve(1) q by (auto simp: resolve_review_item_def audit_record_def split: sum.splits option.splits if_splits)
    moreover have "r' = r" if m: "r' \<in> set (review_items d1)"
    proof (cases q)
      case None
      then show ?thesis using q m old r'(2) by (auto simp: resolve_row_None)
    next
      case (Some x')
      obtain x where x: "x \<in> set (review_items d)" "ri_status x = Pending" "ri_id x' = ri_id x"
          "d1 = d\<lparr>review_items := map (\<lambda>y. if y = x then x' else y) (review_items d)\<rparr>"
        using resolve_row_SomeE[OF q[unfolded Some] dist] .
      have "ri_id x \<noteq> ri_id r" using old[OF x(1)] x(2) assms(4) by auto
      moreover have "\<exists>y \<in> set (review_items d). r' = (if y = x then x' else y)" using m unfolding x(4) by auto
      ultimately have "r' \<in> set (review_items d)" using x(3) r'(2) by (metis (full_types))
      then show ?thesis using r'(2) by (rule old)
    qed
    ultimately show ?thesis using r' old by auto
  next
    case (Drop_Document i)
    then show ?thesis using r' old by (simp add: delete_reviews_for_document_def row_simps)
  next
    case (Drop_Jobs js)
    then show ?thesis using r' old by (simp add: delete_reviews_for_jobs_def row_simps split: if_splits)
  qed (use r' old in simp)
  then show ?thesis using ids review_step_ids[OF assms(1)] by (simp add: settled_as_def)
qed

lemma review_run_terminal:
  "review_run d d' \<Longrightarrow> db_ok d \<Longrightarrow> settled_as r d \<Longrightarrow> ri_status r \<noteq> Pending \<Longrightarrow> db_ok d' \<and> settled_as r d'"
  by (induction rule: review_run.induct) (blast intro: review_step_ok review_step_terminal)+

text \<open>The rows a call queues are the candidates strictly below the threshold.\<close>

definition routed_rows :: "uuid \<Rightarrow> uuid \<Rightarrow> uuid \<Rightarrow> review_candidate list \<Rightarrow> rat \<Rightarrow> review_item list \<Rightarrow> bool" where
  "routed_rows t i job candidates threshold new \<longleftrightarrow>
     map (\<lambda>r. (ri_type r, ri_payload r, ri_confidence r)) new = filter (\<lambda>(_, _, c). c < threshold) candidates
     \<and> list_all (\<lambda>r. ri_status r = Pending \<and> ri_job r = job \<and> ri_document r = i \<and> ri_tenant r = t) new"

lemma route_new:
  "case route_for_review t source i job candidates threshold d of (n, d') \<Rightarrow>
     \<exists>new. review_items d' = review_items d @ new \<and> length new = n \<and> routed_rows t i job candidates threshold new"
proof -
  let ?xs = "filter (\<lambda>c. snd (snd c) < threshold) candidates"
  let ?new = "review_rows t source i job (clock d) (next_id d) ?xs"
  have f: "filter (\<lambda>(_, _, c). c < threshold) candidates = ?xs" by (rule filter_cong) auto
  have i: "map (\<lambda>r. (ri_type r, ri_payload r, ri_confidence r)) ?new = ?xs" by (rule review_rows_items)
  have l: "length ?new = length ?xs" using arg_cong[OF i, of length] by simp
  have p: "list_all (\<lambda>r. ri_status r = Pending \<and> ri_job r = job \<and> ri_document r = i \<and> ri_tenant r = t) ?new"
    using review_rows_fields[of _ t source i job "clock d" "next_id d" ?xs] by (auto simp: list_all_iff)
  show ?thesis
  proof (cases "?xs = []")
    case True
    then show ?thesis by (simp add: route_result routed_rows_def f)
  next
    case False
    then show ?thesis using i l p
      by (auto simp: route_result create_review_items_def Let_def routed_rows_def f intro!: exI[of _ ?new])
  qed
qed

subsection \<open>Properties\<close>

text \<open>
  C32: A resolution is final: whatever is routed, resolved again, deleted or aged
  afterwards, an item that is approved, edited or rejected is either still exactly that
  row, status, corrected values and time stamps included, or has been deleted.
\<close>

theorem resolution_is_terminal:
  assumes "review_run d d'" "db_ok d" "r \<in> set (review_items d)" "ri_status r \<noteq> Pending"
    and "r' \<in> set (review_items d')" "ri_id r' = ri_id r"
  shows "r' = r"
proof -
  have dist: "distinct (map ri_id (review_items d))" using assms(2) by (simp add: db_ok_def reviews_ok_def)
  have "settled_as r d"
    using assms(2,3) distinct_key_eq[OF dist _ assms(3)] by (auto simp: settled_as_def db_ok_def ids_ok_def)
  then have "settled_as r d'" using review_run_terminal[OF assms(1,2)] assms(4) by blast
  then show ?thesis using assms(5,6) by (simp add: settled_as_def)
qed

text \<open>One item, approved, that somebody then tries to reject.\<close>

definition approved_item :: review_item where
  "approved_item = \<lparr>ri_id = 3, ri_tenant = 5, ri_source = Src_Extraction, ri_type = ''obligation'', ri_document = 2,
     ri_job = 9, ri_payload = JNull, ri_confidence = 1 / 2, ri_status = Approved, ri_corrected = None,
     ri_resolved = Some 7, ri_created = 0, ri_updated = 7\<rparr>"

definition approved_db :: db where
  "approved_db = empty_db\<lparr>documents := [sample_document 2 ''h0'' None], review_items := [approved_item], next_id := 4\<rparr>"

theorem resolution_is_terminal_witness:
  "approved_item \<in> set (review_items (snd (resolve_review_item no_request (\<lambda>d. d) 5 3 Rejected None approved_db)))
   \<and> list_all (\<lambda>r'. r' = approved_item) (review_items (snd (resolve_review_item no_request (\<lambda>d. d) 5 3 Rejected None approved_db)))"
proof -
  let ?d = "snd (resolve_review_item no_request (\<lambda>d. d) 5 3 Rejected None approved_db)"
  have ok: "db_ok approved_db"
    by (simp add: db_ok_def approved_db_def approved_item_def empty_db_def table_oks ids_ok_def owned_def
        sample_document_def table_ok_def)
  have run: "review_run approved_db ?d"
    using review_run.Step[OF review_run.Stop review_step.Resolve[of no_request 5 3 Rejected None approved_db]]
    by (metis surjective_pairing)
  have items: "review_items ?d = [approved_item]" by code_simp
  have "r' = approved_item" if "r' \<in> set (review_items ?d)" for r'
    by (rule resolution_is_terminal[OF run ok _ _ that]) (use that items in \<open>simp_all add: approved_db_def approved_item_def\<close>)
  then show ?thesis by (simp add: items list_all_iff)
qed



text \<open>
  Routing queues exactly the candidates strictly below the threshold, in their order,
  as pending items of the job and document; it returns how many, and a candidate at the
  threshold is accepted.
\<close>

theorem routing_selects_strictly_below:
  "case route_for_review t source i job candidates threshold d of (n, d') \<Rightarrow>
     \<exists>new. review_items d' = review_items d @ new \<and> length new = n
       \<and> map (\<lambda>r. (ri_type r, ri_payload r, ri_confidence r)) new = filter (\<lambda>(_, _, c). c < threshold) candidates
       \<and> list_all (\<lambda>r. ri_status r = Pending \<and> ri_job r = job \<and> ri_document r = i \<and> ri_tenant r = t) new"
  using route_new[where t = t and source = source and i = i and job = job and d = d
      and candidates = candidates and threshold = threshold]
  by (simp add: routed_rows_def)

end
