(* ===== verification/Search.thy ===== *)
theory Search
  imports Handlers "HOL-Library.AList" "HOL-Library.Multiset"
begin

section \<open>Hybrid search (app/services/search.py, document_chunks.py rankings)\<close>

text \<open>
  Two rankings of a tenant's chunks, fused by Reciprocal Rank Fusion. The vector distance,
  the text match and how Postgres breaks ties are not part of the repository: the record
  \<open>engines\<close> holds the orders the two \<^verbatim>\<open>ORDER BY\<close> clauses produce and the match
  predicate; \<open>orders_rows\<close> says that ordering rows neither adds nor drops one.
\<close>

subsection \<open>Reciprocal rank fusion\<close>

definition rrf_k :: nat where
  "rrf_k = 60"

definition candidate_depth_factor :: nat where
  "candidate_depth_factor = 2"

text \<open>The two dictionaries, in insertion order, as one ranking is folded in.\<close>

type_synonym 'a rrf_state = "('a \<times> rat) list \<times> ('a \<times> nat) list"

definition rrf_add :: "nat \<Rightarrow> 'a rrf_state \<Rightarrow> nat \<times> 'a \<Rightarrow> 'a rrf_state" where
  "rrf_add k st ri = (case (st, ri) of ((scores, first_seen), (rank, item)) \<Rightarrow>
     (AList.update item ((case map_of scores item of None \<Rightarrow> 0 | Some s \<Rightarrow> s) + 1 / of_nat (k + rank)) scores,
      if map_of first_seen item = None then first_seen @ [(item, length first_seen)] else first_seen))"

definition rrf_scores :: "nat \<Rightarrow> 'a list list \<Rightarrow> 'a rrf_state" where
  "rrf_scores k rankings = foldl (\<lambda>st ranking. foldl (rrf_add k) st (enumerate 1 ranking)) ([], []) rankings"

definition rrf_fuse :: "'a list list \<Rightarrow> nat \<Rightarrow> ('a \<times> rat) list" where
  "rrf_fuse rankings k =
     (let (scores, first_seen) = rrf_scores k rankings;
          score = (\<lambda>i. the (map_of scores i)); seen = (\<lambda>i. the (map_of first_seen i));
          ordered = sort_key (\<lambda>i. (- score i, seen i)) (map fst scores)
      in map (\<lambda>i. (i, score i)) ordered)"

subsection \<open>Rankings\<close>

record engines =
  vector_order :: "rat list \<Rightarrow> document_chunk list \<Rightarrow> document_chunk list"
  text_matches :: "string \<Rightarrow> document_chunk \<Rightarrow> bool"
  text_order :: "string \<Rightarrow> document_chunk list \<Rightarrow> document_chunk list"

definition orders_rows :: "engines \<Rightarrow> bool" where
  "orders_rows en \<longleftrightarrow> (\<forall>v xs. mset (vector_order en v xs) = mset xs) \<and> (\<forall>q xs. mset (text_order en q xs) = mset xs)"

definition owning_document :: "db \<Rightarrow> document_chunk \<Rightarrow> document option" where
  "owning_document d c = List.find (\<lambda>r. doc_id r = ck_document c) (documents d)"

text \<open>The join with the owning document drops a chunk without one.\<close>

definition joined :: "db \<Rightarrow> document_chunk list \<Rightarrow> (document_chunk \<times> document) list" where
  "joined d cs = map (\<lambda>c. (c, the (owning_document d c))) cs"

definition in_scope :: "db \<Rightarrow> uuid \<Rightarrow> uuid option \<Rightarrow> document_chunk \<Rightarrow> bool" where
  "in_scope d tenant document c \<longleftrightarrow> ck_tenant c = tenant \<and> (document = None \<or> document = Some (ck_document c))
     \<and> owning_document d c \<noteq> None"

definition rank_by_similarity :: "engines \<Rightarrow> uuid \<Rightarrow> rat list \<Rightarrow> nat \<Rightarrow> uuid option \<Rightarrow> db
    \<Rightarrow> exn + (document_chunk \<times> document) list" where
  "rank_by_similarity en tenant embedding limit document d =
     (let rows = select_where (\<lambda>c. in_scope d tenant document c \<and> ck_embedding c \<noteq> None) (chunks d) in
      if list_ex (\<lambda>c. length (the (ck_embedding c)) \<noteq> length embedding) rows then Inl Data_Error
      else Inr (joined d (take limit (vector_order en embedding rows))))"

definition rank_by_full_text :: "engines \<Rightarrow> uuid \<Rightarrow> string \<Rightarrow> nat \<Rightarrow> uuid option \<Rightarrow> db
    \<Rightarrow> exn + (document_chunk \<times> document) list" where
  "rank_by_full_text en tenant query limit document d =
     (if has_nul query then Inl Data_Error
      else Inr (joined d (take limit (text_order en query
        (select_where (\<lambda>c. in_scope d tenant document c \<and> text_matches en query c) (chunks d))))))"

subsection \<open>Search\<close>

record search_hit =
  hit_document :: uuid
  hit_sha :: string
  hit_filename :: string
  hit_chunk :: uuid
  hit_ordinal :: nat
  hit_text :: string
  hit_start :: nat
  hit_end :: nat
  hit_score :: rat

definition make_hit :: "document_chunk \<times> document \<Rightarrow> rat \<Rightarrow> search_hit" where
  "make_hit cr score = (case cr of (c, r) \<Rightarrow>
     \<lparr>hit_document = doc_id r, hit_sha = doc_sha r, hit_filename = doc_filename r, hit_chunk = ck_id c,
      hit_ordinal = ck_ordinal c, hit_text = ck_text c, hit_start = ck_start c, hit_end = ck_end c, hit_score = score\<rparr>)"

text \<open>Unpacking \<^verbatim>\<open>(query_embedding,)\<close> from another number of vectors is a value error.\<close>

definition single_vector :: "rat list list \<Rightarrow> exn + rat list" where
  "single_vector vs = (case vs of
     [] \<Rightarrow> Inl (Value_Error ''not enough values to unpack (expected 1, got 0)'')
   | [v] \<Rightarrow> Inr v
   | _ \<Rightarrow> Inl (Value_Error ''too many values to unpack (expected 1)''))"

definition fuse_hits :: "nat \<Rightarrow> (document_chunk \<times> document) list \<Rightarrow> (document_chunk \<times> document) list \<Rightarrow> search_hit list" where
  "fuse_hits limit vector_ranked fts_ranked =
     (let by_id = map_of (rev (map (\<lambda>cr. (ck_id (fst cr), cr)) (vector_ranked @ fts_ranked)));
          fused = take limit (rrf_fuse [map (ck_id \<circ> fst) vector_ranked, map (ck_id \<circ> fst) fts_ranked] rrf_k)
      in map (\<lambda>(i, score). make_hit (the (by_id i)) score) fused)"

definition hybrid_hits :: "'w openai \<Rightarrow> engines \<Rightarrow> usage_sink \<Rightarrow> uuid \<Rightarrow> uuid option \<Rightarrow> string \<Rightarrow> nat \<Rightarrow> 'w \<Rightarrow> db
    \<Rightarrow> (exn + search_hit list) \<times> 'w \<times> db" where
  "hybrid_hits llm en snk tenant document query limit w d =
     (case embed llm [query] w of
        (Inl e, w') \<Rightarrow> (Inl e, w', d)
      | (Inr (vectors, u), w') \<Rightarrow>
          (let d' = snk u d; depth = limit * candidate_depth_factor in
           (case single_vector vectors of
              Inl e \<Rightarrow> (Inl e, w', d')
            | Inr v \<Rightarrow>
                (case rank_by_similarity en tenant v depth document d' of
                   Inl e \<Rightarrow> (Inl e, w', d')
                 | Inr vector_ranked \<Rightarrow>
                     (case rank_by_full_text en tenant query depth document d' of
                        Inl e \<Rightarrow> (Inl e, w', d')
                      | Inr fts_ranked \<Rightarrow> (Inr (fuse_hits limit vector_ranked fts_ranked), w', d'))))))"

definition search :: "request_context \<Rightarrow> 'w openai \<Rightarrow> engines \<Rightarrow> uuid \<Rightarrow> string \<Rightarrow> nat \<Rightarrow> 'w \<Rightarrow> db
    \<Rightarrow> (exn + search_hit list) \<times> 'w \<times> db" where
  "search ctx llm en tenant query limit w d =
     hybrid_hits llm en (sink ctx tenant Use_Search None) tenant None query limit w d"

definition search_document :: "'w openai \<Rightarrow> engines \<Rightarrow> usage_sink \<Rightarrow> uuid \<Rightarrow> uuid \<Rightarrow> string \<Rightarrow> nat \<Rightarrow> 'w \<Rightarrow> db
    \<Rightarrow> (exn + search_hit list) \<times> 'w \<times> db" where
  "search_document llm en snk tenant i query limit w d =
     hybrid_hits llm en snk tenant (Some i) query limit w d"

subsection \<open>Lemmas: fusion\<close>

definition ranks_score :: "nat \<Rightarrow> (nat \<times> 'a) list \<Rightarrow> 'a \<Rightarrow> rat" where
  "ranks_score k rs i = sum_list (map (\<lambda>(rank, x). if x = i then 1 / of_nat (k + rank) else 0) rs)"

definition first_seen_order :: "'a list \<Rightarrow> 'a list" where
  "first_seen_order xs = rev (remdups (rev xs))"

lemma first_seen_order_snoc:
  "first_seen_order (xs @ [x]) = (if x \<in> set xs then first_seen_order xs else first_seen_order xs @ [x])"
  by (simp add: first_seen_order_def)

lemma set_first_seen [simp]: "set (first_seen_order xs) = set xs"
  by (simp add: first_seen_order_def)

lemma distinct_first_seen [simp]: "distinct (first_seen_order xs)"
  by (simp add: first_seen_order_def)

definition rrf_ok :: "nat \<Rightarrow> (nat \<times> 'a) list \<Rightarrow> 'a rrf_state \<Rightarrow> bool" where
  "rrf_ok k rs st \<longleftrightarrow> map fst (fst st) = first_seen_order (map snd rs)
     \<and> snd st = zip (first_seen_order (map snd rs)) [0 ..< length (first_seen_order (map snd rs))]
     \<and> (\<forall>i \<in> set (map snd rs). map_of (fst st) i = Some (ranks_score k rs i))"

lemma map_fst_update:
  "map fst (AList.update i v al) = (if i \<in> set (map fst al) then map fst al else map fst al @ [i])"
  by (induction al) auto

lemma ranks_score_absent: "i \<notin> set (map snd rs) \<Longrightarrow> ranks_score k rs i = 0"
  by (induction rs) (auto simp: ranks_score_def)

lemma rrf_ok_add:
  assumes "rrf_ok k rs st"
  shows "rrf_ok k (rs @ [(rank, item)]) (rrf_add k st (rank, item))"
proof -
  obtain scores seen where st: "st = (scores, seen)" by (cases st)
  let ?xs = "map snd rs"
  have keys: "map fst scores = first_seen_order ?xs" and sn: "seen = zip (first_seen_order ?xs) [0 ..< length (first_seen_order ?xs)]"
    and val: "i \<in> set ?xs \<Longrightarrow> map_of scores i = Some (ranks_score k rs i)" for i
    using assms by (auto simp only: rrf_ok_def st fst_conv snd_conv)
  have dom: "fst ` set scores = set ?xs" using arg_cong[OF keys, of set] by simp
  have dom2: "map_of seen item = None \<longleftrightarrow> item \<notin> set ?xs"
    unfolding sn map_of_eq_None_iff by (simp flip: set_map)
  have len: "length seen = length (first_seen_order ?xs)" by (simp add: sn)
  have old: "(case map_of scores item of None \<Rightarrow> 0 | Some s \<Rightarrow> s) = ranks_score k rs item"
  proof (cases "item \<in> set ?xs")
    case False
    then have "map_of scores item = None" using dom by (simp add: map_of_eq_None_iff)
    then show ?thesis using ranks_score_absent[OF False, of k] by simp
  qed (simp add: val)
  have "map fst (AList.update item v scores) = first_seen_order (?xs @ [item])" for v
    using dom by (simp add: map_fst_update keys first_seen_order_snoc)
  moreover have "(if map_of seen item = None then seen @ [(item, length seen)] else seen)
      = zip (first_seen_order (?xs @ [item])) [0 ..< length (first_seen_order (?xs @ [item]))]"
    using dom2 len by (simp add: first_seen_order_snoc sn)
  moreover have "map_of (AList.update item (ranks_score k rs item + 1 / of_nat (k + rank)) scores) i
      = Some (ranks_score k (rs @ [(rank, item)]) i)" if "i \<in> set (?xs @ [item])" for i
    using that val[of i] by (auto simp: update_conv ranks_score_def)
  ultimately show ?thesis by (simp add: rrf_ok_def rrf_add_def st old)
qed

lemma rrf_ok_fold: "rrf_ok k rs st \<Longrightarrow> rrf_ok k (rs @ qs) (foldl (rrf_add k) st qs)"
proof (induction qs arbitrary: rs st)
  case (Cons q qs)
  obtain rank item where q: "q = (rank, item)" by (cases q)
  from Cons.IH[OF rrf_ok_add[OF Cons.prems, of rank item]] show ?case by (simp add: q)
qed simp

definition all_ranks :: "'a list list \<Rightarrow> (nat \<times> 'a) list" where
  "all_ranks rankings = concat (map (enumerate 1) rankings)"

lemma rrf_scores_ok: "rrf_ok k (all_ranks rankings) (rrf_scores k rankings)"
proof -
  have "rrf_ok k (rs @ all_ranks rankings) (foldl (\<lambda>st ranking. foldl (rrf_add k) st (enumerate 1 ranking)) st rankings)"
    if "rrf_ok k rs st" for rs st
    using that
  proof (induction rankings arbitrary: rs st)
    case (Cons r rankings)
    from Cons.IH[OF rrf_ok_fold[OF Cons.prems, of "enumerate 1 r"]] show ?case by (simp add: all_ranks_def)
  qed (simp add: all_ranks_def)
  moreover have "rrf_ok k [] ([], [])" by (simp add: rrf_ok_def first_seen_order_def)
  ultimately show ?thesis unfolding rrf_scores_def by fastforce
qed

lemma all_ranks_items: "map snd (all_ranks rankings) = concat rankings"
  by (induction rankings) (simp_all add: all_ranks_def)

text \<open>The reference: every item once, in order of first appearance, then by score, stably.\<close>

definition rrf_score :: "nat \<Rightarrow> 'a list list \<Rightarrow> 'a \<Rightarrow> rat" where
  "rrf_score k rankings i = sum_list (map (\<lambda>ranking.
     sum_list (map (\<lambda>n. if ranking ! n = i then 1 / of_nat (k + (n + 1)) else 0) [0 ..< length ranking])) rankings)"

lemma ranks_score_all: "ranks_score k (all_ranks rankings) i = rrf_score k rankings i"
proof (induction rankings)
  case (Cons r rankings)
  have "enumerate 1 r = map (\<lambda>n. (n + 1, r ! n)) [0 ..< length r]"
    by (rule nth_equalityI) (simp_all add: nth_enumerate_eq)
  then have "ranks_score k (enumerate 1 r) i
      = sum_list (map (\<lambda>n. if r ! n = i then 1 / of_nat (k + (n + 1)) else 0) [0 ..< length r])"
    by (simp add: ranks_score_def comp_def add_ac cong: if_cong)
  moreover have "ranks_score k (all_ranks (r # rankings)) i = ranks_score k (enumerate 1 r) i + ranks_score k (all_ranks rankings) i"
    by (simp add: ranks_score_def all_ranks_def)
  ultimately show ?case using Cons by (simp add: rrf_score_def)
qed (simp add: ranks_score_def all_ranks_def rrf_score_def)

text \<open>Sorting by a score and then by position is the stable sort by the score.\<close>

lemma sort_key_tie:
  fixes f :: "'a \<Rightarrow> 'k::linorder" and g :: "'a \<Rightarrow> nat"
  assumes "sorted (map g xs)" "distinct (map g xs)"
  shows "sort_key (\<lambda>x. (f x, g x)) xs = sort_key f xs"
proof -
  let ?ys = "sort_key (\<lambda>x. (f x, g x)) xs"
  have srt: "sorted_wrt (\<lambda>a b. (f a, g a) \<le> (f b, g b)) ?ys"
    using sorted_sort_key[of "\<lambda>x. (f x, g x)" xs] by (simp add: sorted_map)
  have inj: "inj_on g (set xs)" using assms(2) by (simp add: distinct_map)
  have same: "filter (\<lambda>x. f k = f x) ?ys = filter (\<lambda>x. f k = f x) xs" for k
  proof (rule map_sorted_distinct_set_unique[of g])
    show "inj_on g (set (filter (\<lambda>x. f k = f x) ?ys) \<union> set (filter (\<lambda>x. f k = f x) xs))"
      using inj by (auto intro: inj_on_subset)
    have "sorted_wrt (\<lambda>a b. (f a, g a) \<le> (f b, g b)) (filter (\<lambda>x. f k = f x) ?ys)"
      by (rule sorted_wrt_filter[OF srt])
    then have "sorted_wrt (\<lambda>a b. g a \<le> g b) (filter (\<lambda>x. f k = f x) ?ys)"
      by (rule sorted_wrt_mono_rel[rotated]) auto
    then show "sorted (map g (filter (\<lambda>x. f k = f x) ?ys))" by (simp add: sorted_map)
    show "sorted (map g (filter (\<lambda>x. f k = f x) xs))" using assms(1) by (rule sorted_filter)
    show "distinct (map g (filter (\<lambda>x. f k = f x) ?ys))" "distinct (map g (filter (\<lambda>x. f k = f x) xs))"
      using assms(2) by (auto simp: distinct_map intro: inj_on_subset[OF inj])
  qed simp
  have "sorted_wrt (\<lambda>a b. f a \<le> f b) ?ys" using srt by (rule sorted_wrt_mono_rel[rotated]) auto
  then have "sorted (map f ?ys)" by (simp add: sorted_map)
  from properties_for_sort_key[OF _ same this] show ?thesis by simp
qed

lemma sort_key_eq_on:
  assumes "\<And>x. x \<in> set xs \<Longrightarrow> f x = g x"
  shows "sort_key f xs = sort_key g xs"
proof (rule properties_for_sort_key)
  fix k assume k: "k \<in> set (sort_key g xs)"
  have "filter (\<lambda>x. f k = f x) (sort_key g xs) = filter (\<lambda>x. g x = g k) (sort_key g xs)"
    using k assms by (intro filter_cong) auto
  also have "\<dots> = filter (\<lambda>x. g x = g k) xs" by (rule sort_key_stable)
  also have "\<dots> = filter (\<lambda>x. f k = f x) xs" using k assms by (intro filter_cong) auto
  finally show "filter (\<lambda>x. f k = f x) (sort_key g xs) = filter (\<lambda>x. f k = f x) xs" .
next
  have "map f (sort_key g xs) = map g (sort_key g xs)" using assms by (intro map_cong) auto
  then show "sorted (map f (sort_key g xs))" by (simp only: sorted_sort_key)
qed simp

lemma zip_upt_position:
  assumes "distinct xs" "n < length xs"
  shows "map_of (zip xs [0 ..< length xs]) (xs ! n) = Some n"
  using assms by (subst map_of_zip_nth) simp_all

lemma rrf_fuse_eq:
  "rrf_fuse rankings k = map (\<lambda>i. (i, rrf_score k rankings i))
     (sort_key (\<lambda>i. - rrf_score k rankings i) (first_seen_order (concat rankings)))"
proof -
  obtain scores seen where st: "rrf_scores k rankings = (scores, seen)" by (cases "rrf_scores k rankings")
  let ?is = "first_seen_order (concat rankings)"
  have ok: "rrf_ok k (all_ranks rankings) (scores, seen)" using rrf_scores_ok[of k rankings] by (simp add: st)
  have keys: "map fst scores = ?is" and sn: "seen = zip ?is [0 ..< length ?is]"
    and val: "i \<in> set ?is \<Longrightarrow> map_of scores i = Some (rrf_score k rankings i)" for i
    using ok by (auto simp only: rrf_ok_def all_ranks_items ranks_score_all fst_conv snd_conv set_first_seen)
  let ?g = "\<lambda>i. the (map_of seen i)"
  have g: "map ?g ?is = [0 ..< length ?is]"
    by (rule nth_equalityI) (simp_all add: sn zip_upt_position)
  have "sort_key (\<lambda>i. (- the (map_of scores i), ?g i)) ?is = sort_key (\<lambda>i. (- rrf_score k rankings i, ?g i)) ?is"
    by (rule sort_key_eq_on) (simp add: val)
  also have "\<dots> = sort_key (\<lambda>i. - rrf_score k rankings i) ?is"
    by (rule sort_key_tie) (simp_all only: g sorted_upt distinct_upt)
  finally show ?thesis
    by (simp add: rrf_fuse_def st keys val)
qed

subsection \<open>Lemmas: hits\<close>

lemma rrf_fuse_items: "set (map fst (rrf_fuse rankings k)) = set (concat rankings)"
  and rrf_fuse_distinct: "distinct (map fst (rrf_fuse rankings k))"
  and rrf_fuse_sorted: "sorted (map (\<lambda>x. - snd x) (rrf_fuse rankings k))"
  and rrf_fuse_score: "(i, s) \<in> set (rrf_fuse rankings k) \<Longrightarrow> s = rrf_score k rankings i"
proof -
  show "set (map fst (rrf_fuse rankings k)) = set (concat rankings)" "distinct (map fst (rrf_fuse rankings k))"
    by (simp_all add: rrf_fuse_eq comp_def)
  have "map (\<lambda>x. - snd x) (rrf_fuse rankings k)
      = map (\<lambda>i. - rrf_score k rankings i) (sort_key (\<lambda>i. - rrf_score k rankings i) (first_seen_order (concat rankings)))"
    by (simp add: rrf_fuse_eq comp_def)
  then show "sorted (map (\<lambda>x. - snd x) (rrf_fuse rankings k))" by (simp only: sorted_sort_key)
  show "s = rrf_score k rankings i" if "(i, s) \<in> set (rrf_fuse rankings k)"
    using that by (auto simp: rrf_fuse_eq)
qed

lemma map_of_rev_keyed:
  assumes "i \<in> key ` set xs"
  shows "\<exists>x \<in> set xs. map_of (rev (map (\<lambda>x. (key x, x)) xs)) i = Some x \<and> key x = i"
proof -
  have "map_of (rev (map (\<lambda>x. (key x, x)) xs)) i \<noteq> None"
    using assms by (simp add: map_of_eq_None_iff image_image)
  then obtain x where x: "map_of (rev (map (\<lambda>x. (key x, x)) xs)) i = Some x" by auto
  from map_of_SomeD[OF x] show ?thesis using x by auto
qed

lemma fuse_hits_spec:
  assumes "hits = fuse_hits limit vr fr"
  shows "length hits \<le> limit" and "distinct (map hit_chunk hits)" and "sorted (map (\<lambda>h. - hit_score h) hits)"
    and "h \<in> set hits \<Longrightarrow> \<exists>cr \<in> set (vr @ fr). h = make_hit cr (rrf_score rrf_k [map (ck_id \<circ> fst) vr, map (ck_id \<circ> fst) fr] (ck_id (fst cr)))"
proof -
  let ?rk = "[map (ck_id \<circ> fst) vr, map (ck_id \<circ> fst) fr]"
  let ?by = "map_of (rev (map (\<lambda>cr. (ck_id (fst cr), cr)) (vr @ fr)))"
  let ?f = "take limit (rrf_fuse ?rk rrf_k)"
  have hits: "hits = map (\<lambda>(i, score). make_hit (the (?by i)) score) ?f" by (simp add: assms fuse_hits_def)
  have item: "\<exists>cr \<in> set (vr @ fr). ?by i = Some cr \<and> ck_id (fst cr) = i \<and> s = rrf_score rrf_k ?rk i"
    if "(i, s) \<in> set ?f" for i s
  proof -
    have m: "(i, s) \<in> set (rrf_fuse ?rk rrf_k)" using that by (rule in_set_takeD)
    then have "i \<in> set (concat ?rk)" using rrf_fuse_items[of ?rk rrf_k] by force
    then have "i \<in> (\<lambda>cr. ck_id (fst cr)) ` set (vr @ fr)" by auto
    from map_of_rev_keyed[OF this] rrf_fuse_score[OF m] show ?thesis by blast
  qed
  show "length hits \<le> limit" by (simp add: hits)
  have keys: "hit_chunk (make_hit (the (?by i)) s) = i" if m: "(i, s) \<in> set ?f" for i s
  proof -
    obtain cr where "?by i = Some cr" "ck_id (fst cr) = i" using item[OF m] by blast
    then show ?thesis by (cases cr) (simp only: option.sel make_hit_def prod.case search_hit.simps fst_conv)
  qed
  have "map hit_chunk hits = map fst ?f" unfolding hits map_map
  proof (rule map_cong[OF refl])
    fix x assume m: "x \<in> set ?f"
    obtain i s where x: "x = (i, s)" by (rule prod.exhaust)
    show "(hit_chunk \<circ> (\<lambda>(i, score). make_hit (the (?by i)) score)) x = fst x"
      unfolding comp_def x prod.case fst_conv by (rule keys[OF m[unfolded x]])
  qed
  then show "distinct (map hit_chunk hits)" using rrf_fuse_distinct[of ?rk rrf_k] by (simp add: take_map[symmetric])
  have "map (\<lambda>h. - hit_score h) hits = map (\<lambda>x. - snd x) ?f"
    unfolding hits map_map by (rule map_cong) (auto simp: make_hit_def split: prod.splits)
  then show "sorted (map (\<lambda>h. - hit_score h) hits)"
    using sorted_wrt_take[OF rrf_fuse_sorted[of ?rk rrf_k]] by (simp add: take_map[symmetric])
  show "\<exists>cr \<in> set (vr @ fr). h = make_hit cr (rrf_score rrf_k ?rk (ck_id (fst cr)))" if h: "h \<in> set hits"
  proof -
    obtain x where x: "x \<in> set ?f" "h = (\<lambda>(i, score). make_hit (the (?by i)) score) x"
      using h unfolding hits set_map by (elim imageE)
    obtain i s where e: "x = (i, s)" by (rule prod.exhaust)
    obtain cr where cr: "cr \<in> set (vr @ fr)" "?by i = Some cr" "ck_id (fst cr) = i" "s = rrf_score rrf_k ?rk i"
      using item[OF x(1)[unfolded e]] by (elim bexE conjE)
    have "h = make_hit cr (rrf_score rrf_k ?rk (ck_id (fst cr)))"
      unfolding x(2) e prod.case cr(2) option.sel cr(3) cr(4) ..
    with cr(1) show ?thesis by blast
  qed
qed

lemma joined_mem:
  assumes "cr \<in> set (joined d cs)" "\<forall>c \<in> set cs. c \<in> set (chunks d) \<and> in_scope d tenant document c"
  shows "fst cr \<in> set (chunks d) \<and> in_scope d tenant document (fst cr) \<and> owning_document d (fst cr) = Some (snd cr)"
  using assms by (auto simp: joined_def in_scope_def)

lemma ranked_mem:
  assumes "orders_rows en"
  shows "rank_by_similarity en tenant v n document d = Inr vr \<Longrightarrow> cr \<in> set vr \<Longrightarrow>
      fst cr \<in> set (chunks d) \<and> in_scope d tenant document (fst cr) \<and> owning_document d (fst cr) = Some (snd cr)"
    and "rank_by_full_text en tenant q n document d = Inr fr \<Longrightarrow> cr \<in> set fr \<Longrightarrow>
      fst cr \<in> set (chunks d) \<and> in_scope d tenant document (fst cr) \<and> owning_document d (fst cr) = Some (snd cr)"
proof -
  have v: "set (vector_order en v xs) = set xs" for v xs using assms by (metis orders_rows_def set_mset_mset)
  have t: "set (text_order en q xs) = set xs" for q xs using assms by (metis orders_rows_def set_mset_mset)
  show "rank_by_similarity en tenant v n document d = Inr vr \<Longrightarrow> cr \<in> set vr \<Longrightarrow>
      fst cr \<in> set (chunks d) \<and> in_scope d tenant document (fst cr) \<and> owning_document d (fst cr) = Some (snd cr)"
    by (rule joined_mem) (auto simp: rank_by_similarity_def Let_def row_simps v split: if_splits dest!: in_set_takeD)
  show "rank_by_full_text en tenant q n document d = Inr fr \<Longrightarrow> cr \<in> set fr \<Longrightarrow>
      fst cr \<in> set (chunks d) \<and> in_scope d tenant document (fst cr) \<and> owning_document d (fst cr) = Some (snd cr)"
    by (rule joined_mem) (auto simp: rank_by_full_text_def row_simps t split: if_splits dest!: in_set_takeD)
qed

text \<open>What a hit promises: a chunk in scope, with the document it belongs to and the text it cites.\<close>

definition hit_ok :: "db \<Rightarrow> uuid \<Rightarrow> uuid option \<Rightarrow> search_hit \<Rightarrow> bool" where
  "hit_ok d tenant document h \<longleftrightarrow>
     (\<exists>c \<in> set (chunks d). hit_chunk h = ck_id c \<and> ck_tenant c = tenant \<and> (document = None \<or> document = Some (ck_document c))
        \<and> hit_document h = ck_document c \<and> hit_start h = ck_start c \<and> hit_end h = ck_end c)
     \<and> (\<exists>r \<in> set (documents d). doc_id r = hit_document h \<and> doc_sha r = hit_sha h \<and> doc_filename r = hit_filename h)
     \<and> (\<exists>t \<in> set (texts d). txt_document t = hit_document h \<and> valid_span (txt_text t) (hit_start h, hit_end h)
        \<and> hit_text h = slice (txt_text t) (hit_start h) (hit_end h))"

lemma make_hit_ok:
  assumes "citations_ok d" "fst cr \<in> set (chunks d) \<and> in_scope d tenant document (fst cr) \<and> owning_document d (fst cr) = Some (snd cr)"
  shows "hit_ok d tenant document (make_hit cr s)"
proof -
  obtain c r where cr: "cr = (c, r)" by (cases cr)
  have r: "r \<in> set (documents d)" "doc_id r = ck_document c"
    using assms(2) find_Some_mem[of _ "documents d" r] by (auto simp: cr owning_document_def)
  obtain t where "t \<in> set (texts d)" "txt_document t = ck_document c" "valid_span (txt_text t) (ck_start c, ck_end c)"
      "ck_text c = slice (txt_text t) (ck_start c) (ck_end c)"
    using assms by (auto simp: cr citations_ok_def grounded_chunk_def)
  then show ?thesis using assms(2) r by (auto simp: hit_ok_def cr make_hit_def in_scope_def)
qed

lemma hybrid_hits_cases:
  assumes "hybrid_hits llm en snk tenant document query limit w d = (r, w', d')"
  shows "(\<exists>e. r = Inl e \<and> (client_error e \<or> is_value_error e \<or> e = Data_Error) \<and> (d' = d \<or> (\<exists>u. d' = snk u d)))
    \<or> (\<exists>u v vr fr. d' = snk u d \<and> rank_by_similarity en tenant v (limit * candidate_depth_factor) document d' = Inr vr
        \<and> rank_by_full_text en tenant query (limit * candidate_depth_factor) document d' = Inr fr
        \<and> r = Inr (fuse_hits limit vr fr))"
proof (cases "embed llm [query] w")
  case (Pair q w1)
  show ?thesis
  proof (cases q)
    case (Inl e)
    then show ?thesis using assms Pair embed_error[OF Pair[unfolded Inl]] by (auto simp: hybrid_hits_def)
  next
    case (Inr vu)
    obtain vs u where vu: "vu = (vs, u)" by (cases vu)
    show ?thesis
    proof (cases "single_vector vs")
      case (Inl e)
      then have "is_value_error e" by (auto simp: single_vector_def is_value_error_def split: list.splits)
      then show ?thesis using assms Pair Inr vu Inl by (auto simp: hybrid_hits_def Let_def)
    next
      case v: (Inr v)
      then show ?thesis using assms Pair Inr vu
        by (cases "rank_by_similarity en tenant v (limit * candidate_depth_factor) document (snk u d)";
            cases "rank_by_full_text en tenant query (limit * candidate_depth_factor) document (snk u d)")
          (auto simp: hybrid_hits_def Let_def rank_by_similarity_def rank_by_full_text_def split: if_splits)
    qed
  qed
qed

lemma hybrid_hits_frame:
  "logs snk \<Longrightarrow> hybrid_hits llm en snk tenant document query limit w d = (r, w', d') \<Longrightarrow> usage_frame d d'"
  using hybrid_hits_cases[of llm en snk tenant document query limit w d r w' d']
  by (auto simp: usage_frame_refl usage_frame_sink)

lemma hybrid_hits_ok:
  assumes "orders_rows en" "logs snk" "service_ok d" "hybrid_hits llm en snk tenant document query limit w d = (Inr hits, w', d')"
  shows "list_all (hit_ok d tenant document) hits" and "length hits \<le> limit" and "distinct (map hit_chunk hits)"
    and "sorted (map (\<lambda>h. - hit_score h) hits)"
proof -
  obtain u v vr fts where e: "d' = snk u d" "rank_by_similarity en tenant v (limit * candidate_depth_factor) document d' = Inr vr"
      "hits = fuse_hits limit vr fts" "rank_by_full_text en tenant query (limit * candidate_depth_factor) document d' = Inr fts"
    using hybrid_hits_cases[OF assms(4)] by auto
  have fr: "usage_frame d d'" using hybrid_hits_frame[OF assms(2,4)] .
  have same: "hit_ok d' = hit_ok d" by (simp add: fun_eq_iff hit_ok_def usage_frame_simps[OF fr])
  have cit: "citations_ok d'" using usage_frame_service[OF fr assms(3)] by (simp add: service_ok_def)
  note sp = fuse_hits_spec[OF e(3)]
  have "hit_ok d' tenant document h" if "h \<in> set hits" for h
    using sp(4)[OF that] ranked_mem(1)[OF assms(1) e(2)] ranked_mem(2)[OF assms(1) e(4)] make_hit_ok[OF cit] by fastforce
  then show "list_all (hit_ok d tenant document) hits" by (simp add: same list_all_iff)
  show "length hits \<le> limit" "distinct (map hit_chunk hits)" "sorted (map (\<lambda>h. - hit_score h) hits)" using sp(1-3) .
qed

subsection \<open>Properties\<close>

text \<open>
  C19: Reciprocal rank fusion with its two dictionaries equals the reference: every item of
  any ranking once, scored by the sum of \<open>1 / (k + rank)\<close> over the rankings that hold it,
  best first, equal scores in order of first appearance.
\<close>

theorem rrf_fuse_is_reference:
  "rrf_fuse rankings k = map (\<lambda>i. (i, rrf_score k rankings i))
     (sort_key (\<lambda>i. - rrf_score k rankings i) (rev (remdups (rev (concat rankings)))))"
  using rrf_fuse_eq[of rankings k] by (simp only: first_seen_order_def)


text \<open>One document with one chunk, found by its text.\<close>

definition search_db :: db where
  "search_db = empty_db\<lparr>documents := [sample_document 2 ''h0'' None],
     texts := [\<lparr>txt_document = 2, txt_tenant = 5, txt_text = ''Hi all'', txt_page_map = []\<rparr>],
     chunks := [\<lparr>ck_id = 3, ck_tenant = 5, ck_document = 2, ck_ordinal = 0, ck_text = ''Hi'', ck_start = 0, ck_end = 2,
        ck_embedding = None\<rparr>], next_id := 4\<rparr>"

lemma search_db_ok: "service_ok search_db"
  by (simp add: service_ok_def db_ok_def citations_ok_def search_db_def empty_db_def table_oks ids_ok_def owned_def
      sample_document_def table_ok_def grounded_chunk_def valid_span_def slice_def)

definition plain_engines :: engines where
  "plain_engines = \<lparr>vector_order = (\<lambda>_ xs. xs), text_matches = (\<lambda>_ _. True), text_order = (\<lambda>_ xs. xs)\<rparr>"

definition vector_llm :: "unit openai" where
  "vector_llm = idle_llm\<lparr>sdk_embed := (\<lambda>_ _ w. ((Embed_Reply None [(0, [1])], 0), w))\<rparr>"


end
