(* ===== verification/Diffing.thy ===== *)
theory Diffing
  imports Parsing Spans "HOL-Library.Multiset"
begin

section \<open>Clause alignment and diff (app/services/diffing.py)\<close>

text \<open>
  Each version's parsed text is cut into paragraphs, the paragraphs are grouped into
  clause sections keyed by normalised clause number or heading, the sections of the two
  versions are aligned by key, and every pair that differs and every section without a
  partner becomes a change with spans into both texts.
\<close>

datatype change_kind = Added | Removed | Modified

type_synonym span = "nat \<times> nat"

record change =
  ch_kind :: change_kind
  ch_ref :: "string option"
  ch_base :: "span option"
  ch_amended :: "span option"

text \<open>\<^verbatim>\<open>SectionKey = tuple[int, ...] | str\<close>; \<open>None\<close> is the preamble.\<close>

datatype section_key = Num "nat list" | Head string

record clause_section =
  sec_key :: "section_key option"
  sec_ref :: "string option"
  sec_start :: nat
  sec_end :: nat

subsection \<open>Paragraphs\<close>

function paragraphs_from :: "string \<Rightarrow> nat \<Rightarrow> (nat \<times> nat \<times> string) list" where
  "paragraphs_from text pos =
     (if pos < length text then
        let stop = (case find_blank (drop pos text) of None \<Rightarrow> length text | Some i \<Rightarrow> pos + i);
            para = slice text pos stop
        in (if strip para \<noteq> [] then [(pos, stop, para)] else []) @ paragraphs_from text (stop + 2)
      else [])"
  by pat_completeness auto
termination
  by (relation "measure (\<lambda>(text, pos). length text - pos)") (auto split: option.splits)

declare paragraphs_from.simps [simp del]

definition paragraphs :: "string \<Rightarrow> (nat \<times> nat \<times> string) list" where
  "paragraphs text = paragraphs_from text 0"

subsection \<open>Clause keys\<close>

text \<open>\<^verbatim>\<open>_CLAUSE_NUMBER_PATTERN\<close>: the digit groups of the number it captures.\<close>

definition clause_number :: "string \<Rightarrow> string list option" where
  "clause_number line =
     (case keyword_rest line of
        Some r \<Rightarrow>
          (case number_groups r of
             Some (gs, r') \<Rightarrow> if space_then_text (skip_closer r') then Some gs else None
           | None \<Rightarrow> None)
      | None \<Rightarrow>
          (case number_groups line of
             Some (gs, r) \<Rightarrow>
               if length gs \<ge> 2 then (if space_then_text (skip_closer r) then Some gs else None)
               else if r \<noteq> [] \<and> is_closer (hd r) \<and> space_then_text (tl r) then Some gs
               else if space_then_text r \<and> is_ascii_upper (hd (dropWhile is_space r)) then Some gs
               else None
           | None \<Rightarrow> None))"

definition max_heading_chars :: nat where
  "max_heading_chars = 60"

definition clause_key :: "string \<Rightarrow> section_key option" where
  "clause_key line =
     (case clause_number line of
        Some gs \<Rightarrow> Some (Num (map int_of_digits gs))
      | None \<Rightarrow>
          (let stripped = strip line in
           if 0 < length stripped \<and> length stripped \<le> max_heading_chars
              \<and> py_isupper stripped \<and> list_ex is_alpha stripped
           then Some (Head (join '' '' (py_words (py_casefold stripped))))
           else None))"

definition clause_ref :: "section_key option \<Rightarrow> string option" where
  "clause_ref key =
     (case key of
        None \<Rightarrow> None
      | Some (Num ns) \<Rightarrow> Some (join ''.'' (map str_of_nat ns))
      | Some (Head h) \<Rightarrow> Some h)"

subsection \<open>Sections\<close>

definition add_paragraph :: "clause_section list \<Rightarrow> nat \<times> nat \<times> string \<Rightarrow> clause_section list" where
  "add_paragraph secs p = (case p of (start, stop, para) \<Rightarrow>
     let key = clause_key (first_line para) in
     if key = None \<and> secs \<noteq> [] then butlast secs @ [(last secs)\<lparr>sec_end := stop\<rparr>]
     else secs @ [\<lparr>sec_key = key, sec_ref = clause_ref key, sec_start = start, sec_end = stop\<rparr>])"

definition sections :: "string \<Rightarrow> clause_section list" where
  "sections text = foldl add_paragraph [] (paragraphs text)"

definition sec_span :: "clause_section \<Rightarrow> span" where
  "sec_span s = (sec_start s, sec_end s)"

definition sec_slice :: "string \<Rightarrow> clause_section \<Rightarrow> string" where
  "sec_slice text s = slice text (sec_start s) (sec_end s)"

subsection \<open>Alignment\<close>

text \<open>\<^verbatim>\<open>amended_by_key.get(key, [])\<close>, and its first index not yet consumed.\<close>

definition indices :: "'k list \<Rightarrow> 'k \<Rightarrow> nat list" where
  "indices ks k = filter (\<lambda>i. ks ! i = k) [0 ..< length ks]"

definition next_match :: "'k list \<Rightarrow> nat list \<Rightarrow> 'k \<Rightarrow> nat option" where
  "next_match ks consumed k = List.find (\<lambda>i. i \<notin> set consumed) (indices ks k)"

definition removed_change :: "clause_section \<Rightarrow> change" where
  "removed_change b = \<lparr>ch_kind = Removed, ch_ref = sec_ref b, ch_base = Some (sec_span b), ch_amended = None\<rparr>"

definition modified_change :: "clause_section \<Rightarrow> clause_section \<Rightarrow> change" where
  "modified_change b a =
     \<lparr>ch_kind = Modified, ch_ref = sec_ref b, ch_base = Some (sec_span b), ch_amended = Some (sec_span a)\<rparr>"

definition added_change :: "clause_section \<Rightarrow> change" where
  "added_change a = \<lparr>ch_kind = Added, ch_ref = sec_ref a, ch_base = None, ch_amended = Some (sec_span a)\<rparr>"

text \<open>The loop over the base sections: changes found, and the consumed indices.\<close>

fun align_base :: "string \<Rightarrow> string \<Rightarrow> clause_section list \<Rightarrow> clause_section list \<Rightarrow> nat list
    \<Rightarrow> change list \<times> nat list" where
  "align_base base_text amended_text amended [] consumed = ([], consumed)"
| "align_base base_text amended_text amended (b # bs) consumed =
     (case next_match (map sec_key amended) consumed (sec_key b) of
        None \<Rightarrow>
          (let (cs, consumed') = align_base base_text amended_text amended bs consumed
           in (removed_change b # cs, consumed'))
      | Some i \<Rightarrow>
          (let a = amended ! i;
               (cs, consumed') = align_base base_text amended_text amended bs (i # consumed)
           in (if sec_slice base_text b \<noteq> sec_slice amended_text a
               then modified_change b a # cs else cs, consumed')))"

definition detect_changes :: "string \<Rightarrow> string \<Rightarrow> change list" where
  "detect_changes base_text amended_text =
     (let base = sections base_text; amended = sections amended_text;
          (changes, consumed) = align_base base_text amended_text amended base []
      in changes @ map (\<lambda>i. added_change (amended ! i))
                     (filter (\<lambda>i. i \<notin> set consumed) [0 ..< length amended]))"

subsection \<open>Paragraph lemmas\<close>

lemma paragraphs_from_bounds:
  "(s, e, p) \<in> set (paragraphs_from t pos) \<Longrightarrow>
     pos \<le> s \<and> s < e \<and> e \<le> length t \<and> p = slice t s e \<and> strip p \<noteq> []"
proof (induction t pos rule: paragraphs_from.induct)
  case (1 t pos)
  let ?e = "case find_blank (drop pos t) of None \<Rightarrow> length t | Some i \<Rightarrow> pos + i"
  have pos: "pos < length t" using "1.prems" by (subst (asm) paragraphs_from.simps) (auto split: if_splits)
  have e: "?e \<le> length t" using pos by (auto split: option.splits dest!: find_blank_bound)
  have "(s, e, p) = (pos, ?e, slice t pos ?e) \<and> strip p \<noteq> [] \<or> (s, e, p) \<in> set (paragraphs_from t (?e + 2))"
    using "1.prems" pos by (subst (asm) paragraphs_from.simps) (auto simp: Let_def split: if_splits)
  then show ?case
  proof
    assume h: "(s, e, p) = (pos, ?e, slice t pos ?e) \<and> strip p \<noteq> []"
    then have "pos < ?e" by (cases "pos < ?e") (auto simp: slice_simps strip_eq_Nil)
    with h e show ?thesis by auto
  next
    assume "(s, e, p) \<in> set (paragraphs_from t (?e + 2))"
    from "1.IH"[OF pos refl refl this] have "?e + 2 \<le> s" "s < e \<and> e \<le> length t \<and> p = slice t s e \<and> strip p \<noteq> []" by auto
    moreover have "pos \<le> ?e" using pos by (auto split: option.splits)
    ultimately show ?thesis by auto
  qed
qed

lemma paragraphs_from_sorted:
  "sorted_wrt (\<lambda>p q. fst (snd p) + 2 \<le> fst q) (paragraphs_from t pos)"
proof (induction t pos rule: paragraphs_from.induct)
  case (1 t pos)
  let ?e = "case find_blank (drop pos t) of None \<Rightarrow> length t | Some i \<Rightarrow> pos + i"
  show ?case
  proof (cases "pos < length t")
    case True
    have "?e + 2 \<le> fst q" if "q \<in> set (paragraphs_from t (?e + 2))" for q
      using paragraphs_from_bounds[of "fst q" "fst (snd q)" "snd (snd q)"] that by simp
    with "1.IH"[OF True refl refl] True show ?thesis
      by (subst paragraphs_from.simps) (auto simp: Let_def)
  next
    case False
    then show ?thesis by (subst paragraphs_from.simps) simp
  qed
qed

text \<open>
  Clean blocks joined by blank lines come back as paragraphs, at the offsets the builder
  gave them.
\<close>

lemma paragraphs_from_join:
  "list_all clean_text ts \<Longrightarrow>
   paragraphs_from (pre @ join block_sep ts) (length pre) =
   map (\<lambda>b. (blk_start b, blk_end b, blk_text b))
     (layout (length pre) (map (\<lambda>t. (Paragraph, t, None)) ts))"
proof (induction ts arbitrary: pre)
  case Nil
  show ?case by (subst paragraphs_from.simps) simp
next
  case (Cons t ts)
  let ?text = "pre @ join block_sep (t # ts)"
  have t: "t \<noteq> []" "strip t = t" "find_blank t = None" "last t \<noteq> newline"
    using Cons.prems by (auto simp: clean_text_def strip_id)
  have drop: "drop (length pre) ?text = (if ts = [] then t else t @ newline # newline # join block_sep ts)"
    by (simp add: join_block_sep_Cons) (simp add: block_sep_def)
  have fb: "(case find_blank (drop (length pre) ?text) of None \<Rightarrow> length ?text | Some i \<Rightarrow> length pre + i)
      = length pre + length t"
  proof (cases "ts = []")
    case True
    with t show ?thesis by simp
  next
    case False
    then have "drop (length pre) ?text = t @ newline # newline # join block_sep ts" by (simp only: drop if_False)
    then have "find_blank (drop (length pre) ?text) = Some (length t)"
      using find_blank_append[OF t(3) t(1) t(4), of "join block_sep ts"] by (simp only:)
    then show ?thesis by (simp only: option.case)
  qed
  have sl: "slice ?text (length pre) (length pre + length t) = t"
    by (simp add: slice_def join_block_sep_Cons)
  have lt: "length pre < length ?text" using t by (simp add: join_block_sep_Cons)
  have step: "paragraphs_from ?text (length pre) =
      (length pre, length pre + length t, t) # paragraphs_from ?text (length pre + length t + 2)"
    using t lt by (subst paragraphs_from.simps) (simp only: fb Let_def sl if_True, simp)
  show ?case
  proof (cases "ts = []")
    case True
    then have "paragraphs_from ?text (length pre + length t + 2) = []"
      by (subst paragraphs_from.simps) simp
    with True step show ?thesis by simp
  next
    case False
    have "?text = (pre @ t @ block_sep) @ join block_sep ts" using False by (simp add: join_block_sep_Cons)
    with Cons.IH[of "pre @ t @ block_sep"] Cons.prems step show ?thesis by (simp add: add.assoc)
  qed
qed


text \<open>The paragraphs of a text parsed from plain text are exactly its blocks.\<close>

lemma paragraphs_of_build:
  assumes "list_all clean_text (map entry_text es)" "\<forall>e \<in> set es. fst e = Paragraph \<and> snd (snd e) = None"
  shows "paragraphs (doc_text (build es)) =
    map (\<lambda>b. (blk_start b, blk_end b, blk_text b)) (doc_blocks (build es))"
proof -
  have "map (\<lambda>t. (Paragraph, t, None)) (map entry_text es) = es"
    unfolding map_map comp_def using assms(2) by (intro map_idI) (metis prod.collapse)
  then show ?thesis
    using paragraphs_from_join[of "map entry_text es" "[]"] assms(1)
    by (simp add: paragraphs_def build_text build_blocks)
qed

subsection \<open>Section lemmas\<close>

definition sections_inv :: "string \<Rightarrow> (nat \<times> nat \<times> string) list \<Rightarrow> clause_section list \<Rightarrow> bool" where
  "sections_inv text seen secs \<longleftrightarrow>
     (seen = [] \<longleftrightarrow> secs = []) \<and>
     (\<forall>s \<in> set secs. valid_span text (sec_span s) \<and> sec_ref s = clause_ref (sec_key s)) \<and>
     sorted_wrt (\<lambda>s s'. sec_end s + 2 \<le> sec_start s') secs \<and>
     (secs \<noteq> [] \<longrightarrow> sec_end (last secs) = fst (snd (last seen))) \<and>
     (\<forall>s \<in> set (tl secs). sec_key s \<noteq> None) \<and>
     (\<forall>p \<in> set seen. list_ex (\<lambda>s. sec_start s \<le> fst p \<and> fst (snd p) \<le> sec_end s) secs)"

lemma sections_inv_step:
  assumes inv: "sections_inv text seen secs"
    and p: "fst p < fst (snd p)" "fst (snd p) \<le> length text"
    and next_p: "\<forall>q \<in> set seen. fst (snd q) + 2 \<le> fst p"
  shows "sections_inv text (seen @ [p]) (add_paragraph secs p)"
proof -
  obtain a e t where pe: "p = (a, e, t)" by (cases p) auto
  let ?key = "clause_key (first_line t)"
  show ?thesis
  proof (cases "?key = None \<and> secs \<noteq> []")
    case False
    let ?new = "\<lparr>sec_key = ?key, sec_ref = clause_ref ?key, sec_start = a, sec_end = e\<rparr>"
    have add: "add_paragraph secs p = secs @ [?new]" using False by (auto simp: add_paragraph_def pe Let_def)
    have before: "sec_end s + 2 \<le> a" if "s \<in> set secs" for s
    proof -
      have "sec_end s \<le> sec_end (last secs)"
        using inv that by (cases secs rule: rev_cases) (fastforce simp: sections_inv_def sorted_wrt_append valid_span_def sec_span_def)+
      moreover have "sec_end (last secs) + 2 \<le> a"
        using inv next_p that by (auto simp: sections_inv_def pe)
      ultimately show ?thesis by simp
    qed
    have "\<forall>s \<in> set (tl (secs @ [?new])). sec_key s \<noteq> None"
      using inv False by (cases secs) (auto simp: sections_inv_def)
    then show ?thesis using inv before p unfolding add
      by (auto simp: sections_inv_def sorted_wrt_append pe valid_span_def sec_span_def)
  next
    case True
    then obtain xs l where secs: "secs = xs @ [l]" by (cases secs rule: rev_cases) auto
    have add: "add_paragraph secs p = xs @ [l\<lparr>sec_end := e\<rparr>]"
      using True by (simp add: add_paragraph_def pe Let_def secs)
    have "seen \<noteq> []" using inv by (auto simp: sections_inv_def secs)
    then have "fst (snd (last seen)) \<le> a" using next_p last_in_set[of seen] by (fastforce simp: pe)
    then have le: "sec_end l \<le> a" "seen \<noteq> []" using inv \<open>seen \<noteq> []\<close> by (auto simp: sections_inv_def secs)
    have "sec_start l < sec_end l" using inv by (simp add: sections_inv_def secs valid_span_def sec_span_def)
    moreover have "\<forall>s \<in> set (tl (xs @ [l\<lparr>sec_end := e\<rparr>])). sec_key s \<noteq> None"
      using inv by (cases xs) (auto simp: sections_inv_def secs)
    moreover have "\<forall>q \<in> set seen. list_ex (\<lambda>s. sec_start s \<le> fst q \<and> fst (snd q) \<le> sec_end s) (xs @ [l\<lparr>sec_end := e\<rparr>])"
      using inv le p by (fastforce simp: sections_inv_def secs pe)
    ultimately show ?thesis using inv le p unfolding add
      by (auto simp: sections_inv_def sorted_wrt_append pe secs valid_span_def sec_span_def)
  qed
qed

lemma sections_inv_fold:
  "\<forall>p \<in> set ps. fst p < fst (snd p) \<and> fst (snd p) \<le> length text \<Longrightarrow>
   sorted_wrt (\<lambda>p q. fst (snd p) + 2 \<le> fst q) ps \<Longrightarrow>
   sections_inv text ps (foldl add_paragraph [] ps)"
proof (induction ps rule: rev_induct)
  case Nil
  show ?case by (simp add: sections_inv_def)
next
  case (snoc p ps)
  then show ?case using sections_inv_step[of "text" ps _ p] by (auto simp: sorted_wrt_append)
qed

lemma sections_ok: "sections_inv text (paragraphs text) (sections text)"
  unfolding sections_def paragraphs_def
  by (rule sections_inv_fold) (use paragraphs_from_bounds paragraphs_from_sorted in fastforce)+

interpretation diff_sections: span_source "\<lambda>_. True" id "\<lambda>t. map sec_span (sections t)"
  by unfold_locales (use sections_ok in \<open>auto simp: sections_inv_def\<close>)

subsection \<open>Alignment by occurrence: the reference\<close>

text \<open>
  The greedy loop with its \<open>consumed\<close> set aligns the \<open>r\<close>-th base section of a key with
  the \<open>r\<close>-th amended section of that key. The reference says so directly, with no state.
\<close>

definition occurrence :: "'k list \<Rightarrow> nat \<Rightarrow> nat" where
  "occurrence ks i = count_list (take i ks) (ks ! i)"

definition partner :: "'k list \<Rightarrow> 'k \<Rightarrow> nat \<Rightarrow> nat option" where
  "partner ks k r = (if r < length (indices ks k) then Some (indices ks k ! r) else None)"

definition base_change :: "string \<Rightarrow> string \<Rightarrow> clause_section list \<Rightarrow> clause_section list \<Rightarrow> nat \<Rightarrow> change list" where
  "base_change base_text amended_text base amended j =
     (case partner (map sec_key amended) (sec_key (base ! j)) (occurrence (map sec_key base) j) of
        None \<Rightarrow> [removed_change (base ! j)]
      | Some i \<Rightarrow> if sec_slice base_text (base ! j) \<noteq> sec_slice amended_text (amended ! i)
                 then [modified_change (base ! j) (amended ! i)] else [])"

definition unmatched :: "'k list \<Rightarrow> 'k list \<Rightarrow> nat list" where
  "unmatched other ks = filter (\<lambda>i. count_list other (ks ! i) \<le> occurrence ks i) [0 ..< length ks]"

definition reference_changes :: "string \<Rightarrow> string \<Rightarrow> clause_section list \<Rightarrow> clause_section list \<Rightarrow> change list" where
  "reference_changes base_text amended_text base amended =
     concat (map (base_change base_text amended_text base amended) [0 ..< length base])
     @ map (\<lambda>i. added_change (amended ! i)) (unmatched (map sec_key base) (map sec_key amended))"

lemma set_indices: "set (indices ks k) = {i. i < length ks \<and> ks ! i = k}"
  by (auto simp: indices_def)

lemma distinct_indices [simp]: "distinct (indices ks k)"
  by (simp add: indices_def)

lemma indices_snoc: "indices (ks @ [x]) k = indices ks k @ (if x = k then [length ks] else [])"
proof -
  have "filter (\<lambda>i. (ks @ [x]) ! i = k) [0 ..< length ks] = filter (\<lambda>i. ks ! i = k) [0 ..< length ks]"
    by (rule filter_cong) (simp_all add: nth_append)
  then show ?thesis by (simp add: indices_def)
qed

lemma length_indices: "length (indices ks k) = count_list ks k"
  by (induction ks rule: rev_induct) (simp_all add: indices_snoc, simp add: indices_def)

lemma nth_indices_occurrence:
  "i < length ks \<Longrightarrow> occurrence ks i < count_list ks (ks ! i) \<and> indices ks (ks ! i) ! occurrence ks i = i"
proof (induction ks rule: rev_induct)
  case Nil
  then show ?case by simp
next
  case (snoc x ks)
  show ?case
  proof (cases "i = length ks")
    case True
    then show ?thesis by (simp add: occurrence_def indices_snoc nth_append length_indices)
  next
    case False
    with snoc.prems have i: "i < length ks" by simp
    have "occurrence (ks @ [x]) i = occurrence ks i" using i by (simp add: occurrence_def nth_append)
    then show ?thesis using snoc.IH[OF i] i
      by (auto simp: indices_snoc nth_append length_indices)
  qed
qed

lemma find_first_unused:
  assumes "distinct xs" "\<And>x. x \<in> set xs \<Longrightarrow> x \<in> C \<longleftrightarrow> x \<in> set (take n xs)"
  shows "List.find (\<lambda>i. i \<notin> C) xs = (if n < length xs then Some (xs ! n) else None)"
proof (cases "n < length xs")
  case True
  have "xs ! n \<notin> set (take n xs)"
    using assms(1) True by (auto simp: in_set_conv_nth nth_eq_iff_index_eq)
  then have "xs ! n \<notin> C" using assms(2) True by (meson nth_mem)
  moreover have "\<forall>j < n. xs ! j \<in> C"
  proof (intro allI impI)
    fix j assume "j < n"
    then have "xs ! j \<in> set (take n xs)" using True by (auto simp: in_set_conv_nth intro!: exI[of _ j])
    then show "xs ! j \<in> C" using assms(2) \<open>j < n\<close> True by (meson nth_mem order_less_trans)
  qed
  ultimately show ?thesis using True by (auto simp: find_Some_iff intro!: exI[of _ n])
next
  case False
  then show ?thesis using assms(2) by (auto simp: find_None_iff)
qed

definition consumed_inv :: "'k list \<Rightarrow> 'k list \<Rightarrow> nat list \<Rightarrow> bool" where
  "consumed_inv ks seen consumed \<longleftrightarrow> set consumed \<subseteq> {..< length ks}
     \<and> (\<forall>k. \<forall>i \<in> set (indices ks k). i \<in> set consumed \<longleftrightarrow> i \<in> set (take (count_list seen k) (indices ks k)))"

lemma next_match_partner:
  "consumed_inv ks seen consumed \<Longrightarrow> next_match ks consumed k = partner ks k (count_list seen k)"
  unfolding next_match_def partner_def
  by (rule find_first_unused) (auto simp: consumed_inv_def)

lemma consumed_inv_None:
  assumes "consumed_inv ks seen consumed" "partner ks k (count_list seen k) = None"
  shows "consumed_inv ks (seen @ [k]) consumed"
  using assms by (auto simp: consumed_inv_def partner_def split: if_splits)

lemma consumed_inv_Some:
  assumes inv: "consumed_inv ks seen consumed" and i: "partner ks k (count_list seen k) = Some i"
  shows "consumed_inv ks (seen @ [k]) (i # consumed)"
proof -
  let ?n = "count_list seen k"
  have n: "?n < length (indices ks k)" and iq: "i = indices ks k ! ?n"
    using i by (auto simp: partner_def split: if_splits)
  then have i_in: "i \<in> set (indices ks k)" by simp
  have "set (take (Suc ?n) (indices ks k)) = insert i (set (take ?n (indices ks k)))"
    using n iq by (simp add: take_Suc_conv_app_nth)
  moreover have "i \<notin> set (indices ks k')" if "k' \<noteq> k" for k' using i_in that by (auto simp: set_indices)
  moreover have "i < length ks" using i_in by (simp add: set_indices)
  ultimately show ?thesis using inv by (fastforce simp: consumed_inv_def)
qed

lemma align_base_reference:
  assumes "consumed_inv (map sec_key amended) (map sec_key pre) consumed"
  shows "\<exists>consumed'. align_base bt at amended suf consumed =
      (concat (map (base_change bt at (pre @ suf) amended) [length pre ..< length (pre @ suf)]), consumed')
    \<and> consumed_inv (map sec_key amended) (map sec_key (pre @ suf)) consumed'"
  using assms
proof (induction suf arbitrary: pre consumed)
  case Nil
  then show ?case by simp
next
  case (Cons b bs)
  let ?ks = "map sec_key amended"
  let ?j = "length pre"
  have occ: "occurrence (map sec_key (pre @ b # bs)) ?j = count_list (map sec_key pre) (sec_key b)"
    by (simp add: occurrence_def nth_append)
  have upt: "[?j ..< length (pre @ b # bs)] = ?j # [length (pre @ [b]) ..< length ((pre @ [b]) @ bs)]"
    by (simp add: upt_conv_Cons del: upt_Suc)
  note nm = next_match_partner[OF Cons.prems, of "sec_key b"]
  show ?case
  proof (cases "next_match ?ks consumed (sec_key b)")
    case None
    with consumed_inv_None[OF Cons.prems] nm
    have "consumed_inv ?ks (map sec_key (pre @ [b])) consumed" by simp
    from Cons.IH[OF this] obtain c where c:
      "align_base bt at amended bs consumed =
         (concat (map (base_change bt at ((pre @ [b]) @ bs) amended) [length (pre @ [b]) ..< length ((pre @ [b]) @ bs)]), c)"
      "consumed_inv ?ks (map sec_key ((pre @ [b]) @ bs)) c" by blast
    have "base_change bt at (pre @ b # bs) amended ?j = [removed_change b]"
      using None nm occ by (simp add: base_change_def nth_append)
    with c None show ?thesis unfolding upt by (intro exI[of _ c]) simp
  next
    case (Some i)
    with consumed_inv_Some[OF Cons.prems] nm
    have "consumed_inv ?ks (map sec_key (pre @ [b])) (i # consumed)" by simp
    from Cons.IH[OF this] obtain c where c:
      "align_base bt at amended bs (i # consumed) =
         (concat (map (base_change bt at ((pre @ [b]) @ bs) amended) [length (pre @ [b]) ..< length ((pre @ [b]) @ bs)]), c)"
      "consumed_inv ?ks (map sec_key ((pre @ [b]) @ bs)) c" by blast
    have "base_change bt at (pre @ b # bs) amended ?j =
        (if sec_slice bt b \<noteq> sec_slice at (amended ! i) then [modified_change b (amended ! i)] else [])"
      using Some nm occ by (simp add: base_change_def nth_append)
    with c Some show ?thesis unfolding upt by (intro exI[of _ c]) (simp add: Let_def)
  qed
qed

lemma consumed_unmatched:
  assumes "consumed_inv ks other consumed" "i < length ks"
  shows "i \<notin> set consumed \<longleftrightarrow> count_list other (ks ! i) \<le> occurrence ks i"
proof -
  let ?idx = "indices ks (ks ! i)"
  have pos: "occurrence ks i < length ?idx" "?idx ! occurrence ks i = i"
    using nth_indices_occurrence[OF assms(2)] by (simp_all add: length_indices)
  have "i \<in> set consumed \<longleftrightarrow> i \<in> set (take (count_list other (ks ! i)) ?idx)"
    using assms by (auto simp: consumed_inv_def set_indices)
  also have "\<dots> \<longleftrightarrow> occurrence ks i < count_list other (ks ! i)"
  proof
    assume "i \<in> set (take (count_list other (ks ! i)) ?idx)"
    then obtain j where "j < count_list other (ks ! i)" "j < length ?idx" "?idx ! j = i"
      by (auto simp: in_set_conv_nth)
    then have "j = occurrence ks i" using pos nth_eq_iff_index_eq[OF distinct_indices] by metis
    then show "occurrence ks i < count_list other (ks ! i)" using \<open>j < count_list other (ks ! i)\<close> by simp
  next
    assume "occurrence ks i < count_list other (ks ! i)"
    then show "i \<in> set (take (count_list other (ks ! i)) ?idx)"
      using pos by (auto simp: in_set_conv_nth intro!: exI[of _ "occurrence ks i"])
  qed
  finally show ?thesis by auto
qed

lemma detect_changes_reference:
  "detect_changes bt at = reference_changes bt at (sections bt) (sections at)"
proof -
  let ?ks = "map sec_key (sections at)"
  have "consumed_inv ?ks (map sec_key []) []" by (simp add: consumed_inv_def)
  from align_base_reference[OF this, of bt at "sections bt"] obtain c where c:
    "align_base bt at (sections at) (sections bt) [] =
       (concat (map (base_change bt at (sections bt) (sections at)) [0 ..< length (sections bt)]), c)"
    "consumed_inv ?ks (map sec_key (sections bt)) c" by auto
  have "filter (\<lambda>i. i \<notin> set c) [0 ..< length (sections at)] = unmatched (map sec_key (sections bt)) ?ks"
    unfolding unmatched_def length_map
    by (rule filter_cong) (use consumed_unmatched[OF c(2)] in auto)
  then show ?thesis by (simp add: detect_changes_def reference_changes_def c(1) Let_def)
qed

subsection \<open>The changes of each kind\<close>

lemma concat_map_if: "concat (map (\<lambda>j. if Q j then [g j] else []) xs) = map g (filter Q xs)"
  by (induction xs) simp_all

lemma base_change_kinds:
  "filter (\<lambda>c. ch_kind c = Removed) (base_change bt at base amended j) =
     (if count_list (map sec_key amended) (sec_key (base ! j)) \<le> occurrence (map sec_key base) j
      then [removed_change (base ! j)] else [])"
  "filter (\<lambda>c. ch_kind c = Added) (base_change bt at base amended j) = []"
  by (auto simp: base_change_def partner_def length_indices removed_change_def modified_change_def)

lemma removed_changes:
  "filter (\<lambda>c. ch_kind c = Removed) (detect_changes bt at) =
   map (\<lambda>j. removed_change (sections bt ! j)) (unmatched (map sec_key (sections at)) (map sec_key (sections bt)))"
proof -
  let ?Q = "\<lambda>j. count_list (map sec_key (sections at)) (sec_key (sections bt ! j))
        \<le> occurrence (map sec_key (sections bt)) j"
  have "filter (\<lambda>c. ch_kind c = Removed) (detect_changes bt at) =
    map (\<lambda>j. removed_change (sections bt ! j)) (filter ?Q [0 ..< length (sections bt)])"
    by (simp add: detect_changes_reference reference_changes_def filter_concat comp_def
        base_change_kinds(1) concat_map_if added_change_def)
  moreover have "filter ?Q [0 ..< length (sections bt)] =
      unmatched (map sec_key (sections at)) (map sec_key (sections bt))"
    unfolding unmatched_def length_map by (rule filter_cong) auto
  ultimately show ?thesis by simp
qed

lemma added_changes:
  "filter (\<lambda>c. ch_kind c = Added) (detect_changes bt at) =
   map (\<lambda>i. added_change (sections at ! i)) (unmatched (map sec_key (sections bt)) (map sec_key (sections at)))"
proof -
  have "filter (\<lambda>c. ch_kind c = Added) (map (\<lambda>i. added_change (sections at ! i)) xs)
      = map (\<lambda>i. added_change (sections at ! i)) xs" for xs
    by (rule filter_True) (simp add: added_change_def)
  then show ?thesis
    by (simp add: detect_changes_reference reference_changes_def filter_concat comp_def base_change_kinds(2)
        concat_eq_Nil_conv)
qed

lemma unmatched_snoc:
  "unmatched other (ks @ [x]) = unmatched other ks @ (if count_list other x \<le> count_list ks x then [length ks] else [])"
proof -
  have "filter (\<lambda>i. count_list other ((ks @ [x]) ! i) \<le> occurrence (ks @ [x]) i) [0 ..< length ks]
      = filter (\<lambda>i. count_list other (ks ! i) \<le> occurrence ks i) [0 ..< length ks]"
    by (rule filter_cong) (simp_all add: nth_append occurrence_def)
  then show ?thesis by (simp add: unmatched_def occurrence_def)
qed

lemma unmatched_lt: "i \<in> set (unmatched other ks) \<Longrightarrow> i < length ks"
  by (auto simp: unmatched_def)

text \<open>The keys left unmatched are the multiset difference.\<close>

lemma mset_unmatched: "mset (map ((!) ks) (unmatched other ks)) = mset ks - mset other"
proof (induction ks rule: rev_induct)
  case Nil
  show ?case by (simp add: unmatched_def)
next
  case (snoc x ks)
  have old: "map ((!) (ks @ [x])) (unmatched other ks) = map ((!) ks) (unmatched other ks)"
    by (rule map_cong) (auto simp: nth_append dest: unmatched_lt)
  show ?case
  proof (cases "count_list other x \<le> count_list ks x")
    case True
    then have "mset (ks @ [x]) - mset other = add_mset x (mset ks - mset other)"
      by (auto simp: multiset_eq_iff count_mset)
    with True snoc.IH show ?thesis unfolding unmatched_snoc map_append old by simp
  next
    case False
    then have "mset (ks @ [x]) - mset other = mset ks - mset other"
      by (auto simp: multiset_eq_iff count_mset)
    with False snoc.IH show ?thesis unfolding unmatched_snoc map_append old by simp
  qed
qed

lemma section_ref: "s \<in> set (sections t) \<Longrightarrow> sec_ref s = clause_ref (sec_key s)"
  using sections_ok[of t] by (simp add: sections_inv_def)

lemma section_span: "s \<in> set (sections t) \<Longrightarrow> valid_span t (sec_span s)"
  using sections_ok[of t] by (simp add: sections_inv_def)

lemma map_unmatched_refs:
  "map (\<lambda>i. sec_ref (sections t ! i)) (unmatched other (map sec_key (sections t))) =
   map clause_ref (map ((!) (map sec_key (sections t))) (unmatched other (map sec_key (sections t))))"
proof -
  have "sec_ref (sections t ! i) = clause_ref (map sec_key (sections t) ! i)"
    if "i \<in> set (unmatched other (map sec_key (sections t)))" for i
    using unmatched_lt[OF that] section_ref[OF nth_mem] by simp
  then show ?thesis by simp
qed

text \<open>Every change, by where it comes from.\<close>

lemma detect_changes_cases:
  assumes "c \<in> set (detect_changes bt at)"
  shows "(\<exists>b \<in> set (sections bt). c = removed_change b)
    \<or> (\<exists>b \<in> set (sections bt). \<exists>a \<in> set (sections at). sec_key a = sec_key b
          \<and> sec_slice bt b \<noteq> sec_slice at a \<and> c = modified_change b a)
    \<or> (\<exists>a \<in> set (sections at). c = added_change a)"
proof -
  have "c \<in> (\<Union>j < length (sections bt). set (base_change bt at (sections bt) (sections at) j))
      \<or> (\<exists>a \<in> set (sections at). c = added_change a)"
    using assms by (auto simp: detect_changes_reference reference_changes_def dest!: unmatched_lt)
  then show ?thesis
  proof
    assume "c \<in> (\<Union>j < length (sections bt). set (base_change bt at (sections bt) (sections at) j))"
    then obtain j where j: "j < length (sections bt)" "c \<in> set (base_change bt at (sections bt) (sections at) j)"
      by auto
    show ?thesis
    proof (cases "partner (map sec_key (sections at)) (sec_key (sections bt ! j)) (occurrence (map sec_key (sections bt)) j)")
      case None
      with j show ?thesis by (auto simp: base_change_def)
    next
      case (Some i)
      then have "i \<in> set (indices (map sec_key (sections at)) (sec_key (sections bt ! j)))"
        by (auto simp: partner_def split: if_splits)
      then have "i < length (sections at)" "sec_key (sections at ! i) = sec_key (sections bt ! j)"
        by (auto simp: set_indices)
      moreover from this have "sections at ! i \<in> set (sections at)" "sections bt ! j \<in> set (sections bt)"
        using j(1) by simp_all
      moreover have "c = modified_change (sections bt ! j) (sections at ! i)"
        "sec_slice bt (sections bt ! j) \<noteq> sec_slice at (sections at ! i)"
        using j(2) Some by (simp_all add: base_change_def split: if_splits)
      ultimately show ?thesis by blast
    qed
  qed blast
qed

subsection \<open>Clause keys of numbered headings\<close>

lemma clause_number_dotted:
  assumes "digit_group g" "list_all digit_group gs" "gs \<noteq> []" "is_space c" "dropWhile is_space t \<noteq> []"
  shows "clause_number (join ''.'' (g # gs) @ c # t) = Some (g # gs)"
proof -
  have st: "stops_number (c # t)" using assms(4) by (auto simp: stops_number_def not_digit_space) (simp add: is_space_def)
  have "is_digit (hd (join ''.'' (g # gs) @ c # t))" "join ''.'' (g # gs) @ c # t \<noteq> []"
    using assms(1) by (cases g; simp add: digit_group_def join_dots)+
  then have kw: "keyword_rest (join ''.'' (g # gs) @ c # t) = None" by (rule keyword_rest_digit)
  have "\<not> is_closer c" using assms(4) by (auto simp: is_closer_def is_space_def)
  then have "space_then_text (skip_closer (c # t))" using assms(4,5) by (simp add: skip_closer_def space_then_text_def)
  moreover have "length (g # gs) \<ge> 2" using assms(3) by (cases gs) auto
  ultimately show ?thesis
    unfolding clause_number_def using number_groups_render[OF assms(1,2) st] kw by simp
qed

subsection \<open>Properties\<close>

definition change_ok :: "string \<Rightarrow> string \<Rightarrow> change \<Rightarrow> bool" where
  "change_ok bt at c \<longleftrightarrow>
     (case ch_kind c of
        Removed \<Rightarrow> (case ch_base c of Some s \<Rightarrow> valid_span bt s | None \<Rightarrow> False) \<and> ch_amended c = None
      | Added \<Rightarrow> (case ch_amended c of Some s \<Rightarrow> valid_span at s | None \<Rightarrow> False) \<and> ch_base c = None
      | Modified \<Rightarrow> (case (ch_base c, ch_amended c) of
            (Some s, Some s') \<Rightarrow> valid_span bt s \<and> valid_span at s' \<and> cited bt s \<noteq> cited at s'
          | _ \<Rightarrow> False))"

lemma detect_changes_ok: "c \<in> set (detect_changes bt at) \<Longrightarrow> change_ok bt at c"
  using detect_changes_cases[of c bt at] section_span
  by (auto simp: change_ok_def removed_change_def modified_change_def added_change_def
      cited_def sec_slice_def sec_span_def)

text \<open>
  C6: The greedy alignment equals matching by occurrence: the n-th base section with a key
  is paired with the n-th amended section with that key, a pair is reported exactly when
  its texts differ, and what has no partner is reported as removed or added, in order.
\<close>

theorem detect_changes_by_occurrence:
  "detect_changes bt at =
     concat (map (\<lambda>j. let b = sections bt ! j in
         case partner (map sec_key (sections at)) (sec_key b)
                (count_list (map sec_key (take j (sections bt))) (sec_key b)) of
           None \<Rightarrow> [removed_change b]
         | Some i \<Rightarrow> if sec_slice bt b \<noteq> sec_slice at (sections at ! i)
                    then [modified_change b (sections at ! i)] else [])
       [0 ..< length (sections bt)])
   @ map (\<lambda>i. added_change (sections at ! i))
       (filter (\<lambda>i. count_list (map sec_key (sections bt)) (sec_key (sections at ! i))
            \<le> count_list (map sec_key (take i (sections at))) (sec_key (sections at ! i)))
         [0 ..< length (sections at)])"
proof -
  have occ: "occurrence (map sec_key ss) j = count_list (map sec_key (take j ss)) (sec_key (ss ! j))"
    if "j < length ss" for ss j
    using that by (simp add: occurrence_def take_map)
  have b: "map (base_change bt at (sections bt) (sections at)) [0 ..< length (sections bt)] =
     map (\<lambda>j. let b = sections bt ! j in
         case partner (map sec_key (sections at)) (sec_key b)
                (count_list (map sec_key (take j (sections bt))) (sec_key b)) of
           None \<Rightarrow> [removed_change b]
         | Some i \<Rightarrow> if sec_slice bt b \<noteq> sec_slice at (sections at ! i)
                    then [modified_change b (sections at ! i)] else [])
       [0 ..< length (sections bt)]"
    by (rule map_cong) (simp_all add: base_change_def occ Let_def)
  have "unmatched (map sec_key (sections bt)) (map sec_key (sections at)) =
     filter (\<lambda>i. count_list (map sec_key (sections bt)) (sec_key (sections at ! i))
            \<le> count_list (map sec_key (take i (sections at))) (sec_key (sections at ! i)))
         [0 ..< length (sections at)]"
    unfolding unmatched_def length_map by (rule filter_cong) (simp_all add: occ)
  then show ?thesis unfolding detect_changes_reference reference_changes_def b by (simp only:)
qed

text \<open>
  As multisets, the references reported removed are the base keys minus the amended
  keys, and those reported added are the amended keys minus the base keys: duplicates of a
  clause number are counted, none is invented or dropped.
\<close>

theorem changes_are_multiset_differences:
  "mset (map ch_ref (filter (\<lambda>c. ch_kind c = Removed) (detect_changes bt at)))
     = image_mset clause_ref (mset (map sec_key (sections bt)) - mset (map sec_key (sections at)))
   \<and> mset (map ch_ref (filter (\<lambda>c. ch_kind c = Added) (detect_changes bt at)))
     = image_mset clause_ref (mset (map sec_key (sections at)) - mset (map sec_key (sections bt)))"
  unfolding removed_changes added_changes map_map comp_def
  by (simp add: removed_change_def added_change_def map_unmatched_refs
      flip: mset_unmatched mset_map map_map)

text \<open>
  Swapping the two versions turns removed clauses into added ones, with the same
  references and spans, in the same order.
\<close>

theorem removed_and_added_swap:
  "map (\<lambda>c. (ch_ref c, ch_base c)) (filter (\<lambda>c. ch_kind c = Removed) (detect_changes x y))
   = map (\<lambda>c. (ch_ref c, ch_amended c)) (filter (\<lambda>c. ch_kind c = Added) (detect_changes y x))"
  by (simp add: removed_changes added_changes removed_change_def added_change_def comp_def)

text \<open>
  Every reported change is well formed: its spans are valid in the versions they cite,
  a removed change has no amended span and an added one no base span, and a modified one
  cites two texts that differ.
\<close>

theorem every_change_well_formed: "list_all (change_ok bt at) (detect_changes bt at)"
  using detect_changes_ok by (simp add: list_all_iff)

text \<open>A version compared with itself has no changes.\<close>

lemma unchanged_text: "detect_changes t t = []"
proof -
  let ?ks = "map sec_key (sections t)"
  have "base_change t t (sections t) (sections t) j = []" if "j < length (sections t)" for j
    using nth_indices_occurrence[of j ?ks] that by (simp add: base_change_def partner_def length_indices)
  moreover have "unmatched ?ks ?ks = []"
    unfolding unmatched_def using nth_indices_occurrence[of _ ?ks] by (auto simp: filter_empty_conv not_le)
  ultimately show ?thesis by (auto simp: detect_changes_reference reference_changes_def)
qed

text \<open>
  The sections of a text are valid spans in order of position, separated by blank
  lines; every paragraph lies inside one of them, and only the first can be unnumbered.
\<close>

theorem sections_partition_paragraphs:
  "sorted_wrt (\<lambda>s s'. sec_end s + 2 \<le> sec_start s') (sections t)
   \<and> list_all (\<lambda>s. valid_span t (sec_span s)) (sections t)
   \<and> list_all (\<lambda>p. list_ex (\<lambda>s. sec_start s \<le> fst p \<and> fst (snd p) \<le> sec_end s) (sections t)) (paragraphs t)
   \<and> list_all (\<lambda>s. sec_key s \<noteq> None) (tl (sections t))"
  using sections_ok[of t] by (simp add: sections_inv_def list_all_iff)

text \<open>
  The reference printed for a multi-level clause number reads back as the same key
  when a clause starts with it, so references are stable across versions.
\<close>

theorem clause_ref_reads_back:
  assumes "clause_ref (Some (Num (n # m # ns))) = Some ref" "is_space c" "dropWhile is_space title \<noteq> []"
  shows "clause_key (ref @ c # title) = Some (Num (n # m # ns))"
proof -
  have "ref = join ''.'' (str_of_nat n # map str_of_nat (m # ns))" using assms(1) by (simp add: clause_ref_def)
  moreover have "list_all digit_group (map str_of_nat (m # ns))" by (simp add: list_all_iff)
  ultimately have "clause_number (ref @ c # title) = Some (str_of_nat n # map str_of_nat (m # ns))"
    using clause_number_dotted[of "str_of_nat n" "map str_of_nat (m # ns)" c title] assms(2,3) by simp
  then show ?thesis by (simp add: clause_key_def int_of_digits_str comp_def)
qed

theorem clause_ref_reads_back_witness:
  "clause_key (''7.12'' @ CHR '' '' # ''Fees'') = Some (Num [7, 12])"
  by (rule clause_ref_reads_back) (code_simp, simp_all add: is_space_def)

text \<open>
  For a plain-text upload the diff sees exactly the parser's blocks: the paragraphs it
  cuts out of the stored canonical text are the parsed blocks, at their offsets.
\<close>

theorem diff_paragraphs_are_parsed_blocks:
  assumes "parse_text content = Inr doc"
  shows "paragraphs (doc_text doc) = map (\<lambda>b. (blk_start b, blk_end b, blk_text b)) (doc_blocks doc)"
proof -
  have "\<exists>t. doc = build (text_entries t)"
    using assms by (auto simp: parse_text_def split: option.splits if_splits)
  then obtain t where doc: "doc = build (text_entries t)" ..
  show ?thesis unfolding doc
    by (rule paragraphs_of_build) (auto simp: list_all_iff text_entries_clean)
qed

theorem diff_paragraphs_are_parsed_blocks_witness:
  "paragraphs (doc_text (build (text_entries ''a''))) =
   map (\<lambda>b. (blk_start b, blk_end b, blk_text b)) (doc_blocks (build (text_entries ''a'')))"
  by (rule diff_paragraphs_are_parsed_blocks[of "''a''"]) code_simp

end
