(* ===== verification/Worker.thy ===== *)
theory Worker
  imports Ingestion ChangeReport
begin

section \<open>The worker process (app/worker.py)\<close>

text \<open>
  One worker polls the three job queues in rotation. A pass tries every queue at most once,
  from the queue whose turn it is, and ends with the first that claims a job; an exception
  of a handler ends the process. The handlers' contract as job queues is what the lemmas
  here rest on.
\<close>

subsection \<open>One pass\<close>

type_synonym 'w handler = "'w \<Rightarrow> db \<Rightarrow> (exn + bool) \<times> 'w \<times> db"

text \<open>The deployment of a worker: what its handlers are given on every pass.\<close>

record 'w worker_env =
  env_llm :: "'w openai"
  env_coercions :: coercions
  env_extractors :: extractors
  env_engines :: engines
  env_data_dir :: string
  env_files :: files
  env_extraction_threshold :: rat
  env_impact_threshold :: rat

definition queues :: "'w worker_env \<Rightarrow> 'w handler list" where
  "queues env =
     [run_next_extraction_job (env_llm env) (env_coercions env) (env_extraction_threshold env),
      run_next_ingestion_job (env_llm env) (env_extractors env) (env_data_dir env) (env_files env),
      run_next_change_report_job (env_llm env) (env_coercions env) (env_engines env) (env_impact_threshold env)]"

fun try_queues :: "'w handler list \<Rightarrow> 'w handler" where
  "try_queues [] w d = (Inr False, w, d)"
| "try_queues (q # qs) w d =
     (case q w d of
        (Inl e, w', d') \<Rightarrow> (Inl e, w', d')
      | (Inr did, w', d') \<Rightarrow> if did then (Inr True, w', d') else try_queues qs w' d')"

definition run_next_job :: "'w worker_env \<Rightarrow> nat \<Rightarrow> 'w handler" where
  "run_next_job env first w d =
     (let qs = queues env in
      try_queues (map (\<lambda>offset. qs ! ((first + offset) mod length qs)) [0 ..< length qs]) w d)"

subsection \<open>The loop\<close>

definition queue_count :: nat where
  "queue_count = 3"

text \<open>
  The loop never ends by itself; the list of times is the stretch of it one looks at. An
  exception ends the process.
\<close>

fun worker_loop :: "'w worker_env \<Rightarrow> nat \<Rightarrow> time list \<Rightarrow> 'w \<Rightarrow> db \<Rightarrow> (exn + bool) list \<times> 'w \<times> db" where
  "worker_loop env turn [] w d = ([], w, d)"
| "worker_loop env turn (t # ts) w d =
     (case run_next_job env turn w (d\<lparr>clock := t\<rparr>) of
        (Inl e, w', d') \<Rightarrow> ([Inl e], w', d')
      | (Inr did, w', d') \<Rightarrow>
          (case worker_loop env ((turn + 1) mod queue_count) ts w' d' of (rs, w'', d'') \<Rightarrow> (Inr did # rs, w'', d'')))"

text \<open>The process fails at its start when no API key is configured.\<close>

definition worker_main :: "string \<Rightarrow> 'w worker_env \<Rightarrow> time list \<Rightarrow> 'w \<Rightarrow> db \<Rightarrow> exn + (exn + bool) list \<times> 'w \<times> db" where
  "worker_main api_key env ts w d =
     (case make_client api_key (env_llm env) of
        Inl e \<Rightarrow> Inl e
      | Inr llm \<Rightarrow> Inr (worker_loop (env\<lparr>env_llm := llm\<rparr>) 0 ts w d))"

subsection \<open>Lemmas: a pass\<close>

text \<open>A queue that reports nothing to do has done nothing.\<close>

definition quiet :: "'w \<Rightarrow> db \<Rightarrow> 'w handler \<Rightarrow> bool" where
  "quiet w d q \<longleftrightarrow> (\<forall>w' d'. q w d = (Inr False, w', d') \<longrightarrow> w' = w \<and> d' = d)"

lemma try_queues_cases:
  assumes "list_all (quiet w d) qs" "try_queues qs w d = (r, w', d')"
  shows "(r = Inr False \<and> w' = w \<and> d' = d \<and> (\<forall>q \<in> set qs. q w d = (Inr False, w, d)))
    \<or> (\<exists>q \<in> set qs. q w d = (r, w', d') \<and> r \<noteq> Inr False)"
  using assms
proof (induction qs)
  case (Cons q qs)
  obtain s w1 d1 where q: "q w d = (s, w1, d1)" by (metis prod_cases3)
  show ?case
  proof (cases "s = Inr False")
    case True
    then have "w1 = w" "d1 = d" using Cons.prems(1) q by (auto simp: quiet_def)
    then show ?thesis using Cons q True by auto
  next
    case False
    then show ?thesis using Cons.prems(2) q by (auto split: sum.splits if_splits)
  qed
qed simp

text \<open>The queue whose turn it is goes first.\<close>

lemma try_queues_first: "q w d = (r, w', d') \<Longrightarrow> r \<noteq> Inr False \<Longrightarrow> try_queues (q # qs) w d = (r, w', d')"
  by (auto split: sum.splits)

definition queue_claims :: "db \<Rightarrow> nat list" where
  "queue_claims d = [pending_claims (extraction_jobs d), pending_claims (ingestion_jobs d), pending_claims (report_jobs d)]"

definition queue_idle :: "db \<Rightarrow> bool list" where
  "queue_idle d = [extraction_idle d, ingestion_idle d, report_idle d]"

lemma three: "i < 3 \<longleftrightarrow> i = 0 \<or> i = 1 \<or> i = (2 :: nat)"
  by arith

lemma length_queues [simp]: "length (queues env) = 3"
  by (simp add: queues_def)

lemma rotated_set: "set (map (\<lambda>offset. queues env ! ((first + offset) mod 3)) [0 ..< 3]) \<subseteq> set (queues env)"
  by (auto intro!: nth_mem)

text \<open>The laws of the \<open>i\<close>-th queue, from its interpretation.\<close>

lemma queue_laws:
  assumes "service_ok d" "i < 3" "(queues env ! i) w d = (r, w', d')"
  shows "service_ok d' \<and> (r = Inr False \<longrightarrow> w' = w \<and> d' = d \<and> queue_idle d ! i)
    \<and> (r \<noteq> Inr False \<longrightarrow> sum_list (queue_claims d') < sum_list (queue_claims d) \<and> \<not> queue_idle d ! i
        \<and> queue_claims d' ! i < queue_claims d ! i)"
  using assms(2) unfolding three
proof (elim disjE)
  assume i: "i = 0"
  note run = assms(3)[unfolded queues_def i, simplified]
  note laws = extraction_queue.step_ok[OF assms(1) run] extraction_queue.step_idle[OF assms(1), of "env_llm env"]
    extraction_queue.step_busy[OF assms(1) run]
  show ?thesis using laws run by (auto simp: queue_claims_def queue_idle_def i)
next
  assume i: "i = 1"
  note run = assms(3)[unfolded queues_def i, simplified]
  note laws = ingestion_queue.step_ok[OF assms(1) run] ingestion_queue.step_idle[OF assms(1), of "env_llm env"]
    ingestion_queue.step_busy[OF assms(1) run]
  show ?thesis using laws run by (auto simp: queue_claims_def queue_idle_def i)
next
  assume i: "i = 2"
  note run = assms(3)[unfolded queues_def i, simplified]
  note laws = report_queue.step_ok[OF assms(1) run] report_queue.step_idle[OF assms(1), of "env_llm env"]
    report_queue.step_busy[OF assms(1) run]
  show ?thesis using laws run by (auto simp: queue_claims_def queue_idle_def i)
qed

lemma rotation_reaches:
  assumes "i < (3 :: nat)"
  shows "\<exists>k < 3. (first + k) mod 3 = i"
proof -
  have "\<exists>k < 3. (f + k) mod 3 = i" if "f < 3" for f
    using that assms by (intro exI[of _ "if i < f then i + 3 - f else i - f"]) auto
  from this[of "first mod 3"] show ?thesis by (simp add: mod_add_left_eq)
qed

lemma queues_quiet:
  assumes "service_ok d"
  shows "list_all (quiet w d) (queues env)"
  using queue_laws[OF assms, where env = env and w = w] by (fastforce simp: quiet_def list_all_length)

lemma run_next_job_laws:
  assumes ok: "service_ok d" and run: "run_next_job env first w d = (r, w', d')"
  shows "service_ok d' \<and> (r = Inr False \<longrightarrow> w' = w \<and> d' = d \<and> list_all id (queue_idle d))
    \<and> (r \<noteq> Inr False \<longrightarrow> sum_list (queue_claims d') < sum_list (queue_claims d) \<and> \<not> list_all id (queue_idle d))"
proof -
  let ?qs = "map (\<lambda>k. queues env ! ((first + k) mod 3)) [0 ..< 3]"
  have a: "try_queues ?qs w d = (r, w', d')" using run by (simp add: run_next_job_def Let_def)
  have b: "list_all (quiet w d) ?qs"
    using queues_quiet[OF ok, of w env] rotated_set[of env first] by (auto simp: list_all_iff)
  from try_queues_cases[OF b a] consider (None) "r = Inr False" "w' = w" "d' = d" "\<forall>q \<in> set ?qs. q w d = (Inr False, w, d)"
    | (One) q where "q \<in> set ?qs" "q w d = (r, w', d')" "r \<noteq> Inr False"
    by blast
  then show ?thesis
  proof cases
    case None
    have "queue_idle d ! i" if i: "i < 3" for i
    proof -
      obtain k where k: "k < 3" "(first + k) mod 3 = i" using rotation_reaches[OF i] by blast
      have "queues env ! ((first + k) mod 3) \<in> set ?qs" using k(1) by simp
      then have "(queues env ! i) w d = (Inr False, w, d)" 
        using bspec[OF None(4) \<open>queues env ! ((first + k) mod 3) \<in> set ?qs\<close>] by (simp only: k(2))
      from queue_laws[OF ok i this] show ?thesis by simp
    qed
    then show ?thesis using None ok by (simp add: list_all_length queue_idle_def)
  next
    case (One q)
    have "q \<in> set (queues env)" using One(1) rotated_set by blast
    then obtain i where i: "i < 3" "q = queues env ! i" by (auto simp: in_set_conv_nth)
    note laws = queue_laws[OF ok i(1) One(2)[unfolded i(2)]]
    have "length (queue_idle d) = 3" by (simp add: queue_idle_def)
    then have "\<not> list_all id (queue_idle d)" using laws One(3) i(1) by (auto simp: list_all_length)
    then show ?thesis using laws One(3) by simp
  qed
qed

interpretation worker_queue: job_queue "run_next_job env first" "\<lambda>d. sum_list (queue_claims d)" "\<lambda>_. 0"
    "\<lambda>d. list_all id (queue_idle d)"
  for env first
  by unfold_locales (simp add: queue_claims_def, (blast dest: run_next_job_laws)+)

subsection \<open>Lemmas: the loop\<close>

lemma worker_loop_laws:
  "service_ok d \<Longrightarrow> worker_loop env turn ts w d = (rs, w', d') \<Longrightarrow>
   service_ok d' \<and> length (filter (\<lambda>r. r \<noteq> Inr False) rs) + sum_list (queue_claims d') \<le> sum_list (queue_claims d)
   \<and> (length rs = length ts \<or> (rs \<noteq> [] \<and> (\<exists>e. last rs = Inl e)))"
proof (induction ts arbitrary: turn w d rs)
  case (Cons t ts)
  obtain r w1 d1 where s: "run_next_job env turn w (d\<lparr>clock := t\<rparr>) = (r, w1, d1)" by (metis prod_cases3)
  have ok: "service_ok (d\<lparr>clock := t\<rparr>)" using Cons.prems(1) by (simp add: service_clock)
  have cl: "sum_list (queue_claims (d\<lparr>clock := t\<rparr>)) = sum_list (queue_claims d)" by (simp add: queue_claims_def)
  note laws = run_next_job_laws[OF ok s]
  show ?case
  proof (cases r)
    case (Inl e)
    then show ?thesis using Cons.prems(2) s laws cl by auto
  next
    case (Inr did)
    obtain rs' where l: "worker_loop env ((turn + 1) mod queue_count) ts w1 d1 = (rs', w', d')" "rs = Inr did # rs'"
      using Cons.prems(2) s Inr by (auto split: prod.splits)
    have "service_ok d1" using laws by blast
    from Cons.IH[OF this l(1)] show ?thesis using laws cl l(2) Inr by (cases did) auto
  qed
qed simp

subsection \<open>Properties\<close>

text \<open>
  C36: No queue starves: when the queue whose turn it is has a runnable job, the pass serves
  that queue, whatever the backlog of the other two, and uses up one of its claims. (The
  turn advances by one every pass, so every queue has its turn in any three passes.)
\<close>

theorem turn_is_served:
  assumes "service_ok d" "i < 3" "\<not> queue_idle d ! i" "run_next_job env i w d = (r, w', d')"
  shows "(queues env ! i) w d = (r, w', d') \<and> r \<noteq> Inr False \<and> queue_claims d' ! i < queue_claims d ! i"
proof -
  obtain s w1 d1 where q: "(queues env ! i) w d = (s, w1, d1)" by (metis prod_cases3)
  have s: "s \<noteq> Inr False" using queue_laws[OF assms(1,2) q] assms(3) by blast
  have "map (\<lambda>k. queues env ! ((i + k) mod 3)) [0 ..< 3]
      = queues env ! i # map (\<lambda>k. queues env ! ((i + k) mod 3)) [1 ..< 3]"
    using assms(2) by (simp add: upt_conv_Cons)
  then have "run_next_job env i w d = (s, w1, d1)"
    using try_queues_first[where q = "queues env ! i", OF q s] by (simp only: run_next_job_def Let_def length_queues)
  then show ?thesis using queue_laws[OF assms(1,2) q] q s assms(4) by simp
qed

definition sample_worker :: "unit worker_env" where
  "sample_worker = \<lparr>env_llm = report_llm, env_coercions = plain_coercions, env_extractors = no_extractors,
     env_engines = plain_engines, env_data_dir = ''data'', env_files = (\<lambda>_. None),
     env_extraction_threshold = 1 / 2, env_impact_threshold = 1 / 2\<rparr>"

lemma report_db_idle: "\<not> queue_idle report_db ! 2"
  by (simp add: queue_idle_def report_idle_def report_db_def runnable_def new_report_job_def)

theorem turn_is_served_witness:
  "queue_claims (snd (snd (run_next_job sample_worker 2 () report_db))) ! 2 < queue_claims report_db ! 2"
proof -
  obtain r w' d' where p: "run_next_job sample_worker 2 () report_db = (r, w', d')" by (metis prod_cases3)
  have "(2 :: nat) < 3" by simp
  from turn_is_served[OF report_db_ok this report_db_idle p] show ?thesis by (simp add: p)
qed


lemma report_db_claims: "sum_list (queue_claims report_db) = 4"
  by code_simp


text \<open>
  One stored PDF whose text has a zero byte ends three worker processes, each started when
  the lease of the last has run out; the fourth finds the attempts spent and fails the job.
\<close>

fun restarts :: "unit worker_env \<Rightarrow> time list \<Rightarrow> db \<Rightarrow> (exn + bool) list list \<times> db" where
  "restarts env [] d = ([], d)"
| "restarts env (t # ts) d =
     (case worker_loop env 0 [t] () d of (rs, _, d') \<Rightarrow> (case restarts env ts d' of (rss, d'') \<Rightarrow> (rs # rss, d'')))"

lemma zero_byte_ends_three_workers:
  "fst (restarts (sample_worker\<lparr>env_llm := idle_llm, env_extractors := nul_page_pdf, env_files := (\<lambda>_. Some ''%PDF-1.7'')\<rparr>)
      [0, 1000000000, 2000000000, 3000000000] queued_pdf_db) = [[Inl Data_Error], [Inl Data_Error], [Inl Data_Error], [Inr True]]"
  "map job_status (ingestion_jobs (snd (restarts (sample_worker\<lparr>env_llm := idle_llm, env_extractors := nul_page_pdf,
      env_files := (\<lambda>_. Some ''%PDF-1.7'')\<rparr>) [0, 1000000000, 2000000000, 3000000000] queued_pdf_db))) = [Failed]"
  by code_simp+

end
