(* ===== verification/Tenancy.thy ===== *)
theory Tenancy
  imports ChangeReport Ingestion ReviewQueue
begin

section \<open>Tenants apart\<close>

text \<open>
  Every table carries a tenant column. This theory states what each service operation does
  to the rows of the other tenants, namely nothing, together with the invariants it keeps;
  deletes work by document and by job rather than by tenant, so this rests on the
  invariants. The locale states the contract of a system shared by tenants.
\<close>

subsection \<open>The contract\<close>

text \<open>
  A system shared by tenants: an action keeps the invariant, and leaves the view of every
  tenant alone but the one it acts for, if any.
\<close>

locale multi_tenant =
  fixes inv :: "'s \<Rightarrow> bool"
    and view :: "'t \<Rightarrow> 's \<Rightarrow> 'v"
    and actor :: "'a \<Rightarrow> 's \<Rightarrow> 't option"
    and act :: "'a \<Rightarrow> 's \<Rightarrow> 's"
  assumes keeps: "inv s \<Longrightarrow> inv (act a s)"
    and spares: "inv s \<Longrightarrow> actor a s \<noteq> Some u \<Longrightarrow> view u (act a s) = view u s"
begin

lemma session_keeps: "inv s \<Longrightarrow> inv (fold act as s)"
  by (induction as arbitrary: s) (simp_all add: keeps)

lemma session_spares:
  "inv s \<Longrightarrow> (\<And>n. n < length as \<Longrightarrow> actor (as ! n) (fold act (take n as) s) \<noteq> Some u) \<Longrightarrow> view u (fold act as s) = view u s"
proof (induction as arbitrary: s)
  case (Cons a as)
  have "actor a s \<noteq> Some u" using Cons.prems(2)[of 0] by simp
  moreover have "view u (fold act as (act a s)) = view u (act a s)"
    using Cons.prems(2)[of "Suc n" for n] by (intro Cons.IH keeps Cons.prems(1)) fastforce
  ultimately show ?case using spares[OF Cons.prems(1)] by simp
qed simp

end

subsection \<open>Views and invariants\<close>

definition tenant_rows :: "uuid \<Rightarrow> db \<Rightarrow> (document list \<times> document_text list \<times> document_chunk list \<times> doc_job list \<times> doc_job list)
    \<times> report_job list \<times> review_item list \<times> audit_entry list \<times> usage_record list" where
  "tenant_rows u d =
     ((filter (\<lambda>r. doc_tenant r = u) (documents d), filter (\<lambda>r. txt_tenant r = u) (texts d),
       filter (\<lambda>r. ck_tenant r = u) (chunks d), filter (\<lambda>j. job_tenant j = u) (ingestion_jobs d),
       filter (\<lambda>j. job_tenant j = u) (extraction_jobs d)),
      filter (\<lambda>j. job_tenant j = u) (report_jobs d), filter (\<lambda>r. ri_tenant r = u) (review_items d),
      filter (\<lambda>r. au_tenant r = u) (audit_log d), filter (\<lambda>r. ur_tenant r = u) (usage_log d))"

text \<open>
  A review item points, without a foreign key, at the job that raised it: a job of its own
  tenant, in one of two tables whose identifiers are apart.
\<close>

definition linked :: "db \<Rightarrow> bool" where
  "linked d \<longleftrightarrow> (\<forall>r \<in> set (review_items d). ri_job r < next_id d)
     \<and> (\<forall>r \<in> set (review_items d). \<forall>j \<in> set (extraction_jobs d). ri_job r = job_id j \<longrightarrow> ri_tenant r = job_tenant j)
     \<and> (\<forall>r \<in> set (review_items d). \<forall>j \<in> set (report_jobs d). ri_job r = job_id j \<longrightarrow> ri_tenant r = job_tenant j)
     \<and> (\<forall>a \<in> set (extraction_jobs d). \<forall>b \<in> set (report_jobs d). job_id a \<noteq> job_id b)"

definition shared_ok :: "db \<Rightarrow> bool" where
  "shared_ok d \<longleftrightarrow> service_ok d \<and> linked d"

lemma shared_ok_empty: "shared_ok empty_db"
  by (simp add: shared_ok_def service_ok_empty) (simp add: linked_def empty_db_def)

text \<open>An operation of tenant \<open>t\<close> that keeps the invariants and the other tenants' rows.\<close>

definition private_step :: "uuid \<Rightarrow> db \<Rightarrow> db \<Rightarrow> bool" where
  "private_step t d d' \<longleftrightarrow> shared_ok d' \<and> (\<forall>u. u \<noteq> t \<longrightarrow> tenant_rows u d' = tenant_rows u d)"

lemma private_refl: "shared_ok d \<Longrightarrow> private_step t d d"
  by (simp add: private_step_def)

lemma linked_same:
  "review_items d' = review_items d \<Longrightarrow> extraction_jobs d' = extraction_jobs d \<Longrightarrow> report_jobs d' = report_jobs d \<Longrightarrow>
   next_id d \<le> next_id d' \<Longrightarrow> linked d \<Longrightarrow> linked d'"
  by (auto simp: linked_def dest: order.strict_trans2)

lemma audit_private:
  assumes "private_step t d d'"
  shows "private_step t d (audit_record ctx t a rt r det d')"
proof -
  let ?d = "audit_record ctx t a rt r det d'"
  have ok: "service_ok d'" "linked d'" using assms by (simp_all add: private_step_def shared_ok_def)
  have "linked ?d" by (rule linked_same[OF _ _ _ _ ok(2)]) (simp_all add: audit_record_def)
  moreover have "citations_ok ?d = citations_ok d'" by (rule citations_same) (simp_all add: audit_record_def)
  then have "service_ok ?d" using ok(1) audit_ok[of d' ctx t a rt r det] by (simp add: service_ok_def)
  moreover have "tenant_rows u ?d = tenant_rows u d" if "u \<noteq> t" for u
    using assms that by (simp add: private_step_def tenant_rows_def audit_record_def)
  ultimately show ?thesis by (simp add: private_step_def shared_ok_def)
qed

subsection \<open>Documents\<close>

lemma upload_private:
  assumes "shared_ok d" "upload_document lib ctx mx (\<lambda>d. d) t fname ct reads parent (fs, d) = (r, fs', d')"
  shows "private_step t d d'"
proof (cases r)
  case (Inl e)
  then have "d' = d" using assms(2)
    by (auto simp: upload_document_def Let_def split: if_splits sum.splits option.splits)
  then show ?thesis using private_refl[OF assms(1)] by simp
next
  case (Inr row)
  obtain content d1 where u: "upload_valid lib mx t ct reads parent d = Inr content"
    "create_document t (case fname of None \<Rightarrow> ''untitled'' | Some n \<Rightarrow> if n = [] then ''untitled'' else n)
       (the ct) (sha256_hex lib content) parent d = Inr (row, d1)"
    "d' = audit_record ctx (doc_tenant row) ''document.upload'' ''document'' (Some (doc_id row))
       (Some (upload_detail row (length content))) d1"
    using upload_document_Inr[OF assms(2)[unfolded Inr]] by blast
  have ok: "db_ok d" "citations_ok d" "linked d" using assms(1) by (simp_all add: shared_ok_def service_ok_def)
  have parent: "owned (documents d) t p" if "parent = Some p" for p using upload_valid_parent u(1) that by blast
  note c = create_document_ok[OF ok(1) u(2) parent]
  have e: "texts d1 = texts d" "chunks d1 = chunks d" "ingestion_jobs d1 = ingestion_jobs d" "extraction_jobs d1 = extraction_jobs d"
    "report_jobs d1 = report_jobs d" "review_items d1 = review_items d" "audit_log d1 = audit_log d" "usage_log d1 = usage_log d"
    "next_id d \<le> next_id d1"
    using u(2) by (auto simp: create_document_def Let_def split: if_splits)
  have "citations_ok d1" using ok(2) c(2,6) e by (auto simp: citations_ok_def)
  moreover have "linked d1" by (rule linked_same[OF _ _ _ _ ok(3)]) (simp_all add: e)
  moreover have "tenant_rows v d1 = tenant_rows v d" if "v \<noteq> t" for v
    using that c(2,3) e by (simp add: tenant_rows_def)
  ultimately have "private_step t d d1" using c(1) by (simp add: private_step_def shared_ok_def service_ok_def)
  then show ?thesis using u(3) c(3) audit_private by simp
qed

text \<open>A row that names a document of tenant \<open>t\<close> is a row of tenant \<open>t\<close>.\<close>

lemma owner_unique: "docs_ok ds \<Longrightarrow> owned ds t i \<Longrightarrow> owned ds u i \<Longrightarrow> u = t"
  by (auto simp: owned_def docs_ok_def dest: distinct_key_eq)

lemma filter_delete_other: "(\<And>r. r \<in> set rows \<Longrightarrow> p r \<Longrightarrow> \<not> q r) \<Longrightarrow> filter q (delete_where p rows) = filter q rows"
  unfolding delete_where_def by (induction rows) auto

lemma sweep_private:
  assumes "shared_ok d" "owned (documents d) t i" "\<not> has_amendments i d"
  shows "private_step t d ((delete_sweep i d)\<lparr>documents := delete_where (\<lambda>r. doc_id r = i) (documents d)\<rparr>)" (is "private_step t d ?d")
proof -
  have ok: "db_ok d" "citations_ok d" "linked d" using assms(1) by (simp_all add: shared_ok_def service_ok_def)
  have parts: "docs_ok (documents d)" "texts_ok (documents d) (texts d)" "chunks_ok (documents d) (chunks d)"
    "jobs_ok (documents d) (ingestion_jobs d)" "jobs_ok (documents d) (extraction_jobs d)"
    "reports_ok (documents d) (report_jobs d)" "reviews_ok (documents d) (review_items d)" using ok(1) by (simp_all add: db_ok_def)
  note ou = owner_unique[OF parts(1) assms(2)]
  have rep: "job_tenant j = t" if "j \<in> set (report_jobs d)" "rj_amended j = i" for j
  proof -
    have "owned (documents d) (job_tenant j) i" using parts(6) that by (auto simp: reports_ok_def amends_def owned_def)
    then show ?thesis by (rule ou)
  qed
  have "tenant_rows u ?d = tenant_rows u d" if u: "u \<noteq> t" for u
  proof -
    have "filter (\<lambda>r. doc_tenant r = u) (delete_where (\<lambda>r. doc_id r = i) (documents d)) = filter (\<lambda>r. doc_tenant r = u) (documents d)"
      by (rule filter_delete_other) (use u ou in \<open>auto simp: owned_def\<close>)
    moreover have "filter (\<lambda>r. txt_tenant r = u) (delete_where (\<lambda>r. txt_document r = i) (texts d)) = filter (\<lambda>r. txt_tenant r = u) (texts d)"
      by (rule filter_delete_other) (use u ou parts(2) in \<open>auto simp: texts_ok_def\<close>)
    moreover have "filter (\<lambda>r. ck_tenant r = u) (delete_where (\<lambda>r. ck_document r = i) (chunks d)) = filter (\<lambda>r. ck_tenant r = u) (chunks d)"
      by (rule filter_delete_other) (use u ou parts(3) in \<open>auto simp: chunks_ok_def\<close>)
    moreover have "filter (\<lambda>j. job_tenant j = u) (delete_where (\<lambda>j. dj_document j = i) (ingestion_jobs d)) = filter (\<lambda>j. job_tenant j = u) (ingestion_jobs d)"
      by (rule filter_delete_other) (use u ou parts(4) in \<open>auto simp: jobs_ok_def\<close>)
    moreover have "filter (\<lambda>j. job_tenant j = u) (delete_where (\<lambda>j. dj_document j = i) (extraction_jobs d)) = filter (\<lambda>j. job_tenant j = u) (extraction_jobs d)"
      by (rule filter_delete_other) (use u ou parts(5) in \<open>auto simp: jobs_ok_def\<close>)
    moreover have "filter (\<lambda>j. job_tenant j = u) (delete_where (\<lambda>j. rj_amended j = i) (report_jobs d)) = filter (\<lambda>j. job_tenant j = u) (report_jobs d)"
      by (rule filter_delete_other) (use u rep in auto)
    moreover have "filter (\<lambda>r. ri_tenant r = u) (delete_where (\<lambda>r. ri_document r = i
        \<or> ri_job r \<in> job_id ` {j \<in> set (report_jobs d). rj_amended j = i}) (review_items d)) = filter (\<lambda>r. ri_tenant r = u) (review_items d)"
      by (rule filter_delete_other) (use u ou rep parts(7) ok(3) in \<open>fastforce simp: reviews_ok_def linked_def\<close>)
    ultimately show ?thesis by (simp add: tenant_rows_def delete_sweep_eq)
  qed
  moreover have "linked ?d" using ok(3) by (auto simp: linked_def delete_sweep_eq row_simps)
  moreover have "citations_ok ?d" using ok(2) by (fastforce simp: citations_ok_def delete_sweep_eq row_simps grounded_chunk_def)
  ultimately show ?thesis using delete_ok[OF ok(1) assms(3)] by (simp add: private_step_def shared_ok_def service_ok_def)
qed

lemma delete_private:
  assumes "shared_ok d" "delete_document ctx (\<lambda>d. d) t i (fs, d) = (r, fs', d')"
  shows "private_step t d d'"
proof -
  have ok: "db_ok d" using assms(1) by (simp add: shared_ok_def service_ok_def)
  note res = assms(2)[unfolded delete_document_result[of "\<lambda>d. d" d ctx t i fs, OF ok]]
  show ?thesis
  proof (cases "find_document t i d = None \<or> has_amendments i d")
    case True
    then have "d' = d" using res by (auto split: option.splits)
    then show ?thesis using private_refl[OF assms(1)] by simp
  next
    case False
    then obtain row where row: "find_document t i d = Some row" "\<not> has_amendments i d" by auto
    note p = audit_private[OF sweep_private[OF assms(1) find_document_owned[OF row(1)] row(2)]]
    have "d' = audit_record ctx t ''document.delete'' ''document'' (Some i)
        (Some (JObj [(''filename'', JStr (doc_filename row)), (''sha256'', JStr (doc_sha row))]))
        ((delete_sweep i d)\<lparr>documents := delete_where (\<lambda>r. doc_id r = i) (documents d)\<rparr>)"
      using res row by simp
    then show ?thesis using p by simp
  qed
qed

subsection \<open>Jobs, reviews, search\<close>

lemma citations_ok_jobs:
  "citations_ok (snd (create_ingestion_job t i d)) = citations_ok d"
  "citations_ok (snd (create_extraction_job t i d)) = citations_ok d"
  "citations_ok (snd (create_report_job t b a d)) = citations_ok d"
  by (simp_all add: citations_ok_def create_ingestion_job_def create_extraction_job_def create_report_job_def Let_def)

lemma create_job_private:
  assumes "shared_ok d"
  shows "owned (documents d) t i \<Longrightarrow> private_step t d (snd (create_ingestion_job t i d))"
    and "owned (documents d) t i \<Longrightarrow> private_step t d (snd (create_extraction_job t i d))"
    and "amends (documents d) t b a \<Longrightarrow> private_step t d (snd (create_report_job t b a d))"
proof -
  have ok: "db_ok d" "citations_ok d" "linked d" using assms by (simp_all add: shared_ok_def service_ok_def)
  have ids: "job_id j \<noteq> next_id d" if "j \<in> set (extraction_jobs d)" for j using fresh_job_id(2)[OF ok(1)] that by force
  have ids': "job_id j \<noteq> next_id d" if "j \<in> set (report_jobs d)" for j using fresh_job_id(3)[OF ok(1)] that by force
  have "linked (snd (create_ingestion_job t i d))"
    by (rule linked_same[OF _ _ _ _ ok(3)]) (simp_all add: create_ingestion_job_def Let_def)
  then show "private_step t d (snd (create_ingestion_job t i d))" if "owned (documents d) t i"
    using create_jobs_ok(1)[OF ok(1) that] ok(2)
    by (simp add: private_step_def shared_ok_def service_ok_def citations_ok_jobs)
      (simp add: tenant_rows_def create_ingestion_job_def new_doc_job_def Let_def)
  have "linked (snd (create_extraction_job t i d))" using ok(3) ids ids'
    by (auto simp: linked_def create_extraction_job_def new_doc_job_def Let_def dest: ids')
  then show "private_step t d (snd (create_extraction_job t i d))" if "owned (documents d) t i"
    using create_jobs_ok(2)[OF ok(1) that] ok(2)
    by (simp add: private_step_def shared_ok_def service_ok_def citations_ok_jobs)
      (simp add: tenant_rows_def create_extraction_job_def new_doc_job_def Let_def)
  have "linked (snd (create_report_job t b a d))" using ok(3) ids ids'
    by (auto simp: linked_def create_report_job_def new_report_job_def Let_def)
  then show "private_step t d (snd (create_report_job t b a d))" if "amends (documents d) t b a"
    using create_jobs_ok(3)[OF ok(1) that] ok(2)
    by (simp add: private_step_def shared_ok_def service_ok_def citations_ok_jobs)
      (simp add: tenant_rows_def create_report_job_def new_report_job_def Let_def)
qed

lemma enqueue_ingestion_private:
  assumes "shared_ok d" "enqueue_ingestion ctx t i d = (r, d')"
  shows "private_step t d d'"
proof (cases "find_document t i d")
  case None
  then show ?thesis using assms private_refl by (simp add: enqueue_ingestion_def)
next
  case (Some row)
  note p = create_job_private(1)[OF assms(1) find_document_owned[OF Some]]
  show ?thesis using assms private_refl[OF assms(1)] Some audit_private[OF p]
    by (auto simp: enqueue_ingestion_def Let_def split: option.splits prod.splits)
qed

lemma enqueue_extraction_private:
  assumes "shared_ok d" "enqueue_extraction ctx t i d = (r, d')"
  shows "private_step t d d'"
proof (cases "find_document t i d")
  case None
  then show ?thesis using assms private_refl by (simp add: enqueue_extraction_def)
next
  case (Some row)
  note p = create_job_private(2)[OF assms(1) find_document_owned[OF Some]]
  show ?thesis using assms private_refl[OF assms(1)] Some audit_private[OF p]
    by (auto simp: enqueue_extraction_def Let_def split: option.splits prod.splits if_splits)
qed

lemma enqueue_report_private:
  assumes "shared_ok d" "enqueue_change_report ctx t b a d = (r, d')"
  shows "private_step t d d'"
proof (cases "find_document t b d = None \<or> find_document t a d = None")
  case True
  then show ?thesis using assms private_refl by (auto simp: enqueue_change_report_def split: option.splits)
next
  case False
  then obtain rb ra where f: "find_document t b d = Some rb" "find_document t a d = Some ra" by auto
  have ids: "doc_id rb = b" "doc_id ra = a" using find_document_Some[OF f(1)] find_document_Some[OF f(2)] by simp_all
  have ok: "db_ok d" using assms(1) by (simp add: shared_ok_def service_ok_def)
  show ?thesis
  proof (cases "doc_amends ra = Some b \<and> missing_prerequisite d rb = None \<and> missing_prerequisite d ra = None")
    case True
    then have "amends (documents d) t b a" using find_amends[OF ok f(2)] by simp
    note p = create_job_private(3)[OF assms(1) this]
    show ?thesis using assms(2) f ids True audit_private[OF p] by (auto simp: enqueue_change_report_def Let_def split: prod.splits)
  next
    case False
    then have "d' = d" using assms(2) f ids by (auto simp: enqueue_change_report_def split: option.splits if_splits)
    then show ?thesis using private_refl[OF assms(1)] by simp
  qed
qed

lemma usage_private:
  assumes "private_step t d d'"
  shows "private_step t d (usage_record_call ctx t k j u d')"
proof -
  let ?d = "usage_record_call ctx t k j u d'"
  have ok: "service_ok d'" "linked d'" using assms by (simp_all add: private_step_def shared_ok_def)
  have "linked ?d" by (rule linked_same[OF _ _ _ _ ok(2)]) (simp_all add: usage_record_call_def)
  moreover have "citations_ok ?d = citations_ok d'" by (rule citations_same) (simp_all add: usage_record_call_def)
  then have "service_ok ?d" using ok(1) usage_ok[of d' ctx t k j u] by (simp add: service_ok_def)
  moreover have "tenant_rows v ?d = tenant_rows v d" if "v \<noteq> t" for v
    using assms that by (simp add: private_step_def tenant_rows_def usage_record_call_def)
  ultimately show ?thesis by (simp add: private_step_def shared_ok_def)
qed

lemma search_private:
  assumes "shared_ok d" "search ctx llm en t q n w d = (r, w', d')"
  shows "private_step t d d'"
proof -
  have "hybrid_hits llm en (sink ctx t Use_Search None) t None q n w d = (r, w', d')" using assms(2) by (simp add: search_def)
  from hybrid_hits_cases[OF this] have "d' = d \<or> (\<exists>u. d' = sink ctx t Use_Search None u d)" by blast
  then show ?thesis using private_refl[OF assms(1)] usage_private[OF private_refl[OF assms(1)]] by (auto simp: sink_def)
qed

lemma resolve_private:
  assumes "shared_ok d" "resolve_review_item ctx (\<lambda>d. d) t i st c d = (r, d')"
  shows "private_step t d d'"
proof (cases "resolve_row t i st c d")
  case (Pair q d1)
  have ok: "db_ok d" "citations_ok d" "linked d" using assms(1) by (simp_all add: shared_ok_def service_ok_def)
  have dist: "distinct (map ri_id (review_items d))" using ok(1) by (simp add: db_ok_def reviews_ok_def)
  have p: "private_step t d d1"
  proof (cases q)
    case None
    then show ?thesis using Pair resolve_row_None[of t i st c d d1] private_refl[OF assms(1)] by simp
  next
    case (Some r')
    let ?f = "\<lambda>r. r\<lparr>ri_status := st, ri_corrected := c, ri_resolved := Some (clock d), ri_updated := clock d\<rparr>"
    let ?p = "\<lambda>r. ri_id r = i \<and> ri_tenant r = t \<and> ri_status r = Pending"
    have d1: "d1 = d\<lparr>review_items := update_where ?p ?f (review_items d)\<rparr>"
      using Pair by (simp add: resolve_row_def Let_def)
    have "filter (\<lambda>r. ri_tenant r = u) (update_where ?p ?f rows) = filter (\<lambda>r. ri_tenant r = u) rows" if "u \<noteq> t" for u rows
      using that unfolding update_where_def by (induction rows) auto
    then have "tenant_rows u d1 = tenant_rows u d" if "u \<noteq> t" for u using that by (simp add: d1 tenant_rows_def)
    moreover have "linked d1" using ok(3) by (auto simp: linked_def d1 row_simps)
    moreover have "citations_ok d1" using ok(2) by (simp add: citations_ok_def d1)
    moreover have "db_ok d1" using resolve_ok[OF ok(1), of t i st c] Pair by simp
    ultimately show ?thesis by (simp add: private_step_def shared_ok_def service_ok_def)
  qed
  show ?thesis using assms(2) Pair p private_refl[OF assms(1)] audit_private[OF p]
    by (auto simp: resolve_review_item_def split: sum.splits option.splits if_splits)
qed

end
