(* ===== verification/Jwks.thy ===== *)
theory Jwks
  imports Errors
begin

section \<open>Signing keys of the identity provider (app/auth/jwks.py)\<close>

text \<open>
  The key cache fetches the provider's key set over HTTP. The wire, the monotonic clock and
  the constructor of keys are the parameter \<open>idp\<close>; what the client makes of the answer, of
  every malformed one too, is modelled. Time is in seconds.
\<close>

datatype wire_reply = Wire_Error | Wire_Not_Json | Wire_Json json

record ('k, 'w) idp =
  wire_get :: "string \<Rightarrow> 'w \<Rightarrow> wire_reply \<times> 'w"
  monotonic :: "'w \<Rightarrow> rat \<times> 'w"
  make_key :: "json \<Rightarrow> 'k option"

definition unknown_kid_refresh_seconds :: rat where
  "unknown_kid_refresh_seconds = 30"

text \<open>\<open>None\<close> as the time of the last fetch is minus infinity.\<close>

record 'k jwks_client =
  jw_url :: string
  jw_cache_seconds :: rat
  jw_keys :: "(json \<times> 'k) list"
  jw_fetched_at :: "rat option"

definition new_jwks_client :: "string \<Rightarrow> rat \<Rightarrow> 'k jwks_client" where
  "new_jwks_client domain cache_seconds =
     \<lparr>jw_url = ''https://'' @ domain @ ''/.well-known/jwks.json'', jw_cache_seconds = cache_seconds,
      jw_keys = [], jw_fetched_at = None\<rparr>"

subsection \<open>Reading a key set\<close>

text \<open>\<^verbatim>\<open>bool(value)\<close> of a decoded JSON value.\<close>

definition truthy :: "json \<Rightarrow> bool" where
  "truthy v \<longleftrightarrow> (case v of JNull \<Rightarrow> False | JBool b \<Rightarrow> b | JNum q \<Rightarrow> q \<noteq> 0 | JStr s \<Rightarrow> s \<noteq> []
     | JArr xs \<Rightarrow> xs \<noteq> [] | JObj kvs \<Rightarrow> kvs \<noteq> [])"

definition opt_truthy :: "json option \<Rightarrow> bool" where
  "opt_truthy v \<longleftrightarrow> (case v of None \<Rightarrow> False | Some x \<Rightarrow> truthy x)"

definition unavailable :: "'k jwks_client \<Rightarrow> exn" where
  "unavailable c = Jwks_Unavailable (''jwks fetch failed url='' @ jw_url c)"

text \<open>
  Iterating what \<^verbatim>\<open>["keys"]\<close> holds: a list, the keys of an object, the characters of a
  string. \<open>None\<close>: not iterable, a type error.
\<close>

definition iterated :: "json \<Rightarrow> json list option" where
  "iterated v = (case v of JArr xs \<Rightarrow> Some xs | JObj kvs \<Rightarrow> Some (map (\<lambda>kv. JStr (fst kv)) kvs)
     | JStr s \<Rightarrow> Some (map (\<lambda>c. JStr [c]) s) | _ \<Rightarrow> None)"

definition hashable :: "json \<Rightarrow> bool" where
  "hashable v \<longleftrightarrow> (case v of JArr _ \<Rightarrow> False | JObj _ \<Rightarrow> False | _ \<Rightarrow> True)"

text \<open>
  One entry of the comprehension. An entry that is no object has no \<^verbatim>\<open>get\<close>: an attribute
  error, which \<open>fetch_keys\<close> does not turn into its own error. The other failures are the
  key constructor's and an unhashable key identifier.
\<close>

definition read_entry :: "('k, 'w) idp \<Rightarrow> 'k jwks_client \<Rightarrow> json \<Rightarrow> exn + (json \<times> 'k) option" where
  "read_entry idp c v =
     (case v of
        JObj kvs \<Rightarrow>
          (if opt_truthy (map_of kvs ''kid'') \<and> map_of kvs ''use'' \<in> {None, Some (JStr ''sig'')}
           then (case make_key idp v of
              None \<Rightarrow> Inl (unavailable c)
            | Some k \<Rightarrow> if hashable (the (map_of kvs ''kid'')) then Inr (Some (the (map_of kvs ''kid''), k))
                       else Inl (unavailable c))
           else Inr None)
      | _ \<Rightarrow> Inl (Attribute_Error ''object has no attribute get''))"

fun read_entries :: "('k, 'w) idp \<Rightarrow> 'k jwks_client \<Rightarrow> json list \<Rightarrow> exn + (json \<times> 'k) list" where
  "read_entries idp c [] = Inr []"
| "read_entries idp c (v # vs) =
     (case read_entry idp c v of
        Inl e \<Rightarrow> Inl e
      | Inr r \<Rightarrow>
          (case read_entries idp c vs of
             Inl e \<Rightarrow> Inl e
           | Inr ks \<Rightarrow> Inr (case r of None \<Rightarrow> ks | Some kv \<Rightarrow> kv # ks)))"

definition fetch_keys :: "('k, 'w) idp \<Rightarrow> 'k jwks_client \<Rightarrow> wire_reply \<Rightarrow> exn + (json \<times> 'k) list" where
  "fetch_keys idp c reply =
     (case reply of
        Wire_Json (JObj kvs) \<Rightarrow>
          (case map_of kvs ''keys'' of
             None \<Rightarrow> Inl (unavailable c)
           | Some v \<Rightarrow> (case iterated v of None \<Rightarrow> Inl (unavailable c) | Some vs \<Rightarrow> read_entries idp c vs))
      | _ \<Rightarrow> Inl (unavailable c))"

subsection \<open>The cache\<close>

definition fetch :: "('k, 'w) idp \<Rightarrow> 'k jwks_client \<Rightarrow> 'w \<Rightarrow> (exn + unit) \<times> 'k jwks_client \<times> 'w" where
  "fetch idp c w =
     (case wire_get idp (jw_url c) w of (reply, w1) \<Rightarrow>
       (case fetch_keys idp c reply of
          Inl e \<Rightarrow> (Inl e, c, w1)
        | Inr ks \<Rightarrow> (case monotonic idp w1 of (t, w2) \<Rightarrow> (Inr (), c\<lparr>jw_keys := ks, jw_fetched_at := Some t\<rparr>, w2))))"

definition older :: "'k jwks_client \<Rightarrow> rat \<Rightarrow> rat \<Rightarrow> bool" where
  "older c bound t \<longleftrightarrow> (case jw_fetched_at c of None \<Rightarrow> True | Some f \<Rightarrow> t - f > bound)"

text \<open>The dictionary: of two entries with one identifier the later wins.\<close>

definition cached_key :: "'k jwks_client \<Rightarrow> string \<Rightarrow> 'k option" where
  "cached_key c kid = map_of (rev (jw_keys c)) (JStr kid)"

definition get_key :: "('k, 'w) idp \<Rightarrow> string \<Rightarrow> 'k jwks_client \<Rightarrow> 'w \<Rightarrow> (exn + 'k option) \<times> 'k jwks_client \<times> 'w" where
  "get_key idp kid c w =
     (case monotonic idp w of (t1, w1) \<Rightarrow>
      let expired = older c (jw_cache_seconds c) t1;
          (unknown_kid_refresh, w2) =
            (if cached_key c kid = None
             then (case monotonic idp w1 of (t2, w2) \<Rightarrow> (older c unknown_kid_refresh_seconds t2, w2))
             else (False, w1))
      in if expired \<or> unknown_kid_refresh
         then (case fetch idp c w2 of
            (Inl e, c', w3) \<Rightarrow> (Inl e, c', w3)
          | (Inr _, c', w3) \<Rightarrow> (Inr (cached_key c' kid), c', w3))
         else (Inr (cached_key c kid), c, w2))"

subsection \<open>Lemmas\<close>

lemma read_entries_errors:
  "read_entries idp c vs = Inl e \<Longrightarrow> e = unavailable c \<or> (\<exists>m. e = Attribute_Error m)"
  by (induction idp c vs rule: read_entries.induct)
    (auto simp: read_entry_def split: json.splits option.splits if_splits sum.splits)

lemma fetch_keys_errors: "fetch_keys idp c r = Inl e \<Longrightarrow> e = unavailable c \<or> (\<exists>m. e = Attribute_Error m)"
  by (auto simp: fetch_keys_def split: wire_reply.splits json.splits option.splits dest: read_entries_errors)

text \<open>The keys a client trusts are those a provider published for signing.\<close>

definition published :: "('k, 'w) idp \<Rightarrow> json \<Rightarrow> 'k \<Rightarrow> bool" where
  "published idp kid k \<longleftrightarrow> (\<exists>kvs. make_key idp (JObj kvs) = Some k \<and> map_of kvs ''kid'' = Some kid
     \<and> truthy kid \<and> map_of kvs ''use'' \<in> {None, Some (JStr ''sig'')})"

lemma read_entry_published: "read_entry idp c v = Inr (Some (kid, k)) \<Longrightarrow> published idp kid k"
  by (auto simp: read_entry_def opt_truthy_def published_def split: json.splits option.splits if_splits)

lemma read_entries_published: "read_entries idp c vs = Inr ks \<Longrightarrow> (kid, k) \<in> set ks \<Longrightarrow> published idp kid k"
proof (induction vs arbitrary: ks)
  case (Cons v vs)
  then obtain r ks' where "read_entry idp c v = Inr r" "read_entries idp c vs = Inr ks'"
      "ks = (case r of None \<Rightarrow> ks' | Some kv \<Rightarrow> kv # ks')"
    by (auto split: sum.splits)
  then show ?case using Cons.IH Cons.prems(2) read_entry_published[of idp c v kid k] by (auto split: option.splits)
qed simp

definition keys_ok :: "('k, 'w) idp \<Rightarrow> 'k jwks_client \<Rightarrow> bool" where
  "keys_ok idp c \<longleftrightarrow> (\<forall>(kid, k) \<in> set (jw_keys c). published idp kid k)"

lemma fetch_keys_published: "fetch_keys idp c r = Inr ks \<Longrightarrow> (kid, k) \<in> set ks \<Longrightarrow> published idp kid k"
  by (auto simp: fetch_keys_def split: wire_reply.splits json.splits option.splits dest!: read_entries_published)

lemma fetch_spec:
  assumes "fetch idp c w = (r, c', w')"
  shows "keys_ok idp c \<Longrightarrow> keys_ok idp c'" and "jw_url c' = jw_url c" and "jw_cache_seconds c' = jw_cache_seconds c"
    and "r = Inl e \<Longrightarrow> c' = c \<and> (e = unavailable c \<or> (\<exists>m. e = Attribute_Error m))"
    and "r = Inr () \<Longrightarrow> jw_fetched_at c' \<noteq> None"
  using assms fetch_keys_errors fetch_keys_published
  by (fastforce simp: fetch_def keys_ok_def split: prod.splits sum.splits)+

lemma cached_key_published: "keys_ok idp c \<Longrightarrow> cached_key c kid = Some k \<Longrightarrow> published idp (JStr kid) k"
  by (auto simp: cached_key_def keys_ok_def dest!: map_of_SomeD)

lemma get_key_cases:
  assumes "get_key idp kid c w = (r, c', w')"
  obtains (Hit) "c' = c" "r = Inr (cached_key c kid)"
  | (Fetched) u w2 where "fetch idp c w2 = (Inr u, c', w')" "r = Inr (cached_key c' kid)"
  | (Failed) e w2 where "fetch idp c w2 = (Inl e, c', w')" "r = Inl e"
proof -
  obtain t1 w1 where m: "monotonic idp w = (t1, w1)" by fastforce
  obtain u w2 where u: "(if cached_key c kid = None
      then (case monotonic idp w1 of (t2, w2) \<Rightarrow> (older c unknown_kid_refresh_seconds t2, w2)) else (False, w1)) = (u, w2)" by fastforce
  obtain q c1 w3 where f: "fetch idp c w2 = (q, c1, w3)" by (metis prod_cases3)
  have g: "(if older c (jw_cache_seconds c) t1 \<or> u
      then (case q of Inl e \<Rightarrow> (Inl e, c1, w3) | Inr _ \<Rightarrow> (Inr (cached_key c1 kid), c1, w3))
      else (Inr (cached_key c kid), c, w2)) = (r, c', w')"
    using assms unfolding get_key_def m u Let_def prod.case f by (cases q) simp_all
  show thesis
  proof (cases "older c (jw_cache_seconds c) t1 \<or> u")
    case True
    then show thesis using g f by (cases q) (auto intro: Fetched Failed)
  next
    case False
    then show thesis using g Hit by (simp only: if_False prod.inject) blast
  qed
qed

lemma get_key_spec:
  assumes "get_key idp kid c w = (r, c', w')" "keys_ok idp c"
  shows "keys_ok idp c'" and "r = Inr (Some k) \<Longrightarrow> published idp (JStr kid) k"
    and "r = Inl e \<Longrightarrow> c' = c \<and> (e = unavailable c \<or> (\<exists>m. e = Attribute_Error m))"
proof -
  have ok: "keys_ok idp c'" using assms(1)
  proof (cases rule: get_key_cases)
    case (Fetched u w2)
    then show ?thesis using fetch_spec(1)[OF Fetched(1) assms(2)] by simp
  next
    case (Failed e w2)
    then show ?thesis using fetch_spec(1)[OF Failed(1) assms(2)] by simp
  qed (use assms(2) in simp)
  then show "keys_ok idp c'" .
  show "published idp (JStr kid) k" if "r = Inr (Some k)"
    using assms(1) by (cases rule: get_key_cases) (use that ok assms(2) cached_key_published[of idp _ kid k] in auto)
  show "c' = c \<and> (e = unavailable c \<or> (\<exists>m. e = Attribute_Error m))" if "r = Inl e"
    using assms(1) by (cases rule: get_key_cases) (use that in \<open>auto dest: fetch_spec(4)\<close>)
qed

subsection \<open>A stretch of lookups\<close>

text \<open>The times at which a stretch of lookups replaced the key set.\<close>

fun lookups :: "('k, 'w) idp \<Rightarrow> string list \<Rightarrow> 'k jwks_client \<Rightarrow> 'w \<Rightarrow> rat list \<times> 'k jwks_client \<times> 'w" where
  "lookups idp [] c w = ([], c, w)"
| "lookups idp (kid # kids) c w =
     (case get_key idp kid c w of (_, c1, w1) \<Rightarrow>
      case lookups idp kids c1 w1 of (ts, c2, w2) \<Rightarrow>
        ((if jw_fetched_at c1 = jw_fetched_at c then [] else [the (jw_fetched_at c1)]) @ ts, c2, w2))"

text \<open>The monotonic clock: \<open>now\<close> is its reading, which never goes back.\<close>

definition steady :: "('k, 'w) idp \<Rightarrow> ('w \<Rightarrow> rat) \<Rightarrow> bool" where
  "steady idp now \<longleftrightarrow> (\<forall>w t w'. monotonic idp w = (t, w') \<longrightarrow> now w \<le> t \<and> now w' = t)
     \<and> (\<forall>u w. now w \<le> now (snd (wire_get idp u w)))"

definition refresh_gap :: "'k jwks_client \<Rightarrow> rat" where
  "refresh_gap c = min (jw_cache_seconds c) unknown_kid_refresh_seconds"

lemma fetch_time:
  assumes "steady idp now" "fetch idp c w = (r, c', w')"
  shows "now w \<le> now w'" and "jw_cache_seconds c' = jw_cache_seconds c"
    and "r = Inr () \<Longrightarrow> \<exists>t. jw_fetched_at c' = Some t \<and> now w \<le> t \<and> t \<le> now w'" and "r = Inl e \<Longrightarrow> c' = c"
proof -
  obtain rep w1 where g: "wire_get idp (jw_url c) w = (rep, w1)" by fastforce
  obtain t w2 where m: "monotonic idp w1 = (t, w2)" by fastforce
  have "now w \<le> now w1" using assms(1) g unfolding steady_def by (metis snd_conv)
  moreover have "now w1 \<le> t" "now w2 = t" using assms(1) m unfolding steady_def by blast+
  ultimately show "now w \<le> now w'" "jw_cache_seconds c' = jw_cache_seconds c"
    "r = Inr () \<Longrightarrow> \<exists>t. jw_fetched_at c' = Some t \<and> now w \<le> t \<and> t \<le> now w'" "r = Inl e \<Longrightarrow> c' = c"
    using assms(2) by (auto simp: fetch_def g m split: sum.splits)
qed

lemma older_gap: "older c b t \<Longrightarrow> refresh_gap c \<le> b \<Longrightarrow> jw_fetched_at c = Some f \<Longrightarrow> f + refresh_gap c < t"
  by (simp add: older_def)

text \<open>A lookup replaces the key set only when the last one is older than the gap.\<close>

lemma get_key_time:
  assumes "steady idp now" "get_key idp kid c w = (r, c', w')"
  shows "now w \<le> now w' \<and> jw_cache_seconds c' = jw_cache_seconds c
    \<and> (c' = c \<or> (\<exists>t. jw_fetched_at c' = Some t \<and> now w \<le> t \<and> t \<le> now w'
        \<and> (\<forall>f. jw_fetched_at c = Some f \<longrightarrow> f + refresh_gap c < t)))"
proof -
  obtain t1 w1 where m: "monotonic idp w = (t1, w1)" by fastforce
  have t1: "now w \<le> t1" "now w1 = t1" using assms(1) m unfolding steady_def by blast+
  obtain u w2 where u: "(if cached_key c kid = None
      then (case monotonic idp w1 of (t2, w2) \<Rightarrow> (older c unknown_kid_refresh_seconds t2, w2)) else (False, w1)) = (u, w2)" by fastforce
  have w2: "t1 \<le> now w2 \<and> (u \<longrightarrow> older c unknown_kid_refresh_seconds (now w2))"
  proof (cases "cached_key c kid = None")
    case True
    obtain t2 w3 where m2: "monotonic idp w1 = (t2, w3)" by fastforce
    have "now w1 \<le> t2 \<and> now w3 = t2" using assms(1) m2 unfolding steady_def by blast
    then show ?thesis using u True m2 t1(2) by auto
  qed (use u t1(2) in auto)
  obtain q c1 w3 where f: "fetch idp c w2 = (q, c1, w3)" by (metis prod_cases3)
  note ft = fetch_time[OF assms(1) f]
  have g: "(if older c (jw_cache_seconds c) t1 \<or> u
      then (case q of Inl e \<Rightarrow> (Inl e, c1, w3) | Inr _ \<Rightarrow> (Inr (cached_key c1 kid), c1, w3))
      else (Inr (cached_key c kid), c, w2)) = (r, c', w')"
    using assms(2) unfolding get_key_def m u Let_def prod.case f by (cases q) simp_all
  show ?thesis
  proof (cases "older c (jw_cache_seconds c) t1 \<or> u")
    case True
    have gap: "f + refresh_gap c < now w2" if "jw_fetched_at c = Some f" for f
    proof (cases u)
      case True
      then show ?thesis using w2 older_gap[of c unknown_kid_refresh_seconds "now w2" f] that by (simp add: refresh_gap_def)
    next
      case False
      then have "f + refresh_gap c < t1" using True older_gap[of c "jw_cache_seconds c" t1 f] that by (simp add: refresh_gap_def)
      then show ?thesis using w2 by simp
    qed
    show ?thesis
    proof (cases q)
      case (Inl e)
      then show ?thesis using g True ft t1 w2 by auto
    next
      case (Inr v)
      then obtain t where "jw_fetched_at c1 = Some t" "now w2 \<le> t" "t \<le> now w3" using ft(3) by auto
      then show ?thesis using g True Inr ft t1 w2 gap by fastforce
    qed
  next
    case False
    then have "c' = c" "w' = w2" using g by (simp_all only: if_False prod.inject)
    then show ?thesis using t1 w2 by simp
  qed
qed

lemma lookups_gaps:
  "steady idp now \<Longrightarrow> 0 \<le> refresh_gap c \<Longrightarrow> lookups idp kids c w = (ts, c', w') \<Longrightarrow>
   sorted_wrt (\<lambda>a b. a + refresh_gap c < b) ts
   \<and> (\<forall>f. jw_fetched_at c = Some f \<longrightarrow> (\<forall>t \<in> set ts. f + refresh_gap c < t))"
proof (induction kids arbitrary: c w ts c' w')
  case (Cons kid kids)
  obtain r c1 w1 where g: "get_key idp kid c w = (r, c1, w1)" by (metis prod_cases3)
  obtain ts1 c2 w2 where l: "lookups idp kids c1 w1 = (ts1, c2, w2)" by (metis prod_cases3)
  have ts: "ts = (if jw_fetched_at c1 = jw_fetched_at c then [] else [the (jw_fetched_at c1)]) @ ts1"
    using Cons.prems(3) by (simp add: g l)
  note gt = get_key_time[OF Cons.prems(1) g]
  have same: "refresh_gap c1 = refresh_gap c" using gt by (simp add: refresh_gap_def)
  then have ih: "sorted_wrt (\<lambda>a b. a + refresh_gap c < b) ts1"
      "\<forall>f. jw_fetched_at c1 = Some f \<longrightarrow> (\<forall>t \<in> set ts1. f + refresh_gap c < t)"
    using Cons.IH[OF Cons.prems(1) _ l] Cons.prems(2) by simp_all
  show ?case
  proof (cases "jw_fetched_at c1 = jw_fetched_at c")
    case True
    then show ?thesis using ih ts by simp
  next
    case False
    then obtain t where t: "jw_fetched_at c1 = Some t" "\<forall>f. jw_fetched_at c = Some f \<longrightarrow> f + refresh_gap c < t"
      using gt by auto
    then have "f + refresh_gap c < s" if "jw_fetched_at c = Some f" "s \<in> set ts1" for f s
      using ih(2) that Cons.prems(2) by fastforce
    then show ?thesis using ih ts t False by simp
  qed
qed simp

subsection \<open>Properties\<close>


text \<open>A provider whose world is the time: every reading takes ten seconds, its key set is empty.\<close>

definition slow_idp :: "(string, rat) idp" where
  "slow_idp = \<lparr>wire_get = (\<lambda>_ w. (Wire_Json (JObj [(''keys'', JArr [])]), w)), monotonic = (\<lambda>w. (w + 10, w + 10)),
     make_key = (\<lambda>_. None)\<rparr>"


text \<open>The requests a world has seen on the wire; the clock adds none.\<close>

definition counts_requests :: "('k, 'w) idp \<Rightarrow> ('w \<Rightarrow> nat) \<Rightarrow> bool" where
  "counts_requests idp hits \<longleftrightarrow> (\<forall>u w. hits (snd (wire_get idp u w)) = Suc (hits w)) \<and> (\<forall>w. hits (snd (monotonic idp w)) = hits w)"

lemma failing_lookup:
  assumes "counts_requests idp hits" "\<And>u w. fst (wire_get idp u w) = Wire_Error" "jw_fetched_at c = None"
    and "get_key idp kid c w = (r, c', w')"
  shows "r = Inl (unavailable c) \<and> c' = c \<and> hits w' = Suc (hits w)"
proof -
  have f: "fetch idp c v = (Inl (unavailable c), c, snd (wire_get idp (jw_url c) v))" for v
    using assms(2)[of "jw_url c" v] by (cases "wire_get idp (jw_url c) v") (simp add: fetch_def fetch_keys_def)
  obtain t1 w1 where m: "monotonic idp w = (t1, w1)" by fastforce
  have h1: "hits w1 = hits w" using assms(1) m unfolding counts_requests_def by (metis snd_conv)
  obtain u w2 where u: "(if cached_key c kid = None
      then (case monotonic idp w1 of (t2, w2) \<Rightarrow> (older c unknown_kid_refresh_seconds t2, w2)) else (False, w1)) = (u, w2)" by fastforce
  then have "w2 = w1 \<or> w2 = snd (monotonic idp w1)" by (auto split: if_splits prod.splits)
  then have h2: "hits w2 = hits w" using assms(1) h1 unfolding counts_requests_def by metis
  have "older c (jw_cache_seconds c) t1" using assms(3) by (simp add: older_def)
  then have "(Inl (unavailable c), c, snd (wire_get idp (jw_url c) w2)) = (r, c', w')"
    using assms(4) unfolding get_key_def m u Let_def prod.case f by (simp only: simp_thms if_True sum.case prod.case)
  then show ?thesis using assms(1) h2 unfolding counts_requests_def by auto
qed

text \<open>
  Failed fetches are not limited: while the issuer cannot be reached and no key set was
  ever loaded, every single lookup sends a request to it, whatever its key identifier and
  however fast they come, and raises. (Only a successful fetch moves the time the limit is
  measured from.)
\<close>

theorem failing_issuer_is_hit_every_time:
  assumes "counts_requests idp hits" "\<And>u w. fst (wire_get idp u w) = Wire_Error" "jw_fetched_at c = None"
    and "lookups idp kids c w = (ts, c', w')"
  shows "hits w' = hits w + length kids \<and> c' = c"
  using assms(4)
proof (induction kids arbitrary: w ts)
  case (Cons kid kids)
  obtain r c1 w1 where g: "get_key idp kid c w = (r, c1, w1)" by (metis prod_cases3)
  note fl = failing_lookup[OF assms(1-3) g]
  obtain ts1 c2 w2 where l: "lookups idp kids c w1 = (ts1, c2, w2)" by (metis prod_cases3)
  have "c2 = c'" "w2 = w'" using Cons.prems fl by (simp_all add: g l)
  then show ?case using Cons.IH[of w1 ts1] l fl by simp
qed simp

definition dead_idp :: "(string, nat) idp" where
  "dead_idp = \<lparr>wire_get = (\<lambda>_ w. (Wire_Error, Suc w)), monotonic = (\<lambda>w. (0, w)), make_key = (\<lambda>_. None)\<rparr>"

theorem failing_issuer_is_hit_every_time_witness:
  "snd (snd (lookups dead_idp [''a'', ''a'', ''a''] (new_jwks_client ''d'' 600) 0)) = 3"
proof -
  obtain ts c' w' where p: "lookups dead_idp [''a'', ''a'', ''a''] (new_jwks_client ''d'' 600) 0 = (ts, c', w')" by (metis prod_cases3)
  have "counts_requests dead_idp id" "\<And>u w. fst (wire_get dead_idp u w) = Wire_Error"
    by (simp_all add: counts_requests_def dead_idp_def)
  from failing_issuer_is_hit_every_time[OF this _ p] have "w' = 3" by (simp add: new_jwks_client_def)
  then show ?thesis by (simp only: p snd_conv)
qed

end
