(* ===== verification/Auth.thy ===== *)
theory Auth
  imports Config Jwks Store
begin

section \<open>Authentication and roles (app/auth/verifier.py, app/api/deps.py)\<close>

text \<open>
  A bearer token becomes a principal: the tenant, role and subject the rest of the service
  scopes and audits on. Decoding and verifying a token is the JWT library's, the parameter
  \<open>jwt_lib\<close>: it answers with the claims, or says the token expired or is invalid.
\<close>

record jwt_checks =
  jc_algorithms :: "string list"
  jc_audience :: string
  jc_issuer :: string
  jc_leeway :: nat
  jc_required :: "string list"

datatype jwt_result = Jwt_Expired | Jwt_Invalid | Jwt_Claims "(string \<times> json) list"

text \<open>\<open>jwt_kid\<close>: \<open>None\<close> for a token whose header cannot be read, else its key identifier if any.\<close>

record ('k, 'w) jwt_lib =
  jwt_kid :: "string \<Rightarrow> string option option"
  jwt_decode :: "string \<Rightarrow> 'k \<Rightarrow> jwt_checks \<Rightarrow> 'w \<Rightarrow> jwt_result"

definition tenant_claim :: string where
  "tenant_claim = ''https://cci/tenant_id''"

definition role_claim :: string where
  "role_claim = ''https://cci/role''"

definition supported_algorithms :: "string list" where
  "supported_algorithms = [''RS256'']"

definition leeway_seconds :: nat where
  "leeway_seconds = 30"

record principal =
  pr_tenant :: uuid
  pr_role :: role
  pr_subject :: string

subsection \<open>Identifiers from text\<close>

text \<open>\<^verbatim>\<open>s.replace(sub, '')\<close> for a non-empty \<open>sub\<close>.\<close>

function remove_sub :: "string \<Rightarrow> string \<Rightarrow> string" where
  "remove_sub sub s =
     (if s = [] \<or> sub = [] then s
      else if take (length sub) s = sub then remove_sub sub (drop (length sub) s)
      else hd s # remove_sub sub (tl s))"
  by pat_completeness auto
termination by (relation "measure (\<lambda>(sub, s). length s)") auto

declare remove_sub.simps [simp del]

definition strip_braces :: "string \<Rightarrow> string" where
  "strip_braces s = (let brace = (\<lambda>c. c = CHR ''{'' \<or> c = CHR ''}'') in
     rev (dropWhile brace (rev (dropWhile brace s))))"

definition hex_value :: "char \<Rightarrow> nat option" where
  "hex_value c =
     (if 48 \<le> code c \<and> code c \<le> 57 then Some (code c - 48)
      else if 97 \<le> code c \<and> code c \<le> 102 then Some (code c - 87)
      else if 65 \<le> code c \<and> code c \<le> 70 then Some (code c - 55)
      else None)"

text \<open>
  \<^verbatim>\<open>int(s, 16)\<close> for text without a minus sign: surrounding white space, a plus sign, the
  prefix \<^verbatim>\<open>0x\<close>, and single underscores between digits (one more after the prefix).
\<close>

fun scan_hex :: "nat \<Rightarrow> bool \<Rightarrow> string \<Rightarrow> nat option" where
  "scan_hex acc after_digit [] = (if after_digit then Some acc else None)"
| "scan_hex acc after_digit (c # cs) =
     (if c = CHR ''_'' then (if after_digit then scan_hex acc False cs else None)
      else (case hex_value c of None \<Rightarrow> None | Some v \<Rightarrow> scan_hex (16 * acc + v) True cs))"

definition int_base16 :: "string \<Rightarrow> nat option" where
  "int_base16 s =
     (let t = strip s; u = (if t \<noteq> [] \<and> hd t = CHR ''+'' then tl t else t) in
      if take 2 u = ''0x'' \<or> take 2 u = ''0X''
      then (if drop 2 u = [] then None else scan_hex 0 True (drop 2 u))
      else scan_hex 0 False u)"

text \<open>\<^verbatim>\<open>uuid.UUID(s)\<close>; \<open>None\<close> is its \<^verbatim>\<open>ValueError\<close>.\<close>

definition parse_uuid :: "string \<Rightarrow> uuid option" where
  "parse_uuid s =
     (let h = filter (\<lambda>c. c \<noteq> CHR ''-'') (strip_braces (remove_sub ''uuid:'' (remove_sub ''urn:'' s))) in
      if length h \<noteq> 32 then None
      else (case int_base16 h of None \<Rightarrow> None | Some n \<Rightarrow> if n < 2 ^ 128 then Some n else None))"

text \<open>
  \<^verbatim>\<open>str(value)\<close> of a claim. Of a fraction, an array or an object the text is never an
  identifier nor a role; a stand-in replaces it.
\<close>

definition claim_text :: "json \<Rightarrow> string" where
  "claim_text v = (case v of JStr s \<Rightarrow> s | JNull \<Rightarrow> ''None'' | JBool b \<Rightarrow> (if b then ''True'' else ''False'')
     | JNum q \<Rightarrow> if of_int \<lfloor>q\<rfloor> = q then str_of_int \<lfloor>q\<rfloor> else ''.'' | _ \<Rightarrow> ''[]'')"

definition parse_role :: "string \<Rightarrow> role option" where
  "parse_role s = map_of [(''admin'', Admin), (''reviewer'', Reviewer)] s"

subsection \<open>Verification\<close>

definition token_checks :: "settings \<Rightarrow> jwt_checks" where
  "token_checks s = \<lparr>jc_algorithms = supported_algorithms, jc_audience = auth0_audience s,
     jc_issuer = ''https://'' @ auth0_domain s @ ''/'', jc_leeway = leeway_seconds,
     jc_required = [''exp'', ''iat'', ''sub'']\<rparr>"

definition claims_principal :: "(string \<times> json) list \<Rightarrow> exn + principal" where
  "claims_principal claims =
     (let subject = map_of claims ''sub''; tenant_raw = map_of claims tenant_claim; role_raw = map_of claims role_claim in
      if \<not> opt_truthy subject \<or> \<not> opt_truthy tenant_raw \<or> \<not> opt_truthy role_raw
      then Inl (Authentication_Error ''token is missing tenant, role, or subject claims'')
      else (case parse_uuid (claim_text (the tenant_raw)) of
        None \<Rightarrow> Inl (Authentication_Error ''tenant claim is not a valid tenant id'')
      | Some tenant \<Rightarrow>
          (case parse_role (claim_text (the role_raw)) of
             None \<Rightarrow> Inl (Authentication_Error ''unknown role claim'')
           | Some role \<Rightarrow> Inr \<lparr>pr_tenant = tenant, pr_role = role, pr_subject = claim_text (the subject)\<rparr>)))"

definition verify_token :: "('k, 'w) idp \<Rightarrow> ('k, 'w) jwt_lib \<Rightarrow> settings \<Rightarrow> string \<Rightarrow> 'k jwks_client \<Rightarrow> 'w
    \<Rightarrow> (exn + principal) \<times> 'k jwks_client \<times> 'w" where
  "verify_token idp lib s token c w =
     (case jwt_kid lib token of
        None \<Rightarrow> (Inl (Authentication_Error ''malformed token''), c, w)
      | Some kid \<Rightarrow>
          (case get_key idp (case kid of None \<Rightarrow> [] | Some t \<Rightarrow> t) c w of
             (Inl e, c', w') \<Rightarrow> (Inl e, c', w')
           | (Inr None, c', w') \<Rightarrow> (Inl (Authentication_Error ''unknown signing key''), c', w')
           | (Inr (Some key), c', w') \<Rightarrow>
               ((case jwt_decode lib token key (token_checks s) w' of
                   Jwt_Expired \<Rightarrow> Inl (Authentication_Error ''token has expired'')
                 | Jwt_Invalid \<Rightarrow> Inl (Authentication_Error ''invalid token'')
                 | Jwt_Claims claims \<Rightarrow> claims_principal claims), c', w')))"

subsection \<open>Dependencies of the routes\<close>

text \<open>One key client per domain and cache lifetime, for the life of the process.\<close>

type_synonym 'k jwks_clients = "((string \<times> rat) \<times> 'k jwks_client) list"

definition client_key :: "settings \<Rightarrow> string \<times> rat" where
  "client_key s = (auth0_domain s, auth_jwks_cache_seconds s)"

definition jwks_client_for :: "settings \<Rightarrow> 'k jwks_clients \<Rightarrow> 'k jwks_client" where
  "jwks_client_for s cs = (case map_of cs (client_key s) of
     Some c \<Rightarrow> c | None \<Rightarrow> new_jwks_client (auth0_domain s) (auth_jwks_cache_seconds s))"

definition store_client :: "settings \<Rightarrow> 'k jwks_client \<Rightarrow> 'k jwks_clients \<Rightarrow> 'k jwks_clients" where
  "store_client s c cs = (client_key s, c) # filter (\<lambda>e. fst e \<noteq> client_key s) cs"

definition get_jwks_client :: "settings \<Rightarrow> 'k jwks_clients \<Rightarrow> exn + 'k jwks_client" where
  "get_jwks_client s cs =
     (if auth0_domain s = [] \<or> auth0_audience s = []
      then Inl (Auth_Not_Configured ''auth is not configured: set AUTH0_DOMAIN and AUTH0_AUDIENCE'')
      else Inr (jwks_client_for s cs))"

text \<open>\<^verbatim>\<open>header.partition(' ')\<close>.\<close>

definition partition_space :: "string \<Rightarrow> string \<times> string" where
  "partition_space h = (takeWhile (\<lambda>c. c \<noteq> CHR '' '') h, drop 1 (dropWhile (\<lambda>c. c \<noteq> CHR '' '') h))"

definition get_principal :: "('k, 'w) idp \<Rightarrow> ('k, 'w) jwt_lib \<Rightarrow> settings \<Rightarrow> string option \<Rightarrow> 'k jwks_clients \<Rightarrow> 'w
    \<Rightarrow> (exn + principal) \<times> 'k jwks_clients \<times> 'w" where
  "get_principal idp lib s header cs w =
     (case get_jwks_client s cs of
        Inl e \<Rightarrow> (Inl e, cs, w)
      | Inr c \<Rightarrow>
          (let (scheme, token) = partition_space (case header of None \<Rightarrow> [] | Some h \<Rightarrow> h) in
           if py_lower scheme \<noteq> ''bearer'' \<or> strip token = []
           then (Inl (Authentication_Error ''missing bearer token''), store_client s c cs, w)
           else (case verify_token idp lib s (strip token) c w of (r, c', w') \<Rightarrow> (r, store_client s c' cs, w'))))"

definition require_role :: "role list \<Rightarrow> principal \<Rightarrow> exn + principal" where
  "require_role allowed p =
     (if pr_role p \<in> set allowed then Inr p
      else Inl (Authorization_Error (''role '' @ [char_of (39 :: nat)] @ role_value (pr_role p) @ [char_of (39 :: nat)] @ '' may not do this'')))"

subsection \<open>Lemmas: identifiers\<close>

lemma remove_sub_absent: "c \<in> set sub \<Longrightarrow> c \<notin> set s \<Longrightarrow> remove_sub sub s = s"
proof (induction sub s rule: remove_sub.induct)
  case (1 sub s)
  have "take (length sub) s \<noteq> sub" using 1(3,4) by (metis in_set_takeD)
  moreover have "s \<noteq> [] \<Longrightarrow> c \<notin> set (tl s)" using 1(4) by (cases s) auto
  ultimately show ?case using 1(2,3) by (subst remove_sub.simps) auto
qed

definition lower_hex :: "char \<Rightarrow> bool" where
  "lower_hex c \<longleftrightarrow> (48 \<le> code c \<and> code c \<le> 57) \<or> (97 \<le> code c \<and> code c \<le> 102)"

lemma hex_char_code: "d < 16 \<Longrightarrow> code (hex_char d) = (if d < 10 then 48 + d else 87 + d)"
  by (simp add: hex_char_def code_digit_char code_char_of)

lemma lower_hex_char: "d < 16 \<Longrightarrow> lower_hex (hex_char d) \<and> hex_value (hex_char d) = Some d"
  by (auto simp: lower_hex_def hex_value_def hex_char_code)

lemma hex_digits_lower: "c \<in> set (hex_digits k n) \<Longrightarrow> lower_hex c"
  by (induction k n rule: hex_digits.induct) (auto simp: lower_hex_char)

lemma scan_hex_underscore: "lower_hex c \<Longrightarrow> c \<noteq> CHR ''_''"
  by (auto simp: lower_hex_def)

lemma scan_hex_digits:
  "0 < k \<Longrightarrow> scan_hex acc b (hex_digits k n @ cs) = scan_hex (acc * 16 ^ k + n mod 16 ^ k) True cs"
proof (induction k arbitrary: n acc b cs)
  case (Suc k)
  let ?c = "hex_char (n mod 16)"
  have c: "lower_hex ?c" "hex_value ?c = Some (n mod 16)" "?c \<noteq> CHR ''_''"
    using lower_hex_char[of "n mod 16"] scan_hex_underscore by simp_all
  have m: "16 * (n div 16 mod 16 ^ k) + n mod 16 = n mod 16 ^ Suc k"
    using mod_mult2_eq[of n 16 "16 ^ k"] by simp
  show ?case
  proof (cases k)
    case 0
    then show ?thesis using c by (simp add: mult.commute)
  next
    case (Suc i)
    then have "scan_hex acc b (hex_digits k (n div 16) @ ?c # cs)
        = scan_hex (acc * 16 ^ k + n div 16 mod 16 ^ k) True (?c # cs)" using Suc.IH by blast
    also have "\<dots> = scan_hex (16 * (acc * 16 ^ k + n div 16 mod 16 ^ k) + n mod 16) True cs"
      using c by (simp only: scan_hex.simps if_False option.case)
    also have "16 * (acc * 16 ^ k + n div 16 mod 16 ^ k) + n mod 16 = acc * 16 ^ Suc k + n mod 16 ^ Suc k"
      unfolding m[symmetric] by (simp add: algebra_simps)
    finally show ?thesis by simp
  qed
qed simp

lemma slice_join: "a \<le> b \<Longrightarrow> b \<le> c \<Longrightarrow> slice xs a b @ slice xs b c = slice xs a c"
proof -
  assume ab: "a \<le> b" and bc: "b \<le> c"
  have "take (b - a) (drop a xs) @ take (c - b) (drop (b - a) (drop a xs)) = take (c - a) (drop a xs)"
    using take_add[of "b - a" "c - b" "drop a xs"] ab bc by simp
  then show ?thesis using ab by (simp add: slice_def take_drop)
qed

lemma uuid_str_hex: "filter (\<lambda>c. c \<noteq> CHR ''-'') (uuid_str u) = hex_digits 32 u"
proof -
  let ?h = "hex_digits 32 u"
  have "CHR ''-'' \<notin> set ?h" using hex_digits_lower[of "CHR ''-''" 32 u] by (auto simp: lower_hex_def)
  then have keep: "filter (\<lambda>c. c \<noteq> CHR ''-'') xs = xs" if "set xs \<subseteq> set ?h" for xs
    using that by (auto intro!: filter_True)
  have "set (slice ?h a b) \<subseteq> set ?h" for a b unfolding slice_def by (meson order_trans set_drop_subset set_take_subset)
  then have "filter (\<lambda>c. c \<noteq> CHR ''-'') (uuid_str u)
      = slice ?h 0 8 @ slice ?h 8 12 @ slice ?h 12 16 @ slice ?h 16 20 @ slice ?h 20 32"
    by (simp add: uuid_str_def Let_def keep)
  also have "\<dots> = slice ?h 0 32" by (simp add: slice_join)
  also have "\<dots> = ?h" using slice_whole[of ?h] by (simp add: length_hex_digits)
  finally show ?thesis .
qed

lemma uuid_str_nonempty [simp]: "uuid_str u \<noteq> []"
  using uuid_str_hex[of u] length_hex_digits[of 32 u] by auto

lemma uuid_str_chars: "c \<in> set (uuid_str u) \<Longrightarrow> lower_hex c \<or> c = CHR ''-''"
proof -
  assume "c \<in> set (uuid_str u)"
  then have "c = CHR ''-'' \<or> c \<in> set (filter (\<lambda>c. c \<noteq> CHR ''-'') (uuid_str u))" by auto
  then show ?thesis using hex_digits_lower[of c 32 u] by (auto simp: uuid_str_hex)
qed

lemma dropWhile_none: "(\<And>x. x \<in> set xs \<Longrightarrow> \<not> P x) \<Longrightarrow> dropWhile P xs = xs"
  by (cases xs) simp_all

lemma uuid_reads_back:
  assumes "u < 2 ^ 128"
  shows "parse_uuid (uuid_str u) = Some u"
proof -
  let ?s = "uuid_str u" and ?h = "hex_digits 32 u"
  note ch = uuid_str_chars[of _ u]
  have "CHR '':'' \<notin> set ?s" using ch[of "CHR '':''"] by (auto simp: lower_hex_def)
  then have r: "remove_sub ''uuid:'' (remove_sub ''urn:'' ?s) = ?s"
    by (simp add: remove_sub_absent[where c = "CHR '':''"])
  have nb: "c \<in> set ?s \<Longrightarrow> \<not> (c = CHR ''{'' \<or> c = CHR ''}'')" for c
    using ch[of c] by (auto simp: lower_hex_def)
  have "dropWhile (\<lambda>c. c = CHR ''{'' \<or> c = CHR ''}'') (rev ?s) = rev ?s"
    by (rule dropWhile_none, rule nb) simp
  moreover have "dropWhile (\<lambda>c. c = CHR ''{'' \<or> c = CHR ''}'') ?s = ?s" by (rule dropWhile_none, rule nb)
  ultimately have b: "strip_braces ?s = ?s" by (simp add: strip_braces_def Let_def)
  have ne: "?h \<noteq> []" using length_hex_digits[of 32 u] by auto
  have hx: "lower_hex (hd ?h)" "lower_hex (last ?h)"
    using hex_digits_lower[of "hd ?h" 32 u] hex_digits_lower[of "last ?h" 32 u] ne by (auto simp: hd_in_set)
  have nosp: "\<not> is_space c" if "lower_hex c" for c using that by (auto simp: lower_hex_def is_space_def)
  have s: "strip ?h = ?h" using hx nosp ne by (intro strip_id) auto
  have "CHR ''x'' \<notin> set (take 2 ?h)" "CHR ''X'' \<notin> set (take 2 ?h)"
    using hex_digits_lower[of "CHR ''x''" 32 u] hex_digits_lower[of "CHR ''X''" 32 u]
    by (auto simp: lower_hex_def dest!: in_set_takeD)
  then have x: "take 2 ?h \<noteq> ''0x'' \<and> take 2 ?h \<noteq> ''0X''" by auto
  have p: "hd ?h \<noteq> CHR ''+''" using hx(1) by (auto simp: lower_hex_def)
  have "(16 :: nat) ^ 32 = 2 ^ 128" by simp
  then have "scan_hex 0 False ?h = Some u" using scan_hex_digits[of 32 0 False u "[]"] assms by simp
  then have "int_base16 ?h = Some u" using x p s by (simp add: int_base16_def Let_def)
  then show ?thesis using assms by (simp add: parse_uuid_def Let_def r b uuid_str_hex length_hex_digits)
qed

subsection \<open>Lemmas: principals\<close>

definition clients_ok :: "('k, 'w) idp \<Rightarrow> 'k jwks_clients \<Rightarrow> bool" where
  "clients_ok idp cs \<longleftrightarrow> (\<forall>(key, c) \<in> set cs. keys_ok idp c)"

lemma client_for_ok: "clients_ok idp cs \<Longrightarrow> keys_ok idp (jwks_client_for s cs)"
  by (auto simp: jwks_client_for_def clients_ok_def new_jwks_client_def keys_ok_def split: option.splits dest!: map_of_SomeD)

lemma store_client_ok: "clients_ok idp cs \<Longrightarrow> keys_ok idp c \<Longrightarrow> clients_ok idp (store_client s c cs)"
  by (auto simp: clients_ok_def store_client_def)

text \<open>What stands behind a principal: a token that verifies under a key published for signing.\<close>

definition vouched :: "('k, 'w) idp \<Rightarrow> ('k, 'w) jwt_lib \<Rightarrow> settings \<Rightarrow> string \<Rightarrow> principal \<Rightarrow> bool" where
  "vouched idp lib s token p \<longleftrightarrow>
     (\<exists>kid key claims w. jwt_kid lib token = Some (Some kid) \<and> published idp (JStr kid) key
        \<and> jwt_decode lib token key \<lparr>jc_algorithms = [''RS256''], jc_audience = auth0_audience s,
             jc_issuer = ''https://'' @ auth0_domain s @ ''/'', jc_leeway = 30, jc_required = [''exp'', ''iat'', ''sub'']\<rparr> w
           = Jwt_Claims claims
        \<and> claims_principal claims = Inr p)"

lemma verify_token_spec:
  assumes "verify_token idp lib s token c w = (r, c', w')" "keys_ok idp c"
  shows "keys_ok idp c'" and "r = Inr p \<Longrightarrow> vouched idp lib s token p"
    and "r = Inl e \<Longrightarrow> (\<exists>m. e = Authentication_Error m) \<or> (\<exists>m. e = Jwks_Unavailable m) \<or> (\<exists>m. e = Attribute_Error m)"
proof -
  have "keys_ok idp c' \<and> (r = Inr p \<longrightarrow> vouched idp lib s token p)
    \<and> (r = Inl e \<longrightarrow> (\<exists>m. e = Authentication_Error m) \<or> (\<exists>m. e = Jwks_Unavailable m) \<or> (\<exists>m. e = Attribute_Error m))"
  proof (cases "jwt_kid lib token")
    case None
    then show ?thesis using assms by (auto simp: verify_token_def)
  next
    case (Some kid)
    let ?t = "case kid of None \<Rightarrow> [] | Some t \<Rightarrow> t"
    obtain q c1 w1 where g: "get_key idp ?t c w = (q, c1, w1)" by (metis prod_cases3)
    note gs = get_key_spec[OF g assms(2)]
    note run = assms(1)[unfolded verify_token_def Some option.case g prod.case]
    consider (Err) e' where "q = Inl e'" | (Unknown) "q = Inr None" | (Key) key where "q = Inr (Some key)"
      by (cases q; cases "projr q") auto
    then show ?thesis
    proof cases
      case Err
      then show ?thesis using run gs(1,3) by (auto simp: unavailable_def)
    next
      case Unknown
      then show ?thesis using run gs(1) by auto
    next
      case (Key key)
      have pub: "published idp (JStr ?t) key" using gs(2)[OF Key] .
      then have kid: "kid = Some ?t" by (cases kid) (auto simp: published_def truthy_def)
      have "(case jwt_decode lib token key (token_checks s) w1 of
          Jwt_Expired \<Rightarrow> Inl (Authentication_Error ''token has expired'')
        | Jwt_Invalid \<Rightarrow> Inl (Authentication_Error ''invalid token'')
        | Jwt_Claims claims \<Rightarrow> claims_principal claims, c1, w1) = (r, c', w')"
        using run Key by (simp only: sum.case option.case)
      then have r: "r = (case jwt_decode lib token key (token_checks s) w1 of
          Jwt_Expired \<Rightarrow> Inl (Authentication_Error ''token has expired'')
        | Jwt_Invalid \<Rightarrow> Inl (Authentication_Error ''invalid token'')
        | Jwt_Claims claims \<Rightarrow> claims_principal claims)" and c': "c' = c1"
        by blast+
      have "vouched idp lib s token p" if rp: "r = Inr p"
      proof -
        obtain claims where cl: "jwt_decode lib token key (token_checks s) w1 = Jwt_Claims claims" "claims_principal claims = Inr p"
          using r rp by (auto split: jwt_result.splits)
        show ?thesis unfolding vouched_def
          using Some kid pub cl by (auto simp: token_checks_def supported_algorithms_def leeway_seconds_def)
      qed
      moreover have "\<exists>m. e = Authentication_Error m" if "r = Inl e"
        using r that by (auto simp: claims_principal_def Let_def split: jwt_result.splits if_splits option.splits)
      ultimately show ?thesis using gs(1) c' by blast
    qed
  qed
  then show "keys_ok idp c'" "r = Inr p \<Longrightarrow> vouched idp lib s token p"
    "r = Inl e \<Longrightarrow> (\<exists>m. e = Authentication_Error m) \<or> (\<exists>m. e = Jwks_Unavailable m) \<or> (\<exists>m. e = Attribute_Error m)" by blast+
qed

lemma claims_principal_Inr:
  assumes "claims_principal claims = Inr p"
  shows "\<exists>t. map_of claims ''https://cci/tenant_id'' = Some t \<and> parse_uuid (claim_text t) = Some (pr_tenant p)"
    and "\<exists>r. map_of claims ''https://cci/role'' = Some r \<and> claim_text r = role_value (pr_role p)"
    and "\<exists>u. map_of claims ''sub'' = Some u \<and> truthy u \<and> pr_subject p = claim_text u"
  using assms by (auto simp: claims_principal_def Let_def opt_truthy_def tenant_claim_def role_claim_def parse_role_def
      role_value_def split: if_splits option.splits)

text \<open>The exceptions authentication can end in.\<close>

definition auth_error :: "exn \<Rightarrow> bool" where
  "auth_error e \<longleftrightarrow> (\<exists>m. e = Authentication_Error m) \<or> (\<exists>m. e = Auth_Not_Configured m)
     \<or> (\<exists>m. e = Jwks_Unavailable m) \<or> (\<exists>m. e = Attribute_Error m)"

lemma get_principal_spec:
  assumes "get_principal idp lib s header cs w = (r, cs', w')" "clients_ok idp cs"
  shows "clients_ok idp cs'" and "r = Inl e \<Longrightarrow> auth_error e"
    and "r = Inr p \<Longrightarrow> \<exists>h token. header = Some h \<and> py_lower (fst (partition_space h)) = ''bearer''
      \<and> token = strip (snd (partition_space h)) \<and> token \<noteq> [] \<and> vouched idp lib s token p"
proof -
  have "clients_ok idp cs' \<and> (r = Inl e \<longrightarrow> auth_error e)
    \<and> (r = Inr p \<longrightarrow> (\<exists>h token. header = Some h \<and> py_lower (fst (partition_space h)) = ''bearer''
      \<and> token = strip (snd (partition_space h)) \<and> token \<noteq> [] \<and> vouched idp lib s token p))"
  proof (cases "get_jwks_client s cs")
    case (Inl e')
    then show ?thesis using assms by (auto simp: get_principal_def get_jwks_client_def auth_error_def split: if_splits)
  next
    case (Inr c)
    then have c: "keys_ok idp c" using client_for_ok[OF assms(2)] by (auto simp: get_jwks_client_def split: if_splits)
    obtain scheme rest where ps: "partition_space (case header of None \<Rightarrow> [] | Some h \<Rightarrow> h) = (scheme, rest)" by fastforce
    note run = assms(1)[unfolded get_principal_def Inr sum.case ps Let_def prod.case]
    show ?thesis
    proof (cases "py_lower scheme \<noteq> ''bearer'' \<or> strip rest = []")
      case True
      then show ?thesis using run store_client_ok[OF assms(2) c] by (auto simp: auth_error_def)
    next
      case False
      then obtain h where h: "header = Some h" using ps by (cases header) (auto simp: partition_space_def py_lower_def)
      obtain q c1 w1 where v: "verify_token idp lib s (strip rest) c w = (q, c1, w1)" by (metis prod_cases3)
      note vs = verify_token_spec[OF v c]
      have r: "r = q" "cs' = store_client s c1 cs" using run False v by simp_all
      have "vouched idp lib s (strip rest) p" if "r = Inr p" using vs(2) r that by simp
      moreover have "auth_error e" if "r = Inl e" using vs(3) r that by (auto simp: auth_error_def)
      ultimately show ?thesis using store_client_ok[OF assms(2) vs(1)] r(2) h ps False by auto
    qed
  qed
  then show "clients_ok idp cs'" "r = Inl e \<Longrightarrow> auth_error e"
    "r = Inr p \<Longrightarrow> \<exists>h token. header = Some h \<and> py_lower (fst (partition_space h)) = ''bearer''
      \<and> token = strip (snd (partition_space h)) \<and> token \<noteq> [] \<and> vouched idp lib s token p" by blast+
qed

subsection \<open>Properties\<close>

text \<open>
  A tenant's identifier survives its trip through a token: the text of any 128-bit
  identifier is read back as that identifier.
\<close>

theorem tenant_id_reads_back:
  assumes "u < 2 ^ 128"
  shows "parse_uuid (uuid_str u) = Some u"
  by (rule uuid_reads_back[OF assms])

theorem tenant_id_reads_back_witness: "parse_uuid (uuid_str 3735928559) = Some 3735928559"
  by (rule tenant_id_reads_back) simp


text \<open>An issuer with one key, and a token that is its own claims.\<close>

definition sample_idp :: "(nat, unit) idp" where
  "sample_idp = \<lparr>wire_get = (\<lambda>_ w. (Wire_Json (JObj [(''keys'', JArr [JObj [(''kid'', JStr ''k1'')]])]), w)),
     monotonic = (\<lambda>w. (0, w)), make_key = (\<lambda>_. Some 7)\<rparr>"

definition sample_jwt :: "(nat, unit) jwt_lib" where
  "sample_jwt = \<lparr>jwt_kid = (\<lambda>_. Some (Some ''k1'')),
     jwt_decode = (\<lambda>token key checks _. if key = 7 \<and> jc_algorithms checks = [''RS256'']
       then Jwt_Claims [(''sub'', JStr ''ann''), (''https://cci/tenant_id'', JStr (uuid_str 5)), (''https://cci/role'', JStr token)]
       else Jwt_Invalid)\<rparr>"

definition sample_settings :: settings where
  "sample_settings = default_settings\<lparr>auth0_domain := ''d'', auth0_audience := ''a''\<rparr>"

lemma sample_principal:
  "fst (get_principal sample_idp sample_jwt sample_settings (Some ''Bearer admin'') [] ())
     = Inr \<lparr>pr_tenant = 5, pr_role = Admin, pr_subject = ''ann''\<rparr>"
proof -
  have parts: "partition_space ''Bearer admin'' = (''Bearer'', ''admin'')" "py_lower ''Bearer'' = ''bearer''" "strip ''admin'' = ''admin''"
    by code_simp+
  show ?thesis
    by (simp add: get_principal_def get_jwks_client_def sample_settings_def default_settings_def parts verify_token_def
        sample_jwt_def sample_idp_def jwks_client_for_def new_jwks_client_def get_key_def older_def fetch_def fetch_keys_def
        iterated_def read_entry_def opt_truthy_def truthy_def hashable_def cached_key_def token_checks_def
        supported_algorithms_def claims_principal_def tenant_claim_def role_claim_def claim_text_def uuid_reads_back parse_role_def)
qed


end
