(* ===== verification/RateLimit.thy ===== *)
theory RateLimit
  imports Config Errors
begin

section \<open>Rate limits of the LLM endpoints (app/ratelimit.py)\<close>

text \<open>
  Each tenant has an hourly budget per endpoint kind. The counting is the \<^verbatim>\<open>limits\<close>
  package's and a parameter here: the record \<open>limits_lib\<close> holds its parser of rate strings
  and, on its storage \<open>'l\<close>, one hit, the end of a window and the wall clock.
\<close>

record ('i, 'l) limits_lib =
  lib_parse :: "string \<Rightarrow> 'i option"
  lib_hit :: "'i \<Rightarrow> string \<Rightarrow> string \<Rightarrow> 'l \<Rightarrow> bool \<times> 'l"
  lib_reset_time :: "'i \<Rightarrow> string \<Rightarrow> string \<Rightarrow> 'l \<Rightarrow> rat"
  lib_now :: "'l \<Rightarrow> rat"
  lib_cleared :: "'l \<Rightarrow> 'l"

datatype limit_kind = Limit_Extraction | Limit_Change_Report

definition limit_kind_value :: "limit_kind \<Rightarrow> string" where
  "limit_kind_value k = (case k of Limit_Extraction \<Rightarrow> ''extraction'' | Limit_Change_Report \<Rightarrow> ''change_report'')"

text \<open>The module's state: the parsed amounts, and the library's storage.\<close>

record ('i, 'l) limiter =
  parsed_amounts :: "(int \<times> 'i) list"
  storage :: 'l

definition limit_for :: "('i, 'l) limits_lib \<Rightarrow> int \<Rightarrow> ('i, 'l) limiter \<Rightarrow> (exn + 'i) \<times> ('i, 'l) limiter" where
  "limit_for lib amount st =
     (case map_of (parsed_amounts st) amount of
        Some i \<Rightarrow> (Inr i, st)
      | None \<Rightarrow>
          (case lib_parse lib (str_of_int amount @ ''/hour'') of
             None \<Rightarrow> (Inl (Value_Error ''couldn't parse rate limit string''), st)
           | Some i \<Rightarrow> (Inr i, st\<lparr>parsed_amounts := (amount, i) # parsed_amounts st\<rparr>)))"

definition demo_ids :: "settings \<Rightarrow> string list" where
  "demo_ids s = map (\<lambda>p. py_lower (strip p)) (filter (\<lambda>p. strip p \<noteq> []) (split_on (CHR '','') (demo_tenant_ids s)))"

definition amount_for :: "limit_kind \<Rightarrow> string \<Rightarrow> settings \<Rightarrow> int" where
  "amount_for k tenant s =
     (if py_lower tenant \<in> set (demo_ids s)
      then (case k of Limit_Extraction \<Rightarrow> demo_rate_limit_extraction_per_hour s
                    | Limit_Change_Report \<Rightarrow> demo_rate_limit_change_report_per_hour s)
      else (case k of Limit_Extraction \<Rightarrow> rate_limit_extraction_per_hour s
                    | Limit_Change_Report \<Rightarrow> rate_limit_change_report_per_hour s))"

text \<open>\<^verbatim>\<open>int(x)\<close> drops the fraction.\<close>

definition py_int :: "rat \<Rightarrow> int" where
  "py_int x = (if 0 \<le> x then \<lfloor>x\<rfloor> else \<lceil>x\<rceil>)"

definition retry_after :: "rat \<Rightarrow> rat \<Rightarrow> nat" where
  "retry_after reset_time now = nat (max 1 (py_int (reset_time - now) + 1))"

definition enforce :: "('i, 'l) limits_lib \<Rightarrow> limit_kind \<Rightarrow> string \<Rightarrow> settings \<Rightarrow> ('i, 'l) limiter \<Rightarrow> (exn + unit) \<times> ('i, 'l) limiter" where
  "enforce lib k tenant s st =
     (case limit_for lib (amount_for k tenant s) st of
        (Inl e, st1) \<Rightarrow> (Inl e, st1)
      | (Inr item, st1) \<Rightarrow>
          (case lib_hit lib item (limit_kind_value k) tenant (storage st1) of
             (True, l) \<Rightarrow> (Inr (), st1\<lparr>storage := l\<rparr>)
           | (False, l) \<Rightarrow>
               (Inl (Rate_Limit_Exceeded (retry_after (lib_reset_time lib item (limit_kind_value k) tenant l) (lib_now lib l))),
                st1\<lparr>storage := l\<rparr>)))"

definition reset_limits :: "('i, 'l) limits_lib \<Rightarrow> ('i, 'l) limiter \<Rightarrow> ('i, 'l) limiter" where
  "reset_limits lib st = st\<lparr>storage := lib_cleared lib (storage st)\<rparr>"

text \<open>A stretch of requests to the limited endpoints.\<close>

fun enforce_all :: "('i, 'l) limits_lib \<Rightarrow> settings \<Rightarrow> (limit_kind \<times> string) list \<Rightarrow> ('i, 'l) limiter
    \<Rightarrow> (exn + unit) list \<times> ('i, 'l) limiter" where
  "enforce_all lib s [] st = ([], st)"
| "enforce_all lib s (r # rs) st =
     (case enforce lib (fst r) (snd r) s st of (x, st1) \<Rightarrow>
      case enforce_all lib s rs st1 of (xs, st2) \<Rightarrow> (x # xs, st2))"

subsection \<open>What the library promises\<close>

text \<open>
  The documented behaviour of a fixed window, while no window ends: \<open>n/hour\<close> parses to the
  amount \<open>n\<close>; a hit counts, and succeeds while the count stays within the amount; a
  count belongs to one item, kind and tenant. \<open>used\<close> reads the counts off the storage.
\<close>

definition fixed_window :: "('i, 'l) limits_lib \<Rightarrow> ('i \<Rightarrow> nat) \<Rightarrow> ('l \<Rightarrow> 'i \<Rightarrow> string \<Rightarrow> string \<Rightarrow> nat) \<Rightarrow> bool" where
  "fixed_window lib amount used \<longleftrightarrow>
     (\<forall>n :: nat. \<exists>i. lib_parse lib (str_of_nat n @ ''/hour'') = Some i \<and> amount i = n)
     \<and> (\<forall>i k t l ok l'. lib_hit lib i k t l = (ok, l') \<longrightarrow>
          ok = (used l i k t < amount i)
          \<and> used l' = (\<lambda>i' k' t'. used l i' k' t' + (if i' = i \<and> k' = k \<and> t' = t then 1 else 0)))"

subsection \<open>Lemmas\<close>

definition cache_ok :: "('i, 'l) limits_lib \<Rightarrow> ('i, 'l) limiter \<Rightarrow> bool" where
  "cache_ok lib st \<longleftrightarrow> (\<forall>(n, i) \<in> set (parsed_amounts st). lib_parse lib (str_of_int n @ ''/hour'') = Some i)"

text \<open>The cache of parsed amounts is invisible.\<close>

lemma limit_for_parse:
  assumes "cache_ok lib st" "limit_for lib n st = (r, st')"
  shows "cache_ok lib st'" and "storage st' = storage st"
    and "r = (case lib_parse lib (str_of_int n @ ''/hour'') of
      None \<Rightarrow> Inl (Value_Error ''couldn't parse rate limit string'') | Some i \<Rightarrow> Inr i)"
proof -
  have "lib_parse lib (str_of_int n @ ''/hour'') = Some i" if "map_of (parsed_amounts st) n = Some i" for i
    using assms(1) map_of_SomeD[OF that] by (auto simp: cache_ok_def)
  then show "cache_ok lib st'" "storage st' = storage st"
    "r = (case lib_parse lib (str_of_int n @ ''/hour'') of
      None \<Rightarrow> Inl (Value_Error ''couldn't parse rate limit string'') | Some i \<Rightarrow> Inr i)"
    using assms by (auto simp: limit_for_def cache_ok_def split: option.splits)
qed

definition budget :: "settings \<Rightarrow> limit_kind \<times> string \<Rightarrow> nat" where
  "budget s r = nat (amount_for (fst r) (snd r) s)"

text \<open>All amounts the settings name can be parsed: none is negative.\<close>

definition budgets_ok :: "settings \<Rightarrow> bool" where
  "budgets_ok s \<longleftrightarrow> 0 \<le> rate_limit_extraction_per_hour s \<and> 0 \<le> rate_limit_change_report_per_hour s
     \<and> 0 \<le> demo_rate_limit_extraction_per_hour s \<and> 0 \<le> demo_rate_limit_change_report_per_hour s"

lemma amount_nonneg: "budgets_ok s \<Longrightarrow> 0 \<le> amount_for k t s"
  by (simp add: budgets_ok_def amount_for_def split: limit_kind.splits)

lemma limit_kind_value_inj: "limit_kind_value k = limit_kind_value k' \<longleftrightarrow> k = k'"
  by (simp add: limit_kind_value_def split: limit_kind.splits)

text \<open>The hits a request has against it: those of its own kind and tenant.\<close>

definition item_for :: "('i, 'l) limits_lib \<Rightarrow> settings \<Rightarrow> limit_kind \<times> string \<Rightarrow> 'i" where
  "item_for lib s r = the (lib_parse lib (str_of_nat (budget s r) @ ''/hour''))"

definition spent :: "('i, 'l) limits_lib \<Rightarrow> settings \<Rightarrow> ('l \<Rightarrow> 'i \<Rightarrow> string \<Rightarrow> string \<Rightarrow> nat) \<Rightarrow> 'l \<Rightarrow> limit_kind \<times> string \<Rightarrow> nat" where
  "spent lib s used l r = used l (item_for lib s r) (limit_kind_value (fst r)) (snd r)"

lemma enforce_spends:
  assumes "fixed_window lib amount used" "budgets_ok s" "cache_ok lib st" "enforce lib (fst r) (snd r) s st = (x, st')"
  shows "cache_ok lib st'"
    and "spent lib s used (storage st') q = spent lib s used (storage st) q + (if q = r then 1 else 0)"
    and "x = Inr () \<longleftrightarrow> spent lib s used (storage st) r < budget s r"
    and "x \<noteq> Inr () \<Longrightarrow> \<exists>n \<ge> 1. x = Inl (Rate_Limit_Exceeded n)"
proof -
  let ?n = "amount_for (fst r) (snd r) s"
  have n: "str_of_int ?n = str_of_nat (budget s r)"
    using amount_nonneg[OF assms(2)] by (simp add: str_of_int_def budget_def not_less)
  obtain i where i: "lib_parse lib (str_of_nat (budget s r) @ ''/hour'') = Some i" "amount i = budget s r"
    using assms(1) unfolding fixed_window_def by blast
  have it: "item_for lib s r = i" by (simp add: item_for_def i)
  obtain y st1 where l: "limit_for lib ?n st = (y, st1)" by fastforce
  note p = limit_for_parse[OF assms(3) l]
  have y: "y = Inr i" using p(3) i(1) by (simp add: n)
  obtain ok l' where h: "lib_hit lib i (limit_kind_value (fst r)) (snd r) (storage st) = (ok, l')" by fastforce
  have u: "ok = (used (storage st) i (limit_kind_value (fst r)) (snd r) < amount i)"
    "used l' = (\<lambda>i' k' t'. used (storage st) i' k' t' + (if i' = i \<and> k' = limit_kind_value (fst r) \<and> t' = snd r then 1 else 0))"
    using assms(1) h unfolding fixed_window_def by blast+
  have st': "st' = st1\<lparr>storage := l'\<rparr>"
    "x = (if ok then Inr () else Inl (Rate_Limit_Exceeded (retry_after (lib_reset_time lib i (limit_kind_value (fst r)) (snd r) l') (lib_now lib l'))))"
    using assms(4) l y h p(2) by (auto simp: enforce_def split: bool.splits)
  show "cache_ok lib st'" using p(1) by (simp add: st' cache_ok_def)
  have "item_for lib s q = i \<and> limit_kind_value (fst q) = limit_kind_value (fst r) \<and> snd q = snd r \<longleftrightarrow> q = r"
    using it by (cases q; cases r) (auto simp: limit_kind_value_inj)
  then show "spent lib s used (storage st') q = spent lib s used (storage st) q + (if q = r then 1 else 0)"
    by (simp add: st' spent_def u(2))
  show "x = Inr () \<longleftrightarrow> spent lib s used (storage st) r < budget s r"
    using u(1) i(2) by (simp add: st'(2) spent_def it)
  show "\<exists>n \<ge> 1. x = Inl (Rate_Limit_Exceeded n)" if "x \<noteq> Inr ()"
    using that by (auto simp: st'(2) retry_after_def split: if_splits)
qed

lemma enforce_all_spends:
  assumes "fixed_window lib amount used" "budgets_ok s"
  shows "cache_ok lib st \<Longrightarrow> enforce_all lib s rs st = (xs, st') \<Longrightarrow>
    length xs = length rs \<and> (\<forall>n < length rs.
      (xs ! n = Inr () \<longleftrightarrow> spent lib s used (storage st) (rs ! n) + count_list (take n rs) (rs ! n) < budget s (rs ! n))
      \<and> (xs ! n \<noteq> Inr () \<longrightarrow> (\<exists>m \<ge> 1. xs ! n = Inl (Rate_Limit_Exceeded m))))"
proof (induction rs arbitrary: st xs)
  case (Cons r rs)
  obtain x st1 where e: "enforce lib (fst r) (snd r) s st = (x, st1)" by fastforce
  obtain ys st2 where es: "enforce_all lib s rs st1 = (ys, st2)" by fastforce
  have xs: "xs = x # ys" "st2 = st'" using Cons.prems(2) by (simp_all add: e es)
  note sp = enforce_spends[OF assms Cons.prems(1) e]
  note ih = Cons.IH[OF sp(1) es[unfolded xs(2)]]
  show ?case using ih sp(3,4) by (auto simp: xs(1) sp(2) nth_Cons less_Suc_eq_0_disj split: nat.splits)
qed simp

subsection \<open>Properties\<close>


text \<open>A storage that keeps every hit: the plainest fixed window.\<close>

definition plain_limits :: "(nat, (nat \<times> string \<times> string) list) limits_lib" where
  "plain_limits = \<lparr>lib_parse = (\<lambda>s. Some (int_of_digits (takeWhile is_digit s))),
     lib_hit = (\<lambda>i k t l. (count_list l (i, k, t) < i, (i, k, t) # l)),
     lib_reset_time = (\<lambda>_ _ _ _. 3600), lib_now = (\<lambda>_. 0), lib_cleared = (\<lambda>_. [])\<rparr>"

lemma plain_fixed_window: "fixed_window plain_limits id (\<lambda>l i k t. count_list l (i, k, t))"
proof -
  have "takeWhile is_digit (str_of_nat n @ ''/hour'') = str_of_nat n" for n
    using str_of_nat_digits[of _ n] by (subst takeWhile_append2) (auto simp: is_digit_def)
  then show ?thesis by (auto simp: fixed_window_def plain_limits_def int_of_digits_str fun_eq_iff)
qed

definition fresh_limiter :: "(nat, (nat \<times> string \<times> string) list) limiter" where
  "fresh_limiter = \<lparr>parsed_amounts = [], storage = []\<rparr>"

text \<open>A demo tenant's third report request within the hour.\<close>

definition demo_settings :: settings where
  "demo_settings = default_settings\<lparr>demo_tenant_ids := ''x, DEMO ,''\<rparr>"


end
