(* ===== verification/Http.thy ===== *)
theory Http
  imports Errors Documents
begin

section \<open>Exceptions as HTTP responses (app/errors.py), request ids (app/middleware.py)\<close>

record 'b response =
  rs_status :: nat
  rs_content :: 'b
  rs_headers :: "(string \<times> string) list"

subsection \<open>The table\<close>

text \<open>Error responses carry a JSON detail.\<close>

definition detail_response :: "nat \<Rightarrow> json \<Rightarrow> json response" where
  "detail_response st detail = \<lparr>rs_status = st, rs_content = JObj [(''detail'', detail)], rs_headers = []\<rparr>"

text \<open>\<^verbatim>\<open>repr(sorted(ALLOWED_MIME_TYPES))\<close>.\<close>

definition allowed_repr :: string where
  "allowed_repr = ''['' @ join '', '' (map py_repr [pdf_mime, docx_mime, text_mime]) @ '']''"

definition mime_detail :: "string option \<Rightarrow> string option \<Rightarrow> string" where
  "mime_detail content_type sniffed =
     exn_str (Mime_Not_Allowed content_type sniffed) @ ''; allowed: '' @ allowed_repr
     @ (case sniffed of None \<Rightarrow> [] | Some m \<Rightarrow> ''; content identified as '' @ m)"

definition too_large_detail :: "nat \<Rightarrow> string" where
  "too_large_detail max_bytes = ''upload exceeds limit of '' @ str_of_nat (max_bytes div (1024 * 1024)) @ '' MiB''"

text \<open>The handler of each registered class; \<open>None\<close>: no handler, the server's own 500.\<close>

definition http_response :: "exn \<Rightarrow> json response option" where
  "http_response e = (case e of
     Mime_Not_Allowed ct sn \<Rightarrow> Some (detail_response 415 (JStr (mime_detail ct sn)))
   | Upload_Too_Large n \<Rightarrow> Some (detail_response 413 (JStr (too_large_detail n)))
   | Document_Already_Exists i \<Rightarrow> Some (detail_response 409
       (case i of None \<Rightarrow> JStr (exn_str e) | Some x \<Rightarrow> JObj [(''existing_id'', juuid x)]))
   | Document_Not_Found _ \<Rightarrow> Some (detail_response 404 (JStr (exn_str e)))
   | Document_Has_Amendments _ \<Rightarrow> Some (detail_response 409 (JStr (exn_str e)))
   | Extraction_Job_Not_Found _ \<Rightarrow> Some (detail_response 404 (JStr (exn_str e)))
   | Ingestion_Job_Not_Found _ \<Rightarrow> Some (detail_response 404 (JStr (exn_str e)))
   | Extraction_Job_Conflict j \<Rightarrow> Some (detail_response 409 (JObj [(''existing_job_id'', juuid j)]))
   | Ingestion_Job_Conflict j \<Rightarrow> Some (detail_response 409 (JObj [(''existing_job_id'', juuid j)]))
   | Document_Not_Parsed j \<Rightarrow> Some (detail_response 409 (JObj [(''ingestion_job_id'', jopt juuid j)]))
   | Change_Report_Job_Not_Found _ \<Rightarrow> Some (detail_response 404 (JStr (exn_str e)))
   | Amendment_Mismatch _ _ \<Rightarrow> Some (detail_response 409 (JStr (exn_str e)))
   | Prerequisite_Missing d k j \<Rightarrow> Some (detail_response 409
       (JObj [(''document_id'', juuid d), (''kind'', JStr (prereq_name k)), (''job_id'', jopt juuid j)]))
   | Review_Item_Not_Found _ \<Rightarrow> Some (detail_response 404 (JStr (exn_str e)))
   | Review_Item_Already_Resolved _ \<Rightarrow> Some (detail_response 409 (JStr (exn_str e)))
   | Llm_Call_Error model _ \<Rightarrow> Some (detail_response 502 (JStr (''llm call failed model='' @ model)))
   | Llm_Output_Error m _ \<Rightarrow> Some (detail_response 502 (JStr m))
   | Llm_Not_Configured \<Rightarrow> Some (detail_response 503 (JStr (exn_str e)))
   | Authentication_Error m \<Rightarrow> Some ((detail_response 401 (JStr m))\<lparr>rs_headers := [(''WWW-Authenticate'', ''Bearer'')]\<rparr>)
   | Authorization_Error m \<Rightarrow> Some (detail_response 403 (JStr m))
   | Auth_Not_Configured m \<Rightarrow> Some (detail_response 503 (JStr m))
   | Jwks_Unavailable m \<Rightarrow> Some (detail_response 502 (JStr m))
   | Rate_Limit_Exceeded n \<Rightarrow> Some ((detail_response 429 (JStr (exn_str e)))\<lparr>rs_headers := [(''Retry-After'', str_of_nat n)]\<rparr>)
   | _ \<Rightarrow> None)"

text \<open>The classes \<^verbatim>\<open>register_exception_handlers\<close> registers.\<close>

definition registered :: "exn \<Rightarrow> bool" where
  "registered e \<longleftrightarrow> (case e of
     Authentication_Error _ \<Rightarrow> True | Authorization_Error _ \<Rightarrow> True | Auth_Not_Configured _ \<Rightarrow> True
   | Jwks_Unavailable _ \<Rightarrow> True | Mime_Not_Allowed _ _ \<Rightarrow> True | Upload_Too_Large _ \<Rightarrow> True
   | Document_Already_Exists _ \<Rightarrow> True | Document_Not_Found _ \<Rightarrow> True | Document_Has_Amendments _ \<Rightarrow> True
   | Extraction_Job_Not_Found _ \<Rightarrow> True | Ingestion_Job_Not_Found _ \<Rightarrow> True
   | Extraction_Job_Conflict _ \<Rightarrow> True | Ingestion_Job_Conflict _ \<Rightarrow> True | Document_Not_Parsed _ \<Rightarrow> True
   | Change_Report_Job_Not_Found _ \<Rightarrow> True | Amendment_Mismatch _ _ \<Rightarrow> True | Prerequisite_Missing _ _ _ \<Rightarrow> True
   | Review_Item_Not_Found _ \<Rightarrow> True | Review_Item_Already_Resolved _ \<Rightarrow> True
   | Llm_Call_Error _ _ \<Rightarrow> True | Llm_Output_Error _ _ \<Rightarrow> True | Llm_Not_Configured \<Rightarrow> True
   | Rate_Limit_Exceeded _ \<Rightarrow> True | _ \<Rightarrow> False)"

lemma registered_response: "registered e \<longleftrightarrow> http_response e \<noteq> None"
  by (cases e) (simp_all add: registered_def http_response_def)

lemma http_status:
  "http_response e = Some r \<Longrightarrow> rs_status r \<in> {401, 403, 404, 409, 413, 415, 429, 502, 503}"
  by (cases e) (auto simp: http_response_def detail_response_def)

subsection \<open>Request identifiers\<close>

definition max_request_id_len :: nat where
  "max_request_id_len = 64"

text \<open>\<open>fresh\<close> is the generated identifier, 32 hexadecimal digits.\<close>

definition sanitize_request_id :: "string \<Rightarrow> string \<Rightarrow> string" where
  "sanitize_request_id fresh raw =
     (let cleaned = take max_request_id_len (filter (\<lambda>c. 0x21 \<le> code c \<and> code c \<le> 0x7E) raw)
      in if cleaned = [] then fresh else cleaned)"

text \<open>Safe to echo in a header: short, visible ASCII only.\<close>

definition header_safe :: "string \<Rightarrow> bool" where
  "header_safe s \<longleftrightarrow> s \<noteq> [] \<and> length s \<le> 64 \<and> list_all (\<lambda>c. 0x21 \<le> code c \<and> code c \<le> 0x7E) s"

lemma sanitized_safe: "header_safe fresh \<Longrightarrow> header_safe (sanitize_request_id fresh raw)"
  by (auto simp: sanitize_request_id_def header_safe_def Let_def max_request_id_len_def list_all_iff dest: in_set_takeD)

lemma sanitize_safe_id: "header_safe raw \<Longrightarrow> sanitize_request_id fresh raw = raw"
  by (simp add: sanitize_request_id_def header_safe_def Let_def max_request_id_len_def list_all_iff)

end
