(* ===== verification/Api.thy ===== *)
theory Api
  imports Tenancy Auth RateLimit Http
begin

section \<open>The HTTP surface (app/api, app/schemas, app/middleware.py)\<close>

text \<open>
  A request passes the middleware, the dependencies of its route (authentication, role,
  budget), the validation of its parameters, and reaches one service call; what that
  returns or raises becomes the response. Requests are taken one after another here: what
  other requests may commit in the middle of one is the component theories' subject.
\<close>

subsection \<open>What the wire shows\<close>

record document_read =
  dv_id :: uuid
  dv_tenant :: uuid
  dv_filename :: string
  dv_mime :: string
  dv_sha :: string
  dv_amends :: "uuid option"
  dv_status :: document_status

definition read_document :: "document \<Rightarrow> document_read" where
  "read_document r = \<lparr>dv_id = doc_id r, dv_tenant = doc_tenant r, dv_filename = doc_filename r, dv_mime = doc_mime r,
     dv_sha = doc_sha r, dv_amends = doc_amends r, dv_status = doc_status r\<rparr>"

text \<open>Jobs without their attempts and lease; the document columns of the two kinds differ.\<close>

record job_read =
  jv_id :: uuid
  jv_tenant :: uuid
  jv_documents :: "uuid list"
  jv_status :: job_state
  jv_result :: "json option"
  jv_error :: "string option"
  jv_created :: time
  jv_updated :: time

definition read_doc_job :: "doc_job \<Rightarrow> job_read" where
  "read_doc_job j = \<lparr>jv_id = job_id j, jv_tenant = job_tenant j, jv_documents = [dj_document j], jv_status = job_status j,
     jv_result = job_result j, jv_error = job_error j, jv_created = job_created j, jv_updated = job_updated j\<rparr>"

definition read_report_job :: "report_job \<Rightarrow> job_read" where
  "read_report_job j = \<lparr>jv_id = job_id j, jv_tenant = job_tenant j, jv_documents = [rj_base j, rj_amended j], jv_status = job_status j,
     jv_result = job_result j, jv_error = job_error j, jv_created = job_created j, jv_updated = job_updated j\<rparr>"

text \<open>The other responses show every column of their rows.\<close>

datatype body =
    B_Detail json
  | B_Invalid
  | B_Server_Error
  | B_Empty
  | B_Health
  | B_Document document_read
  | B_Documents "document_read list" nat int int
  | B_File string string string
  | B_Job job_read
  | B_Jobs "job_read list"
  | B_Hits "search_hit list"
  | B_Review review_item
  | B_Reviews "review_item list"
  | B_Audit "audit_entry list"
  | B_Spend spend_report

subsection \<open>Routes\<close>

datatype api_request =
    Get_Healthz
  | Post_Documents "string option" "string option" "bytes list" "uuid option"
  | Get_Documents int int
  | Get_Document uuid
  | Get_Document_Content uuid
  | Delete_Document uuid
  | Post_Document_Ingestion uuid
  | Get_Ingestion_Job uuid
  | Post_Document_Extraction uuid
  | Get_Extraction_Job uuid
  | Get_Search string int
  | Post_Change_Report uuid uuid
  | Get_Change_Report_Jobs uuid
  | Get_Change_Report_Job uuid
  | Get_Review_Items "string option"
  | Get_Review_Item uuid
  | Post_Disposition uuid string "json option"
  | Get_Audit_Log "string option" int
  | Get_Usage_Spend string

text \<open>The declared constraints of query parameters and bodies.\<close>

definition search_max_limit :: int where
  "search_max_limit = 50"

definition review_statuses :: "(string \<times> review_status) list" where
  "review_statuses = [(''pending'', Pending), (''approved'', Approved), (''edited'', Edited), (''rejected'', Rejected)]"

definition valid_request :: "api_request \<Rightarrow> bool" where
  "valid_request rq \<longleftrightarrow> (case rq of
     Get_Documents limit offset \<Rightarrow> 1 \<le> limit \<and> limit \<le> int max_list_limit \<and> 0 \<le> offset
   | Get_Search q limit \<Rightarrow> q \<noteq> [] \<and> 1 \<le> limit \<and> limit \<le> search_max_limit
   | Get_Review_Items st \<Rightarrow> (case st of None \<Rightarrow> True | Some s \<Rightarrow> map_of review_statuses s \<noteq> None)
   | Post_Disposition _ disposition corrected \<Rightarrow> disposition_create disposition corrected \<noteq> None
   | Get_Audit_Log action limit \<Rightarrow>
       (case action of None \<Rightarrow> True | Some a \<Rightarrow> 1 \<le> length a \<and> length a \<le> 64) \<and> 1 \<le> limit \<and> limit \<le> 200
   | Get_Usage_Spend g \<Rightarrow> g = ''job_type'' \<or> g = ''job''
   | _ \<Rightarrow> True)"

text \<open>The roles a route admits; \<open>None\<close>: no principal needed.\<close>

definition admitted :: "api_request \<Rightarrow> role list option" where
  "admitted rq = (case rq of
     Get_Healthz \<Rightarrow> None
   | Post_Documents _ _ _ _ \<Rightarrow> Some [Admin]
   | Delete_Document _ \<Rightarrow> Some [Admin]
   | Post_Document_Ingestion _ \<Rightarrow> Some [Admin]
   | Post_Document_Extraction _ \<Rightarrow> Some [Admin]
   | Post_Change_Report _ _ \<Rightarrow> Some [Admin]
   | Get_Usage_Spend _ \<Rightarrow> Some [Admin]
   | Post_Disposition _ _ _ \<Rightarrow> Some [Reviewer, Admin]
   | _ \<Rightarrow> Some [Admin, Reviewer])"

definition limited :: "api_request \<Rightarrow> limit_kind option" where
  "limited rq = (case rq of Post_Document_Extraction _ \<Rightarrow> Some Limit_Extraction
     | Post_Change_Report _ _ \<Rightarrow> Some Limit_Change_Report | _ \<Rightarrow> None)"

definition success_status :: "api_request \<Rightarrow> nat" where
  "success_status rq = (case rq of
     Post_Documents _ _ _ _ \<Rightarrow> 201 | Delete_Document _ \<Rightarrow> 204 | Post_Document_Ingestion _ \<Rightarrow> 202
   | Post_Document_Extraction _ \<Rightarrow> 202 | Post_Change_Report _ _ \<Rightarrow> 202 | _ \<Rightarrow> 200)"

subsection \<open>State\<close>

record ('k, 'i, 'l, 'w) api_env =
  ae_settings :: settings
  ae_idp :: "('k, 'w) idp"
  ae_jwt :: "('k, 'w) jwt_lib"
  ae_limits :: "('i, 'l) limits_lib"
  ae_libs :: libs
  ae_sdk :: "'w openai"
  ae_engines :: engines
  ae_database_up :: bool

record ('k, 'i, 'l, 'w) api_state =
  as_db :: db
  as_files :: files
  as_clients :: "'k jwks_clients"
  as_limiter :: "('i, 'l) limiter"
  as_world :: 'w

subsection \<open>The service call of a route\<close>

definition on_db :: "('k, 'i, 'l, 'w) api_state \<Rightarrow> (exn + 'a) \<times> db \<Rightarrow> ('a \<Rightarrow> body) \<Rightarrow> (exn + body) \<times> ('k, 'i, 'l, 'w) api_state" where
  "on_db st res f = (case res of (r, d) \<Rightarrow> (map_sum id f r, st\<lparr>as_db := d\<rparr>))"

definition reading :: "('k, 'i, 'l, 'w) api_state \<Rightarrow> exn + 'a \<Rightarrow> ('a \<Rightarrow> body) \<Rightarrow> (exn + body) \<times> ('k, 'i, 'l, 'w) api_state" where
  "reading st r f = (map_sum id f r, st)"

definition max_upload_bytes :: "settings \<Rightarrow> nat" where
  "max_upload_bytes s = nat (max_upload_mb s * 1024 * 1024)"

definition route_healthz :: "('k, 'i, 'l, 'w) api_env \<Rightarrow> request_context \<Rightarrow> uuid \<Rightarrow> ('k, 'i, 'l, 'w) api_state
    \<Rightarrow> (exn + body) \<times> ('k, 'i, 'l, 'w) api_state" where
  "route_healthz env ctx t st =
     (Inr B_Health, st)"

definition route_post_documents :: "('k, 'i, 'l, 'w) api_env \<Rightarrow> request_context \<Rightarrow> uuid \<Rightarrow> string option \<Rightarrow> string option \<Rightarrow> bytes list \<Rightarrow> uuid option \<Rightarrow> ('k, 'i, 'l, 'w) api_state
    \<Rightarrow> (exn + body) \<times> ('k, 'i, 'l, 'w) api_state" where
  "route_post_documents env ctx t filename content_type reads parent st =
     (case upload_document (ae_libs env) ctx (max_upload_bytes (ae_settings env)) (\<lambda>d. d) t filename content_type reads parent (as_files st, as_db st) of
     (r, fs', d') \<Rightarrow> (map_sum id (\<lambda>x. B_Document (read_document x)) r, st\<lparr>as_db := d', as_files := fs'\<rparr>))"

definition route_get_documents :: "('k, 'i, 'l, 'w) api_env \<Rightarrow> request_context \<Rightarrow> uuid \<Rightarrow> int \<Rightarrow> int \<Rightarrow> ('k, 'i, 'l, 'w) api_state
    \<Rightarrow> (exn + body) \<times> ('k, 'i, 'l, 'w) api_state" where
  "route_get_documents env ctx t limit offset st =
     (case list_documents t (nat limit) (nat offset) (as_db st) of
     (items, n) \<Rightarrow> (Inr (B_Documents (map read_document items) n limit offset), st))"

definition route_get_document :: "('k, 'i, 'l, 'w) api_env \<Rightarrow> request_context \<Rightarrow> uuid \<Rightarrow> uuid \<Rightarrow> ('k, 'i, 'l, 'w) api_state
    \<Rightarrow> (exn + body) \<times> ('k, 'i, 'l, 'w) api_state" where
  "route_get_document env ctx t i st =
     reading st (get_document t i (as_db st)) (\<lambda>r. B_Document (read_document r))"

definition route_get_document_content :: "('k, 'i, 'l, 'w) api_env \<Rightarrow> request_context \<Rightarrow> uuid \<Rightarrow> uuid \<Rightarrow> ('k, 'i, 'l, 'w) api_state
    \<Rightarrow> (exn + body) \<times> ('k, 'i, 'l, 'w) api_state" where
  "route_get_document_content env ctx t i st =
     reading st (resolve_document_file (data_dir (ae_settings env)) t i (as_files st, as_db st)) (\<lambda>(r, path). B_File path (doc_mime r) (doc_filename r))"

definition route_delete_document :: "('k, 'i, 'l, 'w) api_env \<Rightarrow> request_context \<Rightarrow> uuid \<Rightarrow> uuid \<Rightarrow> ('k, 'i, 'l, 'w) api_state
    \<Rightarrow> (exn + body) \<times> ('k, 'i, 'l, 'w) api_state" where
  "route_delete_document env ctx t i st =
     (case delete_document ctx (\<lambda>d. d) t i (as_files st, as_db st) of
     (r, fs', d') \<Rightarrow> (map_sum id (\<lambda>_. B_Empty) r, st\<lparr>as_db := d', as_files := fs'\<rparr>))"

definition route_post_document_ingestion :: "('k, 'i, 'l, 'w) api_env \<Rightarrow> request_context \<Rightarrow> uuid \<Rightarrow> uuid \<Rightarrow> ('k, 'i, 'l, 'w) api_state
    \<Rightarrow> (exn + body) \<times> ('k, 'i, 'l, 'w) api_state" where
  "route_post_document_ingestion env ctx t i st =
     on_db st (enqueue_ingestion ctx t i (as_db st)) (\<lambda>j. B_Job (read_doc_job j))"

definition route_get_ingestion_job :: "('k, 'i, 'l, 'w) api_env \<Rightarrow> request_context \<Rightarrow> uuid \<Rightarrow> uuid \<Rightarrow> ('k, 'i, 'l, 'w) api_state
    \<Rightarrow> (exn + body) \<times> ('k, 'i, 'l, 'w) api_state" where
  "route_get_ingestion_job env ctx t i st =
     reading st (get_ingestion_job t i (as_db st)) (\<lambda>j. B_Job (read_doc_job j))"

definition route_post_document_extraction :: "('k, 'i, 'l, 'w) api_env \<Rightarrow> request_context \<Rightarrow> uuid \<Rightarrow> uuid \<Rightarrow> ('k, 'i, 'l, 'w) api_state
    \<Rightarrow> (exn + body) \<times> ('k, 'i, 'l, 'w) api_state" where
  "route_post_document_extraction env ctx t i st =
     on_db st (enqueue_extraction ctx t i (as_db st)) (\<lambda>j. B_Job (read_doc_job j))"

definition route_get_extraction_job :: "('k, 'i, 'l, 'w) api_env \<Rightarrow> request_context \<Rightarrow> uuid \<Rightarrow> uuid \<Rightarrow> ('k, 'i, 'l, 'w) api_state
    \<Rightarrow> (exn + body) \<times> ('k, 'i, 'l, 'w) api_state" where
  "route_get_extraction_job env ctx t i st =
     reading st (get_extraction_job t i (as_db st)) (\<lambda>j. B_Job (read_doc_job j))"

definition route_get_search :: "('k, 'i, 'l, 'w) api_env \<Rightarrow> request_context \<Rightarrow> uuid \<Rightarrow> string \<Rightarrow> int \<Rightarrow> ('k, 'i, 'l, 'w) api_state
    \<Rightarrow> (exn + body) \<times> ('k, 'i, 'l, 'w) api_state" where
  "route_get_search env ctx t q limit st =
     (case search ctx (ae_sdk env) (ae_engines env) t q (nat limit) (as_world st) (as_db st) of
     (r, w', d') \<Rightarrow> (map_sum id B_Hits r, st\<lparr>as_db := d', as_world := w'\<rparr>))"

definition route_post_change_report :: "('k, 'i, 'l, 'w) api_env \<Rightarrow> request_context \<Rightarrow> uuid \<Rightarrow> uuid \<Rightarrow> uuid \<Rightarrow> ('k, 'i, 'l, 'w) api_state
    \<Rightarrow> (exn + body) \<times> ('k, 'i, 'l, 'w) api_state" where
  "route_post_change_report env ctx t b a st =
     on_db st (enqueue_change_report ctx t b a (as_db st)) (\<lambda>j. B_Job (read_report_job j))"

definition route_get_change_report_jobs :: "('k, 'i, 'l, 'w) api_env \<Rightarrow> request_context \<Rightarrow> uuid \<Rightarrow> uuid \<Rightarrow> ('k, 'i, 'l, 'w) api_state
    \<Rightarrow> (exn + body) \<times> ('k, 'i, 'l, 'w) api_state" where
  "route_get_change_report_jobs env ctx t b st =
     reading st (list_change_report_jobs t b (as_db st)) (\<lambda>js. B_Jobs (map read_report_job js))"

definition route_get_change_report_job :: "('k, 'i, 'l, 'w) api_env \<Rightarrow> request_context \<Rightarrow> uuid \<Rightarrow> uuid \<Rightarrow> ('k, 'i, 'l, 'w) api_state
    \<Rightarrow> (exn + body) \<times> ('k, 'i, 'l, 'w) api_state" where
  "route_get_change_report_job env ctx t i st =
     reading st (get_change_report_job t i (as_db st)) (\<lambda>j. B_Job (read_report_job j))"

definition route_get_review_items :: "('k, 'i, 'l, 'w) api_env \<Rightarrow> request_context \<Rightarrow> uuid \<Rightarrow> string option \<Rightarrow> ('k, 'i, 'l, 'w) api_state
    \<Rightarrow> (exn + body) \<times> ('k, 'i, 'l, 'w) api_state" where
  "route_get_review_items env ctx t q st =
     (Inr (B_Reviews (list_review_items t (case q of None \<Rightarrow> None | Some v \<Rightarrow> map_of review_statuses v) (as_db st))), st)"

definition route_get_review_item :: "('k, 'i, 'l, 'w) api_env \<Rightarrow> request_context \<Rightarrow> uuid \<Rightarrow> uuid \<Rightarrow> ('k, 'i, 'l, 'w) api_state
    \<Rightarrow> (exn + body) \<times> ('k, 'i, 'l, 'w) api_state" where
  "route_get_review_item env ctx t i st =
     reading st (get_review_item t i (as_db st)) B_Review"

definition route_post_disposition :: "('k, 'i, 'l, 'w) api_env \<Rightarrow> request_context \<Rightarrow> uuid \<Rightarrow> uuid \<Rightarrow> string \<Rightarrow> json option \<Rightarrow> ('k, 'i, 'l, 'w) api_state
    \<Rightarrow> (exn + body) \<times> ('k, 'i, 'l, 'w) api_state" where
  "route_post_disposition env ctx t i disposition corrected st =
     (case disposition_create disposition corrected of
     None \<Rightarrow> (Inr B_Invalid, st)
     | Some (ds, c) \<Rightarrow> on_db st (resolve_review_item ctx (\<lambda>d. d) t i ds c (as_db st)) B_Review)"

definition route_get_audit_log :: "('k, 'i, 'l, 'w) api_env \<Rightarrow> request_context \<Rightarrow> uuid \<Rightarrow> string option \<Rightarrow> int \<Rightarrow> ('k, 'i, 'l, 'w) api_state
    \<Rightarrow> (exn + body) \<times> ('k, 'i, 'l, 'w) api_state" where
  "route_get_audit_log env ctx t action limit st =
     (Inr (B_Audit (list_audit_entries t action (nat limit) (as_db st))), st)"

definition route_get_usage_spend :: "('k, 'i, 'l, 'w) api_env \<Rightarrow> request_context \<Rightarrow> uuid \<Rightarrow> string \<Rightarrow> ('k, 'i, 'l, 'w) api_state
    \<Rightarrow> (exn + body) \<times> ('k, 'i, 'l, 'w) api_state" where
  "route_get_usage_spend env ctx t g st =
     (Inr (B_Spend (spend t (if g = ''job'' then By_Job else By_Job_Type) (as_db st))), st)"

definition call_service :: "('k, 'i, 'l, 'w) api_env \<Rightarrow> request_context \<Rightarrow> uuid \<Rightarrow> api_request \<Rightarrow> ('k, 'i, 'l, 'w) api_state
    \<Rightarrow> (exn + body) \<times> ('k, 'i, 'l, 'w) api_state" where
  "call_service env ctx t rq st = (case rq of
       Get_Healthz \<Rightarrow> route_healthz env ctx t st
     | Post_Documents filename content_type reads parent \<Rightarrow> route_post_documents env ctx t filename content_type reads parent st
     | Get_Documents limit offset \<Rightarrow> route_get_documents env ctx t limit offset st
     | Get_Document i \<Rightarrow> route_get_document env ctx t i st
     | Get_Document_Content i \<Rightarrow> route_get_document_content env ctx t i st
     | Delete_Document i \<Rightarrow> route_delete_document env ctx t i st
     | Post_Document_Ingestion i \<Rightarrow> route_post_document_ingestion env ctx t i st
     | Get_Ingestion_Job i \<Rightarrow> route_get_ingestion_job env ctx t i st
     | Post_Document_Extraction i \<Rightarrow> route_post_document_extraction env ctx t i st
     | Get_Extraction_Job i \<Rightarrow> route_get_extraction_job env ctx t i st
     | Get_Search q limit \<Rightarrow> route_get_search env ctx t q limit st
     | Post_Change_Report b a \<Rightarrow> route_post_change_report env ctx t b a st
     | Get_Change_Report_Jobs b \<Rightarrow> route_get_change_report_jobs env ctx t b st
     | Get_Change_Report_Job i \<Rightarrow> route_get_change_report_job env ctx t i st
     | Get_Review_Items q \<Rightarrow> route_get_review_items env ctx t q st
     | Get_Review_Item i \<Rightarrow> route_get_review_item env ctx t i st
     | Post_Disposition i disposition corrected \<Rightarrow> route_post_disposition env ctx t i disposition corrected st
     | Get_Audit_Log action limit \<Rightarrow> route_get_audit_log env ctx t action limit st
     | Get_Usage_Spend g \<Rightarrow> route_get_usage_spend env ctx t g st)"

lemmas route_defs =
  route_healthz_def route_post_documents_def route_get_documents_def route_get_document_def
  route_get_document_content_def route_delete_document_def route_post_document_ingestion_def route_get_ingestion_job_def
  route_post_document_extraction_def route_get_extraction_job_def route_get_search_def route_post_change_report_def
  route_get_change_report_jobs_def route_get_change_report_job_def route_get_review_items_def route_get_review_item_def
  route_post_disposition_def route_get_audit_log_def route_get_usage_spend_def

text \<open>All routes at a glance.\<close>

lemma call_service_unfold:
  "call_service env ctx t rq st =
     (let d = as_db st; fs = as_files st; s = ae_settings env in
      case rq of
        Get_Healthz \<Rightarrow> (Inr B_Health, st)
      | Post_Documents filename content_type reads parent \<Rightarrow>
          (case upload_document (ae_libs env) ctx (max_upload_bytes s) (\<lambda>d. d) t filename content_type reads parent (fs, d) of
             (r, fs', d') \<Rightarrow> (map_sum id (\<lambda>x. B_Document (read_document x)) r, st\<lparr>as_db := d', as_files := fs'\<rparr>))
      | Get_Documents limit offset \<Rightarrow>
          (case list_documents t (nat limit) (nat offset) d of
             (items, n) \<Rightarrow> (Inr (B_Documents (map read_document items) n limit offset), st))
      | Get_Document i \<Rightarrow> reading st (get_document t i d) (\<lambda>r. B_Document (read_document r))
      | Get_Document_Content i \<Rightarrow>
          reading st (resolve_document_file (data_dir s) t i (fs, d)) (\<lambda>(r, path). B_File path (doc_mime r) (doc_filename r))
      | Delete_Document i \<Rightarrow>
          (case delete_document ctx (\<lambda>d. d) t i (fs, d) of
             (r, fs', d') \<Rightarrow> (map_sum id (\<lambda>_. B_Empty) r, st\<lparr>as_db := d', as_files := fs'\<rparr>))
      | Post_Document_Ingestion i \<Rightarrow> on_db st (enqueue_ingestion ctx t i d) (\<lambda>j. B_Job (read_doc_job j))
      | Get_Ingestion_Job i \<Rightarrow> reading st (get_ingestion_job t i d) (\<lambda>j. B_Job (read_doc_job j))
      | Post_Document_Extraction i \<Rightarrow> on_db st (enqueue_extraction ctx t i d) (\<lambda>j. B_Job (read_doc_job j))
      | Get_Extraction_Job i \<Rightarrow> reading st (get_extraction_job t i d) (\<lambda>j. B_Job (read_doc_job j))
      | Get_Search q limit \<Rightarrow>
          (case search ctx (ae_sdk env) (ae_engines env) t q (nat limit) (as_world st) d of
             (r, w', d') \<Rightarrow> (map_sum id B_Hits r, st\<lparr>as_db := d', as_world := w'\<rparr>))
      | Post_Change_Report b a \<Rightarrow> on_db st (enqueue_change_report ctx t b a d) (\<lambda>j. B_Job (read_report_job j))
      | Get_Change_Report_Jobs b \<Rightarrow> reading st (list_change_report_jobs t b d) (\<lambda>js. B_Jobs (map read_report_job js))
      | Get_Change_Report_Job i \<Rightarrow> reading st (get_change_report_job t i d) (\<lambda>j. B_Job (read_report_job j))
      | Get_Review_Items q \<Rightarrow>
          (Inr (B_Reviews (list_review_items t (case q of None \<Rightarrow> None | Some v \<Rightarrow> map_of review_statuses v) d)), st)
      | Get_Review_Item i \<Rightarrow> reading st (get_review_item t i d) B_Review
      | Post_Disposition i disposition corrected \<Rightarrow>
          (case disposition_create disposition corrected of
             None \<Rightarrow> (Inr B_Invalid, st)
           | Some (ds, c) \<Rightarrow> on_db st (resolve_review_item ctx (\<lambda>d. d) t i ds c d) B_Review)
      | Get_Audit_Log action limit \<Rightarrow> (Inr (B_Audit (list_audit_entries t action (nat limit) d)), st)
      | Get_Usage_Spend g \<Rightarrow> (Inr (B_Spend (spend t (if g = ''job'' then By_Job else By_Job_Type) d)), st))"
  by (cases rq) (simp_all add: call_service_def route_defs Let_def)

subsection \<open>Dependencies\<close>

text \<open>
  In the order of the route's signature. Search builds its LLM client before it looks for a
  principal; the two enqueueing routes spend budget after the role check.
\<close>

definition llm_dependency :: "('k, 'i, 'l, 'w) api_env \<Rightarrow> api_request \<Rightarrow> exn + unit" where
  "llm_dependency env rq = (case rq of
     Get_Search _ _ \<Rightarrow> (case make_client (openai_api_key (ae_settings env)) (ae_sdk env) of Inl e \<Rightarrow> Inl e | Inr _ \<Rightarrow> Inr ())
   | _ \<Rightarrow> Inr ())"

definition principal_dependency :: "('k, 'i, 'l, 'w) api_env \<Rightarrow> role list \<Rightarrow> string option \<Rightarrow> ('k, 'i, 'l, 'w) api_state
    \<Rightarrow> (exn + principal) \<times> ('k, 'i, 'l, 'w) api_state" where
  "principal_dependency env roles header st =
     (case get_principal (ae_idp env) (ae_jwt env) (ae_settings env) header (as_clients st) (as_world st) of
        (r, cs, w) \<Rightarrow>
          ((case r of Inl e \<Rightarrow> Inl e | Inr p \<Rightarrow> require_role roles p), st\<lparr>as_clients := cs, as_world := w\<rparr>))"

definition budget_dependency :: "('k, 'i, 'l, 'w) api_env \<Rightarrow> limit_kind option \<Rightarrow> principal \<Rightarrow> ('k, 'i, 'l, 'w) api_state
    \<Rightarrow> (exn + unit) \<times> ('k, 'i, 'l, 'w) api_state" where
  "budget_dependency env kind p st =
     (case kind of
        None \<Rightarrow> (Inr (), st)
      | Some k \<Rightarrow>
          (case enforce (ae_limits env) k (uuid_str (pr_tenant p)) (ae_settings env) (as_limiter st) of
             (r, l) \<Rightarrow> (r, st\<lparr>as_limiter := l\<rparr>)))"

text \<open>Everything before the service call: the principal, if the route needs one.\<close>

definition admit :: "('k, 'i, 'l, 'w) api_env \<Rightarrow> api_request \<Rightarrow> string option \<Rightarrow> ('k, 'i, 'l, 'w) api_state
    \<Rightarrow> (exn + principal option) \<times> ('k, 'i, 'l, 'w) api_state" where
  "admit env rq header st =
     (case admitted rq of
        None \<Rightarrow> (Inr None, st)
      | Some roles \<Rightarrow>
          (case llm_dependency env rq of
             Inl e \<Rightarrow> (Inl e, st)
           | Inr _ \<Rightarrow>
               (case principal_dependency env roles header st of
                  (Inl e, st1) \<Rightarrow> (Inl e, st1)
                | (Inr p, st1) \<Rightarrow>
                    (case budget_dependency env (limited rq) p st1 of
                       (Inl e, st2) \<Rightarrow> (Inl e, st2)
                     | (Inr _, st2) \<Rightarrow> (Inr (Some p), st2)))))"

subsection \<open>A request\<close>

definition ok_response :: "nat \<Rightarrow> body \<Rightarrow> body response" where
  "ok_response st b = \<lparr>rs_status = st, rs_content = b, rs_headers = []\<rparr>"

definition error_response :: "exn \<Rightarrow> body response option" where
  "error_response e = map_option (\<lambda>r. \<lparr>rs_status = rs_status r, rs_content = B_Detail (rs_content r), rs_headers = rs_headers r\<rparr>)
     (http_response e)"

text \<open>The probe answers for the database alone.\<close>

definition healthz :: "('k, 'i, 'l, 'w) api_env \<Rightarrow> body response" where
  "healthz env = (if ae_database_up env then ok_response 200 B_Health
     else ok_response 503 (B_Detail (JObj [(''detail'', JStr ''database unavailable'')])))"

text \<open>\<open>None\<close> is an exception without a handler, which the server itself turns into a 500.\<close>

definition route :: "('k, 'i, 'l, 'w) api_env \<Rightarrow> api_request \<Rightarrow> string option \<Rightarrow> string \<Rightarrow> ('k, 'i, 'l, 'w) api_state
    \<Rightarrow> body response option \<times> ('k, 'i, 'l, 'w) api_state" where
  "route env rq header request_id st =
     (case admit env rq header st of
        (Inl e, st1) \<Rightarrow> (error_response e, st1)
      | (Inr p, st1) \<Rightarrow>
          if \<not> valid_request rq then (Some (ok_response 422 B_Invalid), st1)
          else (case p of
             None \<Rightarrow> (Some (healthz env), st1)
           | Some pr \<Rightarrow>
               (case call_service env \<lparr>current_request_id = request_id, current_actor = Some (pr_subject pr)\<rparr> (pr_tenant pr) rq st1 of
                  (Inl e, st2) \<Rightarrow> (error_response e, st2)
                | (Inr b, st2) \<Rightarrow> (Some (ok_response (success_status rq) b), st2))))"

text \<open>
  The middleware adds the request's identifier to every response that passes it; the
  server's own 500 is made outside it.
\<close>

definition serve :: "('k, 'i, 'l, 'w) api_env \<Rightarrow> string \<Rightarrow> string option \<Rightarrow> string option \<Rightarrow> api_request \<Rightarrow> ('k, 'i, 'l, 'w) api_state
    \<Rightarrow> body response \<times> ('k, 'i, 'l, 'w) api_state" where
  "serve env fresh raw_id header rq st =
     (let rid = sanitize_request_id fresh (case raw_id of None \<Rightarrow> [] | Some r \<Rightarrow> r) in
      case route env rq header rid st of
        (None, st') \<Rightarrow> (\<lparr>rs_status = 500, rs_content = B_Server_Error, rs_headers = []\<rparr>, st')
      | (Some r, st') \<Rightarrow> (r\<lparr>rs_headers := rs_headers r @ [(''x-request-id'', rid)]\<rparr>, st'))"

subsection \<open>Lemmas: the dependencies\<close>

definition gatekeeping_error :: "exn \<Rightarrow> bool" where
  "gatekeeping_error e \<longleftrightarrow> auth_error e \<or> (\<exists>m. e = Authorization_Error m) \<or> e = Llm_Not_Configured
     \<or> (\<exists>n. e = Rate_Limit_Exceeded n) \<or> (\<exists>m. e = Value_Error m)"

lemma admit_frame:
  "admit env rq header st = (r, st') \<Longrightarrow> as_db st' = as_db st \<and> as_files st' = as_files st"
  by (auto simp: admit_def principal_dependency_def budget_dependency_def Let_def
      split: option.splits sum.splits prod.splits)

lemma enforce_error: "enforce lib k t s l = (Inl e, l') \<Longrightarrow> (\<exists>n. e = Rate_Limit_Exceeded n) \<or> (\<exists>m. e = Value_Error m)"
  by (auto simp: enforce_def limit_for_def split: option.splits sum.splits prod.splits bool.splits)

lemma admit_error:
  assumes "admit env rq header st = (Inl e, st')" "clients_ok (ae_idp env) (as_clients st)"
  shows "gatekeeping_error e"
proof -
  obtain roles where roles: "admitted rq = Some roles" using assms(1) by (auto simp: admit_def split: option.splits)
  show ?thesis
  proof (cases "llm_dependency env rq")
    case (Inl e')
    then show ?thesis using assms(1) roles
      by (auto simp: admit_def llm_dependency_def make_client_def gatekeeping_error_def split: api_request.splits sum.splits if_splits)
  next
    case (Inr u)
    obtain q cs w where g: "get_principal (ae_idp env) (ae_jwt env) (ae_settings env) header (as_clients st) (as_world st) = (q, cs, w)"
      by (metis prod_cases3)
    note gs = get_principal_spec(2)[OF g assms(2)]
    let ?st1 = "st\<lparr>as_clients := cs, as_world := w\<rparr>"
    have p: "principal_dependency env roles header st = ((case q of Inl e \<Rightarrow> Inl e | Inr p \<Rightarrow> require_role roles p), ?st1)"
      by (simp add: principal_dependency_def g)
    note run = assms(1)[unfolded admit_def roles option.case Inr sum.case p prod.case]
    show ?thesis
    proof (cases "case q of Inl e \<Rightarrow> Inl e | Inr p \<Rightarrow> require_role roles p")
      case (Inl e')
      then have "e = e'" using run by simp
      then show ?thesis using Inl gs
        by (auto simp: gatekeeping_error_def require_role_def split: sum.splits if_splits)
    next
      case (Inr p)
      then have "\<exists>st2. budget_dependency env (limited rq) p ?st1 = (Inl e, st2)"
        using run by (auto split: sum.splits prod.splits)
      then show ?thesis using enforce_error
        by (fastforce simp: budget_dependency_def gatekeeping_error_def split: option.splits prod.splits)
    qed
  qed
qed

text \<open>A request that is admitted has a vouched-for principal with an admitted role.\<close>

lemma admit_principal:
  assumes "admit env rq header st = (Inr (Some p), st')" "clients_ok (ae_idp env) (as_clients st)"
  shows "\<exists>roles. admitted rq = Some roles \<and> pr_role p \<in> set roles
    \<and> (\<exists>h. header = Some h \<and> vouched (ae_idp env) (ae_jwt env) (ae_settings env) (strip (snd (partition_space h))) p)"
proof -
  obtain roles where roles: "admitted rq = Some roles" using assms(1) by (auto simp: admit_def split: option.splits)
  obtain q cs w where g: "get_principal (ae_idp env) (ae_jwt env) (ae_settings env) header (as_clients st) (as_world st) = (q, cs, w)"
    by (metis prod_cases3)
  have q: "q = Inr p \<and> pr_role p \<in> set roles" using assms(1) roles
    by (auto simp: admit_def principal_dependency_def g require_role_def split: sum.splits prod.splits if_splits)
  show ?thesis using get_principal_spec(3)[OF g assms(2)] q roles by blast
qed

lemma admit_none: "admit env rq header st = (Inr None, st') \<Longrightarrow> rq = Get_Healthz \<and> st' = st"
  by (auto simp: admit_def admitted_def split: option.splits sum.splits prod.splits api_request.splits)

subsection \<open>Lemmas: the service calls\<close>

lemma call_service_private:
  assumes "shared_ok (as_db st)" "call_service env ctx t rq st = (r, st')"
  shows "private_step t (as_db st) (as_db st')"
proof -
  let ?d = "as_db st"
  note refl = private_refl[OF assms(1), of t]
  note run = assms(2)[unfolded call_service_unfold Let_def]
  show ?thesis
  proof (cases rq)
    case (Post_Documents f c rs p)
    obtain q fs' d' where u: "upload_document (ae_libs env) ctx (max_upload_bytes (ae_settings env)) (\<lambda>d. d) t f c rs p (as_files st, ?d) = (q, fs', d')"
      by (metis prod_cases3)
    then have "as_db st' = d'" using run Post_Documents by auto
    then show ?thesis using upload_private[OF assms(1) u] by simp
  next
    case (Delete_Document i)
    obtain q fs' d' where u: "delete_document ctx (\<lambda>d. d) t i (as_files st, ?d) = (q, fs', d')" by (metis prod_cases3)
    then have "as_db st' = d'" using run Delete_Document by auto
    then show ?thesis using delete_private[OF assms(1) u] by simp
  next
    case (Post_Document_Ingestion i)
    obtain q d' where u: "enqueue_ingestion ctx t i ?d = (q, d')" by fastforce
    then have "as_db st' = d'" using run Post_Document_Ingestion by (auto simp: on_db_def)
    then show ?thesis using enqueue_ingestion_private[OF assms(1) u] by simp
  next
    case (Post_Document_Extraction i)
    obtain q d' where u: "enqueue_extraction ctx t i ?d = (q, d')" by fastforce
    then have "as_db st' = d'" using run Post_Document_Extraction by (auto simp: on_db_def)
    then show ?thesis using enqueue_extraction_private[OF assms(1) u] by simp
  next
    case (Post_Change_Report b a)
    obtain q d' where u: "enqueue_change_report ctx t b a ?d = (q, d')" by fastforce
    then have "as_db st' = d'" using run Post_Change_Report by (auto simp: on_db_def)
    then show ?thesis using enqueue_report_private[OF assms(1) u] by simp
  next
    case (Get_Search q n)
    obtain x w' d' where u: "search ctx (ae_sdk env) (ae_engines env) t q (nat n) (as_world st) ?d = (x, w', d')" by (metis prod_cases3)
    then have "as_db st' = d'" using run Get_Search by auto
    then show ?thesis using search_private[OF assms(1) u] by simp
  next
    case (Post_Disposition i ds c)
    show ?thesis
    proof (cases "disposition_create ds c")
      case None
      then show ?thesis using run Post_Disposition refl by auto
    next
      case (Some x)
      obtain q d' where u: "resolve_review_item ctx (\<lambda>d. d) t i (fst x) (snd x) ?d = (q, d')" by fastforce
      then have "as_db st' = d'" using run Post_Disposition Some by (auto simp: on_db_def split: prod.splits)
      then show ?thesis using resolve_private[OF assms(1) u] by simp
    qed
  qed (use run refl in \<open>auto simp: reading_def split: prod.splits\<close>)
qed

lemma call_service_clients: "call_service env ctx t rq st = (r, st') \<Longrightarrow> as_clients st' = as_clients st \<and> as_limiter st' = as_limiter st"
  by (cases rq) (auto simp: call_service_unfold Let_def on_db_def reading_def split: prod.splits option.splits)

lemma admit_clients:
  assumes "admit env rq header st = (r, st')" "clients_ok (ae_idp env) (as_clients st)"
  shows "clients_ok (ae_idp env) (as_clients st')"
proof -
  obtain q cs w where g: "get_principal (ae_idp env) (ae_jwt env) (ae_settings env) header (as_clients st) (as_world st) = (q, cs, w)"
    by (metis prod_cases3)
  have "as_clients st' = as_clients st \<or> as_clients st' = cs" using assms(1)
    by (auto simp: admit_def principal_dependency_def budget_dependency_def g split: option.splits sum.splits prod.splits)
  then show ?thesis using get_principal_spec(1)[OF g assms(2)] assms(2) by auto
qed

text \<open>A budget is charged only for an admitted principal of a limited route.\<close>

lemma admit_budget:
  assumes "admit env rq header st = (r, st')" "clients_ok (ae_idp env) (as_clients st)" "as_limiter st' \<noteq> as_limiter st"
  shows "\<exists>k p h. limited rq = Some k \<and> header = Some h \<and> pr_role p = Admin
    \<and> vouched (ae_idp env) (ae_jwt env) (ae_settings env) (strip (snd (partition_space h))) p"
proof -
  obtain q cs w where g: "get_principal (ae_idp env) (ae_jwt env) (ae_settings env) header (as_clients st) (as_world st) = (q, cs, w)"
    by (metis prod_cases3)
  obtain p k roles where q: "q = Inr p" "limited rq = Some k" "admitted rq = Some roles" "pr_role p \<in> set roles"
    using assms(1,3)
    by (auto simp: admit_def principal_dependency_def budget_dependency_def g require_role_def
        split: option.splits sum.splits prod.splits if_splits)
  have "roles = [Admin]" using q(2,3) by (auto simp: limited_def admitted_def split: api_request.splits)
  then show ?thesis using get_principal_spec(3)[OF g assms(2)] q by auto
qed

subsection \<open>Lemmas: the response bodies\<close>

text \<open>What a body shows of the database belongs to tenant \<open>t\<close>.\<close>

definition body_private :: "db \<Rightarrow> uuid \<Rightarrow> body \<Rightarrow> bool" where
  "body_private d t b \<longleftrightarrow> (case b of
     B_Document r \<Rightarrow> dv_tenant r = t
   | B_Documents rs n _ _ \<Rightarrow> list_all (\<lambda>r. dv_tenant r = t) rs \<and> n = length (filter (\<lambda>r. doc_tenant r = t) (documents d))
   | B_File path mime name \<Rightarrow> (\<exists>r \<in> set (documents d). doc_tenant r = t \<and> mime = doc_mime r \<and> name = doc_filename r)
   | B_Job j \<Rightarrow> jv_tenant j = t
   | B_Jobs js \<Rightarrow> list_all (\<lambda>j. jv_tenant j = t) js
   | B_Hits hits \<Rightarrow> list_all (hit_ok d t None) hits
   | B_Review r \<Rightarrow> ri_tenant r = t
   | B_Reviews rs \<Rightarrow> list_all (\<lambda>r. ri_tenant r = t) rs
   | B_Audit es \<Rightarrow> list_all (\<lambda>e. au_tenant e = t) es
   | B_Spend s \<Rightarrow> (\<exists>g. s = spend t g (d\<lparr>usage_log := filter (\<lambda>u. ur_tenant u = t) (usage_log d)\<rparr>))
   | _ \<Rightarrow> True)"

lemma find_job_tenant: "find_job t i js = Some j \<Longrightarrow> job_tenant j = t"
  by (auto simp: find_job_def dest: find_Some_mem)

lemma read_job_simps: "jv_tenant (read_doc_job j) = job_tenant j" "jv_tenant (read_report_job k) = job_tenant k"
  "dv_tenant (read_document r) = doc_tenant r"
  by (simp_all add: read_doc_job_def read_report_job_def read_document_def)

lemma spend_own: "spend t g (d\<lparr>usage_log := filter (\<lambda>u. ur_tenant u = t) (usage_log d)\<rparr>) = spend t g d"
  by (simp add: spend_def spend_by_job_def spend_by_job_type_def spend_total_def tenant_usage_def select_where_def)

lemma enqueue_results:
  "enqueue_ingestion ctx t i d = (Inr j, d') \<Longrightarrow> job_tenant j = t"
  "enqueue_extraction ctx t i d = (Inr j, d') \<Longrightarrow> job_tenant j = t"
  "enqueue_change_report ctx t b a d = (Inr k, d') \<Longrightarrow> job_tenant k = t"
  by (auto simp: enqueue_ingestion_def enqueue_extraction_def enqueue_change_report_def create_ingestion_job_def
      create_extraction_job_def create_report_job_def new_doc_job_def new_report_job_def Let_def
      split: option.splits prod.splits if_splits)

lemma resolve_result: "resolve_review_item ctx (\<lambda>d. d) t i s c d = (Inr r, d') \<Longrightarrow> ri_tenant r = t"
  by (auto simp: resolve_review_item_def resolve_row_def get_review_item_def find_review_item_def Let_def
      split: sum.splits option.splits prod.splits if_splits dest!: find_Some_mem)

lemma upload_result:
  assumes "upload_document lib ctx mx (\<lambda>d. d) t f ct reads p (fs, d) = (Inr r, fs', d')"
  shows "doc_tenant r = t"
proof -
  obtain n m h d1 where "create_document t n m h p d = Inr (r, d1)" by (rule upload_document_Inr[OF assms]) blast
  then show ?thesis unfolding create_document_def Let_def by (auto split: if_splits)
qed

lemma list_tenants:
  "r \<in> set (list_page t limit offset d) \<Longrightarrow> doc_tenant r = t"
  "x \<in> set (list_review_rows t s d) \<Longrightarrow> ri_tenant x = t"
  "e \<in> set (list_audit t action limit d) \<Longrightarrow> au_tenant e = t"
  "j \<in> set (list_for_base_document t b js) \<Longrightarrow> job_tenant j = t"
  by (auto simp: list_page_def list_review_rows_def list_audit_def list_for_base_document_def order_by_def select_where_def
      dest!: in_set_takeD in_set_dropD)

lemma reading_Inr: "reading st r f = (Inr b, st') \<Longrightarrow> \<exists>x. r = Inr x \<and> b = f x"
  by (cases r) (auto simp: reading_def)

lemma on_db_Inr: "on_db st res f = (Inr b, st') \<Longrightarrow> \<exists>x d'. res = (Inr x, d') \<and> b = f x"
  by (cases "fst res") (auto simp: on_db_def split: prod.splits)

lemma body_private_simps:
  "body_private d t (B_Document (read_document r)) \<longleftrightarrow> doc_tenant r = t"
  "body_private d t (B_Documents (map read_document rs) n i j) \<longleftrightarrow>
     list_all (\<lambda>r. doc_tenant r = t) rs \<and> n = length (filter (\<lambda>r. doc_tenant r = t) (documents d))"
  "body_private d t (B_File path mime name) \<longleftrightarrow> (\<exists>r \<in> set (documents d). doc_tenant r = t \<and> mime = doc_mime r \<and> name = doc_filename r)"
  "body_private d t (B_Job (read_doc_job j1)) \<longleftrightarrow> job_tenant j1 = t"
  "body_private d t (B_Job (read_report_job j2)) \<longleftrightarrow> job_tenant j2 = t"
  "body_private d t (B_Jobs (map read_report_job js)) \<longleftrightarrow> list_all (\<lambda>j. job_tenant j = t) js"
  "body_private d t (B_Hits hits) \<longleftrightarrow> list_all (hit_ok d t None) hits"
  "body_private d t (B_Review i1) \<longleftrightarrow> ri_tenant i1 = t"
  "body_private d t (B_Reviews is) \<longleftrightarrow> list_all (\<lambda>r. ri_tenant r = t) is"
  "body_private d t (B_Audit es) \<longleftrightarrow> list_all (\<lambda>e. au_tenant e = t) es"
  "body_private d t (B_Spend (spend t g d))"
  "body_private d t B_Empty" "body_private d t B_Health" "body_private d t B_Invalid"
  by (simp_all add: body_private_def read_job_simps list_all_iff) (metis spend_own)

text \<open>What the reading services return is the caller's own.\<close>

lemma read_results:
  "get_document t i d = Inr r \<Longrightarrow> r \<in> set (documents d) \<and> doc_tenant r = t"
  "resolve_document_file dir t i (fs, d) = Inr (r, path) \<Longrightarrow> r \<in> set (documents d) \<and> doc_tenant r = t"
  "get_ingestion_job t i d = Inr j \<Longrightarrow> job_tenant j = t"
  "get_extraction_job t i d = Inr j \<Longrightarrow> job_tenant j = t"
  "get_change_report_job t i d = Inr k \<Longrightarrow> job_tenant k = t"
  "list_change_report_jobs t i d = Inr ks \<Longrightarrow> list_all (\<lambda>j. job_tenant j = t) ks"
  "get_review_item t i d = Inr x \<Longrightarrow> ri_tenant x = t"
  by (auto simp: get_document_def resolve_document_file_def get_ingestion_job_def get_extraction_job_def
      get_change_report_job_def list_change_report_jobs_def get_review_item_def find_review_item_def list_all_iff
      split: option.splits if_splits sum.splits dest: find_job_tenant find_Some_mem find_document_Some list_tenants)

lemma reading_private:
  "reading st r f = (Inr b, st') \<Longrightarrow> (\<And>x. r = Inr x \<Longrightarrow> body_private d t (f x)) \<Longrightarrow> body_private d t b"
  by (auto dest!: reading_Inr)

lemma on_db_private:
  "on_db st res f = (Inr b, st') \<Longrightarrow> (\<And>x d'. res = (Inr x, d') \<Longrightarrow> body_private d t (f x)) \<Longrightarrow> body_private d t b"
  by (auto dest!: on_db_Inr)

lemma search_body:
  assumes "service_ok d" "orders_rows en" "search ctx sdk en t q l w d = (r, w', d')" "map_sum id B_Hits r = Inr b"
  shows "body_private d t b"
proof -
  obtain hits where x: "r = Inr hits" "b = B_Hits hits" using assms(4) by (cases r) auto
  then show ?thesis using hybrid_hits_ok(1)[OF assms(2) logs_sink assms(1) assms(3)[unfolded x search_def]] by (simp add: body_private_simps)
qed

lemma call_service_body:
  assumes "shared_ok (as_db st)" "orders_rows (ae_engines env)" "call_service env ctx t rq st = (Inr b, st')"
  shows "body_private (as_db st) t b"
proof -
  let ?d = "as_db st"
  note run = assms(3)[unfolded call_service_unfold Let_def]
  note simps = body_private_simps read_results enqueue_results resolve_result
  show ?thesis
  proof (cases rq)
    case Get_Healthz
    then show ?thesis using run by (auto simp: simps)
  next
    case (Post_Documents f c rs p)
    then show ?thesis using run by (auto simp: simps map_sum_Inr split: prod.splits dest!: upload_result)
  next
    case (Get_Documents l k)
    then show ?thesis using run
      by (auto simp: simps list_documents_def count_for_tenant_def select_where_def list_all_iff dest: list_tenants)
  next
    case (Get_Document i)
    then show ?thesis using run by (auto simp: simps elim!: reading_private)
  next
    case (Get_Document_Content i)
    then show ?thesis using run by (auto simp: body_private_simps dest!: read_results(2) elim!: reading_private)
  next
    case (Delete_Document i)
    then show ?thesis using run by (auto simp: simps map_sum_Inr split: prod.splits)
  next
    case (Post_Document_Ingestion i)
    then show ?thesis using run by (auto simp: simps elim!: on_db_private)
  next
    case (Get_Ingestion_Job i)
    then show ?thesis using run by (auto simp: simps elim!: reading_private)
  next
    case (Post_Document_Extraction i)
    then show ?thesis using run by (auto simp: simps elim!: on_db_private)
  next
    case (Get_Extraction_Job i)
    then show ?thesis using run by (auto simp: simps elim!: reading_private)
  next
    case (Get_Search q l)
    have "service_ok ?d" using assms(1) by (simp add: shared_ok_def)
    then show ?thesis using run Get_Search search_body[OF _ assms(2)] by (auto split: prod.splits)
  next
    case (Post_Change_Report bd ad)
    then show ?thesis using run by (auto simp: simps elim!: on_db_private)
  next
    case (Get_Change_Report_Jobs i)
    then show ?thesis using run by (auto simp: simps elim!: reading_private)
  next
    case (Get_Change_Report_Job i)
    then show ?thesis using run by (auto simp: simps elim!: reading_private)
  next
    case (Get_Review_Items q)
    then show ?thesis using run by (auto simp: simps list_review_items_def list_all_iff dest: list_tenants)
  next
    case (Get_Review_Item i)
    then show ?thesis using run by (auto simp: simps elim!: reading_private)
  next
    case (Post_Disposition i ds c)
    then show ?thesis using run by (auto simp: simps split: option.splits elim!: on_db_private)
  next
    case (Get_Audit_Log a l)
    then show ?thesis using run by (auto simp: simps list_audit_entries_def list_all_iff dest: list_tenants)
  next
    case (Get_Usage_Spend g)
    then show ?thesis using run by (simp only: api_request.case prod.inject sum.inject) (auto simp: simps)
  qed
qed

subsection \<open>Requests in a row\<close>

datatype request = Request string "string option" "string option" api_request

fun serve_request :: "('k, 'i, 'l, 'w) api_env \<Rightarrow> request \<Rightarrow> ('k, 'i, 'l, 'w) api_state \<Rightarrow> ('k, 'i, 'l, 'w) api_state" where
  "serve_request env (Request fresh raw_id header rq) st = snd (serve env fresh raw_id header rq st)"

fun acting_tenant :: "('k, 'i, 'l, 'w) api_env \<Rightarrow> request \<Rightarrow> ('k, 'i, 'l, 'w) api_state \<Rightarrow> uuid option" where
  "acting_tenant env (Request fresh raw_id header rq) st =
     (case admit env rq header st of (Inr (Some p), st') \<Rightarrow> Some (pr_tenant p) | _ \<Rightarrow> None)"

definition api_ok :: "('k, 'i, 'l, 'w) api_env \<Rightarrow> ('k, 'i, 'l, 'w) api_state \<Rightarrow> bool" where
  "api_ok env st \<longleftrightarrow> shared_ok (as_db st) \<and> clients_ok (ae_idp env) (as_clients st)"

text \<open>The ways a request can go.\<close>

lemma route_cases:
  assumes "route env rq header rid st = (r, st')"
  obtains (Refused) e where "admit env rq header st = (Inl e, st')" "r = error_response e"
  | (Invalid) p where "admit env rq header st = (Inr p, st')" "r = Some (ok_response 422 B_Invalid)"
  | (Health) "admit env rq header st = (Inr None, st')"
      "r = Some (ok_response 200 B_Health) \<or> r = Some (ok_response 503 (B_Detail (JObj [(''detail'', JStr ''database unavailable'')])))"
  | (Failed) p st1 e where "admit env rq header st = (Inr (Some p), st1)" "r = error_response e"
      "call_service env \<lparr>current_request_id = rid, current_actor = Some (pr_subject p)\<rparr> (pr_tenant p) rq st1 = (Inl e, st')"
  | (Served) p st1 b where "admit env rq header st = (Inr (Some p), st1)" "r = Some (ok_response (success_status rq) b)"
      "call_service env \<lparr>current_request_id = rid, current_actor = Some (pr_subject p)\<rparr> (pr_tenant p) rq st1 = (Inr b, st')"
proof -
  obtain q st1 where a: "admit env rq header st = (q, st1)" by fastforce
  note run = assms[unfolded route_def a prod.case]
  show thesis
  proof (cases q)
    case (Inl e)
    then show thesis using run a Refused by simp
  next
    case (Inr p)
    note run = run[unfolded Inr sum.case]
    show thesis
    proof (cases "valid_request rq")
      case False
      then show thesis using run a Inr Invalid by simp
    next
      case True
      note run = run[unfolded if_not_P[OF not_not[THEN iffD2, OF True]]]
      show thesis
      proof (cases p)
        case None
        then show thesis using run a Inr Health by (cases "ae_database_up env") (simp_all add: healthz_def)
      next
        case (Some pr)
        obtain x st2 where c: "call_service env \<lparr>current_request_id = rid, current_actor = Some (pr_subject pr)\<rparr> (pr_tenant pr) rq st1 = (x, st2)"
          by fastforce
        note run = run[unfolded Some option.case c prod.case] and a' = a[unfolded Inr Some]
        show thesis
        proof (cases x)
          case (Inl e)
          then show thesis using run by (intro Failed[OF a' _ c[unfolded Inl, THEN trans]]) simp_all
        next
          case (Inr b)
          then show thesis using run by (intro Served[OF a' _ c[unfolded Inr, THEN trans]]) simp_all
        qed
      qed
    qed
  qed
qed

lemma serve_route:
  assumes "serve env fresh raw_id header rq st = (resp, st')"
  shows "\<exists>r. route env rq header (sanitize_request_id fresh (case raw_id of None \<Rightarrow> [] | Some i \<Rightarrow> i)) st = (r, st')
    \<and> resp = (case r of None \<Rightarrow> \<lparr>rs_status = 500, rs_content = B_Server_Error, rs_headers = []\<rparr>
        | Some x \<Rightarrow> x\<lparr>rs_headers := rs_headers x @ [(''x-request-id'', sanitize_request_id fresh (case raw_id of None \<Rightarrow> [] | Some i \<Rightarrow> i))]\<rparr>)"
  using assms by (simp add: serve_def Let_def split: prod.splits option.splits)

lemma serve_admitted:
  assumes "admit env rq header st = (Inr (Some p), st1)" "valid_request rq"
  shows "snd (serve env fresh raw_id header rq st) = snd (call_service env
    \<lparr>current_request_id = sanitize_request_id fresh (case raw_id of None \<Rightarrow> [] | Some i \<Rightarrow> i), current_actor = Some (pr_subject p)\<rparr>
    (pr_tenant p) rq st1)"
  using assms by (simp add: serve_def Let_def route_def split: prod.splits sum.splits option.splits)

lemma route_step:
  assumes "clients_ok (ae_idp env) (as_clients st)" "route env rq header rid st = (r, st')"
  shows "(as_db st' = as_db st \<and> as_files st' = as_files st \<and> clients_ok (ae_idp env) (as_clients st'))
    \<or> (\<exists>p st1 ctx x. admit env rq header st = (Inr (Some p), st1) \<and> call_service env ctx (pr_tenant p) rq st1 = (x, st'))"
  using assms(2)
proof (cases rule: route_cases)
  case (Refused e)
  then show ?thesis using admit_frame admit_clients[OF _ assms(1)] by blast
next
  case (Invalid p)
  then show ?thesis using admit_frame admit_clients[OF _ assms(1)] by blast
next
  case Health
  then show ?thesis using admit_frame admit_clients[OF _ assms(1)] by blast
qed blast+

lemma route_keeps:
  assumes "api_ok env st" "route env rq header rid st = (r, st')"
  shows "api_ok env st'"
    and "(\<And>p st1. admit env rq header st = (Inr (Some p), st1) \<Longrightarrow> pr_tenant p \<noteq> u) \<Longrightarrow>
      tenant_rows u (as_db st') = tenant_rows u (as_db st)"
proof -
  have ok: "shared_ok (as_db st)" "clients_ok (ae_idp env) (as_clients st)" using assms(1) by (simp_all add: api_ok_def)
  have step: "shared_ok (as_db st') \<and> clients_ok (ae_idp env) (as_clients st')
      \<and> (\<forall>v. v \<noteq> pr_tenant p \<longrightarrow> tenant_rows v (as_db st') = tenant_rows v (as_db st))"
    if a: "admit env rq header st = (Inr (Some p), st1)" and c: "call_service env ctx (pr_tenant p) rq st1 = (x, st')" for p st1 ctx x
  proof -
    have "shared_ok (as_db st1)" using admit_frame[OF a] ok(1) by simp
    note pr = call_service_private[OF this c]
    show ?thesis using pr call_service_clients[OF c] admit_clients[OF a ok(2)] admit_frame[OF a] by (simp add: private_step_def)
  qed
  show "api_ok env st'" using route_step[OF ok(2) assms(2)] step ok(1) unfolding api_ok_def by metis
  show "tenant_rows u (as_db st') = tenant_rows u (as_db st)"
    if "\<And>p st1. admit env rq header st = (Inr (Some p), st1) \<Longrightarrow> pr_tenant p \<noteq> u"
    using route_step[OF ok(2) assms(2)] step that by metis
qed

interpretation tenants: multi_tenant "api_ok env" "\<lambda>u st. tenant_rows u (as_db st)" "acting_tenant env" "serve_request env"
  for env :: "('k, 'i, 'l, 'w) api_env"
proof unfold_locales
  fix st :: "('k, 'i, 'l, 'w) api_state" and a :: request and u :: uuid
  obtain fresh raw_id header rq where a: "a = Request fresh raw_id header rq" by (cases a)
  obtain resp st' where s: "serve env fresh raw_id header rq st = (resp, st')" by fastforce
  obtain r where r: "route env rq header (sanitize_request_id fresh (case raw_id of None \<Rightarrow> [] | Some i \<Rightarrow> i)) st = (r, st')"
    using serve_route[OF s] by blast
  assume ok: "api_ok env st"
  show "api_ok env (serve_request env a st)" using route_keeps(1)[OF ok r] by (simp add: a s)
  assume u: "acting_tenant env a st \<noteq> Some u"
  have "tenant_rows u (as_db st') = tenant_rows u (as_db st)"
    by (rule route_keeps(2)[OF ok r]) (use u in \<open>simp add: a\<close>)
  then show "tenant_rows u (as_db (serve_request env a st)) = tenant_rows u (as_db st)" by (simp add: a s)
qed

lemma call_service_files:
  assumes "call_service env ctx t rq st = (r, st')" "u \<noteq> t"
  shows "as_files st' (u, h) = as_files st (u, h)"
proof (cases rq)
  case (Post_Documents f c rs p)
  obtain x fs' d' where e: "upload_document (ae_libs env) ctx (max_upload_bytes (ae_settings env)) (\<lambda>d. d) t f c rs p (as_files st, as_db st) = (x, fs', d')"
    by (metis prod_cases3)
  then have "fs' (u, h) = as_files st (u, h)" using assms(2)
    by (simp add: upload_document_def Let_def save_document_def split: if_splits sum.splits option.splits prod.splits) auto
  then show ?thesis using assms(1) Post_Documents e by (auto simp: call_service_unfold Let_def)
next
  case (Delete_Document i)
  obtain x fs' d' where e: "delete_document ctx (\<lambda>d. d) t i (as_files st, as_db st) = (x, fs', d')" by (metis prod_cases3)
  then have "fs' (u, h) = as_files st (u, h)" using assms(2)
    by (auto simp: delete_document_def Let_def delete_stored_def split: if_splits sum.splits)
  then show ?thesis using assms(1) Delete_Document e by (auto simp: call_service_unfold Let_def)
qed (use assms in \<open>auto simp: call_service_unfold Let_def on_db_def reading_def split: prod.splits option.splits\<close>)

subsection \<open>Lemmas: statuses\<close>

text \<open>The statuses of the exceptions of a route's service.\<close>

definition service_statuses :: "api_request \<Rightarrow> nat set" where
  "service_statuses rq = (case rq of
     Get_Healthz \<Rightarrow> {503} | Post_Documents _ _ _ _ \<Rightarrow> {404, 409, 413, 415} | Get_Documents _ _ \<Rightarrow> {}
   | Get_Document _ \<Rightarrow> {404} | Get_Document_Content _ \<Rightarrow> {404} | Delete_Document _ \<Rightarrow> {404, 409}
   | Post_Document_Ingestion _ \<Rightarrow> {404, 409} | Get_Ingestion_Job _ \<Rightarrow> {404}
   | Post_Document_Extraction _ \<Rightarrow> {404, 409, 429} | Get_Extraction_Job _ \<Rightarrow> {404}
   | Get_Search _ _ \<Rightarrow> {502, 503} | Post_Change_Report _ _ \<Rightarrow> {404, 409, 429} | Get_Change_Report_Jobs _ \<Rightarrow> {404}
   | Get_Change_Report_Job _ \<Rightarrow> {404} | Get_Review_Items _ \<Rightarrow> {} | Get_Review_Item _ \<Rightarrow> {404}
   | Post_Disposition _ _ _ \<Rightarrow> {404, 409} | Get_Audit_Log _ _ \<Rightarrow> {} | Get_Usage_Spend _ \<Rightarrow> {})"

definition status_of :: "exn \<Rightarrow> nat option" where
  "status_of e = map_option rs_status (http_response e)"

lemma status_of_simps:
  "status_of (Mime_Not_Allowed a b) = Some 415" "status_of (Upload_Too_Large n) = Some 413"
  "status_of (Document_Already_Exists x) = Some 409" "status_of (Document_Not_Found i) = Some 404"
  "status_of (Document_Has_Amendments i) = Some 409" "status_of (Ingestion_Job_Not_Found i) = Some 404"
  "status_of (Ingestion_Job_Conflict i) = Some 409" "status_of (Extraction_Job_Not_Found i) = Some 404"
  "status_of (Extraction_Job_Conflict i) = Some 409" "status_of (Document_Not_Parsed x) = Some 409"
  "status_of (Change_Report_Job_Not_Found i) = Some 404" "status_of (Amendment_Mismatch i j) = Some 409"
  "status_of (Prerequisite_Missing i k x) = Some 409" "status_of (Review_Item_Not_Found i) = Some 404"
  "status_of (Review_Item_Already_Resolved i) = Some 409" "status_of Data_Error = None" "status_of Integrity_Error = None"
  "status_of Stale_Data = None" "status_of (Key_Error m) = None" "status_of (Index_Error m) = None"
  by (simp_all add: status_of_def http_response_def detail_response_def split: option.splits)

lemma read_upload_error: "read_upload n seen parts cs = Inl e \<Longrightarrow> e = Upload_Too_Large n"
  by (induction n seen parts cs rule: read_upload.induct) (auto split: if_splits)

lemma upload_status:
  assumes "upload_document lib ctx mx (\<lambda>d. d) t f ct reads p (fs, d) = (Inl e, s')"
  shows "status_of e \<in> {None, Some 404, Some 409, Some 413, Some 415}"
proof (cases "upload_valid lib mx t ct reads p d")
  case (Inl e')
  then have "e = e'" using upload_document_invalid assms by simp
  then show ?thesis using Inl
    by (auto simp: upload_valid_def status_of_simps split: if_splits sum.splits option.splits dest!: read_upload_error)
next
  case (Inr c)
  have "e = Data_Error \<or> (\<exists>x. e = Document_Already_Exists x)" using assms Inr
    by (auto simp: upload_valid_def upload_document_def Let_def create_document_def split: if_splits sum.splits option.splits)
  then show ?thesis by (auto simp: status_of_simps)
qed

lemma delete_status:
  assumes "delete_document ctx (\<lambda>d. d) t i (fs, d) = (Inl e, s')"
  shows "status_of e \<in> {None, Some 404, Some 409}"
  using assms
  by (auto simp: delete_document_def get_document_def delete_document_row_def Let_def status_of_simps
      split: if_splits sum.splits option.splits prod.splits)

lemma enqueue_status:
  "enqueue_ingestion ctx t i d = (Inl e, d') \<Longrightarrow> status_of e \<in> {Some 404, Some 409}"
  "enqueue_extraction ctx t i d = (Inl e, d') \<Longrightarrow> status_of e \<in> {Some 404, Some 409}"
  "enqueue_change_report ctx t b a d = (Inl e, d') \<Longrightarrow> status_of e \<in> {Some 404, Some 409}"
  "resolve_review_item ctx (\<lambda>d. d) t i st c d = (Inl e, d') \<Longrightarrow> status_of e \<in> {None, Some 404, Some 409}"
  by (auto simp: enqueue_ingestion_def enqueue_extraction_def enqueue_change_report_def missing_prerequisite_def
      resolve_review_item_def get_review_item_def status_of_simps split: option.splits prod.splits if_splits sum.splits)

lemma search_status:
  assumes "search ctx llm en t q n w d = (Inl e, w', d')"
  shows "status_of e \<in> {None, Some 502, Some 503}"
proof -
  have "client_error e \<or> is_value_error e \<or> e = Data_Error" using hybrid_hits_cases assms unfolding search_def by fastforce
  then show ?thesis
    by (cases e) (auto simp: client_error_def is_llm_error_def is_value_error_def list_index_error_def status_of_def
        http_response_def detail_response_def)
qed

lemma read_status:
  "get_document t i d = Inl e \<Longrightarrow> status_of e = Some 404"
  "resolve_document_file dir t i (fs, d) = Inl e \<Longrightarrow> status_of e = Some 404"
  "get_ingestion_job t i d = Inl e \<Longrightarrow> status_of e = Some 404"
  "get_extraction_job t i d = Inl e \<Longrightarrow> status_of e = Some 404"
  "get_change_report_job t i d = Inl e \<Longrightarrow> status_of e = Some 404"
  "list_change_report_jobs t i d = Inl e \<Longrightarrow> status_of e = Some 404"
  "get_review_item t i d = Inl e \<Longrightarrow> status_of e = Some 404"
  by (auto simp: get_document_def resolve_document_file_def get_ingestion_job_def get_extraction_job_def
      get_change_report_job_def list_change_report_jobs_def get_review_item_def status_of_simps split: option.splits if_splits sum.splits)

lemma reading_Inl: "reading st r f = (Inl e, st') \<Longrightarrow> r = Inl e"
  by (cases r) (auto simp: reading_def)

lemma on_db_Inl: "on_db st res f = (Inl e, st') \<Longrightarrow> \<exists>d'. res = (Inl e, d')"
  by (cases "fst res") (auto simp: on_db_def split: prod.splits)

lemma call_service_status:
  assumes "call_service env ctx t rq st = (Inl e, st')"
  shows "status_of e \<in> insert None (Some ` service_statuses rq)"
proof -
  note run = assms[unfolded call_service_unfold Let_def]
  show ?thesis
  proof (cases rq)
    case (Post_Documents f c rs p)
    obtain s' where "upload_document (ae_libs env) ctx (max_upload_bytes (ae_settings env)) (\<lambda>d. d) t f c rs p (as_files st, as_db st) = (Inl e, s')"
      using run Post_Documents by (auto split: prod.splits dest: map_sum_Inl[THEN iffD1])
    then show ?thesis using upload_status Post_Documents by (fastforce simp: service_statuses_def)
  next
    case (Delete_Document i)
    obtain s' where "delete_document ctx (\<lambda>d. d) t i (as_files st, as_db st) = (Inl e, s')"
      using run Delete_Document by (auto split: prod.splits dest: map_sum_Inl[THEN iffD1])
    then show ?thesis using delete_status Delete_Document by (fastforce simp: service_statuses_def)
  next
    case (Get_Search q n)
    obtain w' d' where "search ctx (ae_sdk env) (ae_engines env) t q (nat n) (as_world st) (as_db st) = (Inl e, w', d')"
      using run Get_Search by (auto split: prod.splits dest: map_sum_Inl[THEN iffD1])
    then show ?thesis using search_status Get_Search by (fastforce simp: service_statuses_def)
  next
    case (Post_Disposition i ds c)
    then obtain s c' d' where "resolve_review_item ctx (\<lambda>d. d) t i s c' (as_db st) = (Inl e, d')"
      using run by (auto split: option.splits prod.splits dest!: on_db_Inl)
    then show ?thesis using enqueue_status(4) Post_Disposition by (fastforce simp: service_statuses_def)
  qed (use run in \<open>auto simp: service_statuses_def split: prod.splits
    dest!: reading_Inl on_db_Inl enqueue_status(1-3) read_status\<close>)
qed

lemma admit_limit:
  assumes "admit env rq header st = (Inl (Rate_Limit_Exceeded n), st')" "clients_ok (ae_idp env) (as_clients st)"
  shows "limited rq \<noteq> None"
proof
  assume none: "limited rq = None"
  obtain q cs w where g: "get_principal (ae_idp env) (ae_jwt env) (ae_settings env) header (as_clients st) (as_world st) = (q, cs, w)"
    by (metis prod_cases3)
  have "llm_dependency env rq \<noteq> Inl (Rate_Limit_Exceeded n)"
    by (auto simp: llm_dependency_def make_client_def split: api_request.splits sum.splits if_splits)
  then have "q = Inl (Rate_Limit_Exceeded n)" using assms(1) none
    by (auto simp: admit_def principal_dependency_def budget_dependency_def g require_role_def
        split: option.splits sum.splits if_splits)
  then show False using get_principal_spec(2)[OF g assms(2)] by (simp add: auth_error_def)
qed

lemma admit_status:
  assumes "admit env rq header st = (Inl e, st')" "clients_ok (ae_idp env) (as_clients st)"
  shows "status_of e \<in> {None, Some 401, Some 403, Some 502, Some 503} \<union> Some ` service_statuses rq" and "admitted rq \<noteq> None"
proof -
  have "limited rq \<noteq> None \<Longrightarrow> 429 \<in> service_statuses rq"
    by (auto simp: limited_def service_statuses_def split: api_request.splits)
  then show "status_of e \<in> {None, Some 401, Some 403, Some 502, Some 503} \<union> Some ` service_statuses rq"
    using admit_error[OF assms] admit_limit[of env rq header st _ st'] assms
    by (auto simp: gatekeeping_error_def auth_error_def status_of_def http_response_def detail_response_def)
  show "admitted rq \<noteq> None" using assms(1) by (auto simp: admit_def split: option.splits)
qed

lemma error_response_status:
  "error_response e = Some r \<Longrightarrow> status_of e = Some (rs_status r) \<and> (\<exists>x. rs_content r = B_Detail x)"
  by (auto simp: error_response_def status_of_def)

text \<open>A body without rows: a detail names only what the caller named, or its own rows.\<close>

definition no_rows :: "body \<Rightarrow> bool" where
  "no_rows b \<longleftrightarrow> b = B_Invalid \<or> b = B_Server_Error \<or> b = B_Health \<or> (\<exists>x. b = B_Detail x)"

text \<open>
  A name too long for its column, or one with a zero byte, passes every check of an upload: the database refuses the
  row with an exception that has no handler, and the stored bytes stay without a row.
\<close>

lemma refused_filename_leaves_a_file:
  assumes "upload_valid lib mx t ct reads am d = Inr content" "1024 < length n \<or> has_nul n"
  shows "upload_document lib ctx mx (\<lambda>d. d) t (Some n) ct reads am (fs, d)
      = (Inl Data_Error, fs((t, sha256_hex lib content) \<mapsto> content), d)"
    and "http_response Data_Error = None"
proof -
  have "n \<noteq> []" using assms(2) by (auto simp: has_nul_def)
  then show "upload_document lib ctx mx (\<lambda>d. d) t (Some n) ct reads am (fs, d)
      = (Inl Data_Error, fs((t, sha256_hex lib content) \<mapsto> content), d)"
    using assms by (auto simp: upload_valid_def upload_document_def Let_def save_document_def create_document_def
        split: if_splits sum.splits option.splits)
qed (simp add: http_response_def)

subsection \<open>Properties\<close>


text \<open>A deployment in which \<^verbatim>\<open>Bearer admin\<close> is the administrator of tenant 5.\<close>

definition sample_api :: "(nat, nat, (nat \<times> string \<times> string) list, unit) api_env" where
  "sample_api = \<lparr>ae_settings = sample_settings, ae_idp = sample_idp, ae_jwt = sample_jwt, ae_limits = plain_limits,
     ae_libs = text_lib, ae_sdk = vector_llm, ae_engines = plain_engines, ae_database_up = True\<rparr>"

definition sample_state :: "(nat, nat, (nat \<times> string \<times> string) list, unit) api_state" where
  "sample_state = \<lparr>as_db = search_db, as_files = (\<lambda>_. None), as_clients = [], as_limiter = fresh_limiter, as_world = ()\<rparr>"

lemma sample_api_ok: "api_ok sample_api sample_state"
  using search_db_ok
  by (simp add: api_ok_def sample_state_def shared_ok_def clients_ok_def) (simp add: linked_def search_db_def empty_db_def)

lemma sample_admitted:
  "limited rq = None \<Longrightarrow> admitted rq = Some roles \<Longrightarrow> Admin \<in> set roles \<Longrightarrow> llm_dependency sample_api rq = Inr () \<Longrightarrow>
   fst (admit sample_api rq (Some ''Bearer admin'') sample_state) = Inr (Some \<lparr>pr_tenant = 5, pr_role = Admin, pr_subject = ''ann''\<rparr>)"
  using sample_principal
  by (cases "get_principal sample_idp sample_jwt sample_settings (Some ''Bearer admin'') [] ()")
    (simp add: admit_def principal_dependency_def budget_dependency_def sample_api_def sample_state_def require_role_def)

lemma strip_admin: "strip ''admin'' = ''admin''"
  by code_simp

lemma sample_vouched: "vouched sample_idp sample_jwt sample_settings ''admin'' p \<Longrightarrow> pr_tenant p = 5"
  by (auto simp: vouched_def sample_jwt_def claims_principal_def tenant_claim_def role_claim_def opt_truthy_def truthy_def claim_text_def
      uuid_reads_back parse_role_def Let_def split: if_splits)




text \<open>
  C38: A stretch of requests in which none acts for a tenant leaves that tenant's rows as
  they were, whatever the other tenants and anonymous callers ask for, and however the
  requests are ordered.
\<close>

theorem sessions_spare_other_tenants:
  assumes "api_ok env st"
    and "\<And>n. n < length rs \<Longrightarrow> acting_tenant env (rs ! n) (fold (serve_request env) (take n rs) st) \<noteq> Some u"
  shows "tenant_rows u (as_db (fold (serve_request env) rs st)) = tenant_rows u (as_db st)"
  by (rule tenants.session_spares[OF assms])

theorem sessions_spare_other_tenants_witness:
  "tenant_rows 6 (as_db (fold (serve_request sample_api)
     [Request ''f'' None (Some ''Bearer admin'') (Post_Document_Ingestion 2), Request ''g'' None (Some ''Bearer admin'') (Delete_Document 2)]
     sample_state)) = tenant_rows 6 search_db"
proof -
  let ?rs = "[Request ''f'' None (Some ''Bearer admin'') (Post_Document_Ingestion 2), Request ''g'' None (Some ''Bearer admin'') (Delete_Document 2)]"
  have t: "acting_tenant sample_api (Request f None (Some ''Bearer admin'') rq) st \<noteq> Some 6" if ok: "api_ok sample_api st" for f rq st
  proof -
    have cl: "clients_ok (ae_idp sample_api) (as_clients st)" using ok by (simp add: api_ok_def)
    have "pr_tenant p = 5" if a: "admit sample_api rq (Some ''Bearer admin'') st = (Inr (Some p), st')" for p st'
      using admit_principal[OF a cl] sample_vouched by (auto simp: partition_space_def strip_admin sample_api_def)
    then show ?thesis by (auto split: prod.splits sum.splits option.splits)
  qed
  have "acting_tenant sample_api (?rs ! n) (fold (serve_request sample_api) (take n ?rs) sample_state) \<noteq> Some 6"
    if "n < length ?rs" for n
  proof -
    have "\<exists>f rq. ?rs ! n = Request f None (Some ''Bearer admin'') rq" using that by (auto simp: less_Suc_eq)
    then obtain f rq where e: "?rs ! n = Request f None (Some ''Bearer admin'') rq" by blast
    show ?thesis unfolding e by (rule t[OF tenants.session_keeps[OF sample_api_ok]])
  qed
  from sessions_spare_other_tenants[OF sample_api_ok this] show ?thesis by (simp only: sample_state_def api_state.simps)
qed



end
