(* ===== verification/Wire.thy ===== *)
theory Wire
  imports Api
begin

section \<open>Responses on the wire (app/schemas)\<close>

text \<open>
  The JSON of every response: what pydantic makes of the response models, field by field.
  \<open>render\<close> is its rendering of a time stamp. Bodies that are no JSON (an empty one, a file, the
  server's own error page, FastAPI's report of an invalid request) have no such form here.
\<close>

definition document_status_value :: "document_status \<Rightarrow> string" where
  "document_status_value s = (case s of Uploaded \<Rightarrow> ''uploaded'' | Parsed \<Rightarrow> ''parsed'' | Parse_Failed \<Rightarrow> ''failed'')"

definition job_status_value :: "job_state \<Rightarrow> string" where
  "job_status_value s = (case s of Queued \<Rightarrow> ''queued'' | Running \<Rightarrow> ''running'' | Completed \<Rightarrow> ''completed'' | Failed \<Rightarrow> ''failed'')"

definition usage_kind_value :: "usage_kind \<Rightarrow> string" where
  "usage_kind_value k = (case k of Use_Ingestion \<Rightarrow> ''ingestion'' | Use_Extraction \<Rightarrow> ''extraction''
     | Use_Change_Report \<Rightarrow> ''change_report'' | Use_Search \<Rightarrow> ''search'')"

definition document_json :: "document_read \<Rightarrow> json" where
  "document_json v = JObj [(''id'', juuid (dv_id v)), (''tenant_id'', juuid (dv_tenant v)), (''filename'', JStr (dv_filename v)),
     (''mime_type'', JStr (dv_mime v)), (''sha256'', JStr (dv_sha v)), (''amends_document_id'', jopt juuid (dv_amends v)),
     (''status'', JStr (document_status_value (dv_status v)))]"

definition document_page_json :: "document_read list \<Rightarrow> nat \<Rightarrow> int \<Rightarrow> int \<Rightarrow> json" where
  "document_page_json vs n limit offset = JObj [(''items'', JArr (map document_json vs)), (''total'', jnat n),
     (''limit'', jint limit), (''offset'', jint offset)]"

text \<open>One document column for ingestions and extractions, two for change reports.\<close>

definition job_documents_json :: "uuid list \<Rightarrow> (string \<times> json) list" where
  "job_documents_json ds = (case ds of
     [i] \<Rightarrow> [(''document_id'', juuid i)]
   | [b, a] \<Rightarrow> [(''base_document_id'', juuid b), (''amended_document_id'', juuid a)]
   | _ \<Rightarrow> [])"

definition job_json :: "(time \<Rightarrow> string) \<Rightarrow> job_read \<Rightarrow> json" where
  "job_json render v = JObj ([(''id'', juuid (jv_id v)), (''tenant_id'', juuid (jv_tenant v))] @ job_documents_json (jv_documents v)
     @ [(''status'', JStr (job_status_value (jv_status v))), (''result'', jopt id (jv_result v)), (''error'', jopt JStr (jv_error v)),
        (''created_at'', JStr (render (jv_created v))), (''updated_at'', JStr (render (jv_updated v)))])"

definition hit_json :: "search_hit \<Rightarrow> json" where
  "hit_json h = JObj [(''document_id'', juuid (hit_document h)), (''document_sha256'', JStr (hit_sha h)),
     (''filename'', JStr (hit_filename h)), (''chunk_id'', juuid (hit_chunk h)), (''ordinal'', jnat (hit_ordinal h)),
     (''text'', JStr (hit_text h)), (''char_start'', jnat (hit_start h)), (''char_end'', jnat (hit_end h)),
     (''score'', JNum (hit_score h))]"

definition review_json :: "(time \<Rightarrow> string) \<Rightarrow> review_item \<Rightarrow> json" where
  "review_json render r = JObj [(''id'', juuid (ri_id r)), (''tenant_id'', juuid (ri_tenant r)),
     (''source'', JStr (source_value (ri_source r))), (''item_type'', JStr (ri_type r)), (''document_id'', juuid (ri_document r)),
     (''job_id'', juuid (ri_job r)), (''payload'', ri_payload r), (''confidence'', JNum (ri_confidence r)),
     (''status'', JStr (status_value (ri_status r))), (''corrected_values'', jopt id (ri_corrected r)),
     (''resolved_at'', jopt (\<lambda>t. JStr (render t)) (ri_resolved r)), (''created_at'', JStr (render (ri_created r))),
     (''updated_at'', JStr (render (ri_updated r)))]"

definition audit_json :: "(time \<Rightarrow> string) \<Rightarrow> audit_entry \<Rightarrow> json" where
  "audit_json render e = JObj [(''id'', juuid (au_id e)), (''tenant_id'', juuid (au_tenant e)), (''actor'', jopt JStr (au_actor e)),
     (''request_id'', JStr (au_request e)), (''action'', JStr (au_action e)), (''resource_type'', JStr (au_resource_type e)),
     (''resource_id'', jopt juuid (au_resource e)), (''detail'', jopt id (au_detail e)), (''created_at'', JStr (render (au_created e)))]"

definition spend_row_json :: "spend_row \<Rightarrow> json" where
  "spend_row_json r = JObj [(''job_type'', JStr (case sp_kind r of None \<Rightarrow> [] | Some k \<Rightarrow> usage_kind_value k)),
     (''job_id'', jopt juuid (sp_job r)), (''calls'', jnat (sp_calls r)), (''prompt_tokens'', jnat (sp_prompt r)),
     (''completion_tokens'', jnat (sp_completion r)), (''cost_usd'', JNum (sp_cost r)), (''latency_ms'', jnat (sp_latency r))]"

definition spend_json :: "spend_report \<Rightarrow> json" where
  "spend_json s = JObj [(''rows'', JArr (map spend_row_json (sr_rows s))), (''total'', spend_row_json (sr_total s))]"

definition items_json :: "('a \<Rightarrow> json) \<Rightarrow> 'a list \<Rightarrow> json" where
  "items_json f xs = JObj [(''items'', JArr (map f xs))]"

definition search_response_json :: "search_hit list \<Rightarrow> json" where
  "search_response_json hs = items_json hit_json hs"

definition review_items_json :: "(time \<Rightarrow> string) \<Rightarrow> review_item list \<Rightarrow> json" where
  "review_items_json render rs = items_json (review_json render) rs"

definition audit_entries_json :: "(time \<Rightarrow> string) \<Rightarrow> audit_entry list \<Rightarrow> json" where
  "audit_entries_json render es = items_json (audit_json render) es"

definition app_version :: string where
  "app_version = ''0.1.0''"

definition health_json :: json where
  "health_json = JObj [(''status'', JStr ''ok''), (''database'', JBool True), (''version'', JStr app_version)]"

fun body_json :: "(time \<Rightarrow> string) \<Rightarrow> body \<Rightarrow> json option" where
  "body_json render (B_Detail x) = Some x"
| "body_json render B_Health = Some health_json"
| "body_json render (B_Document v) = Some (document_json v)"
| "body_json render (B_Documents vs n limit offset) = Some (document_page_json vs n limit offset)"
| "body_json render (B_Job v) = Some (job_json render v)"
| "body_json render (B_Jobs vs) = Some (JArr (map (job_json render) vs))"
| "body_json render (B_Hits hs) = Some (search_response_json hs)"
| "body_json render (B_Review r) = Some (review_json render r)"
| "body_json render (B_Reviews rs) = Some (review_items_json render rs)"
| "body_json render (B_Audit es) = Some (audit_entries_json render es)"
| "body_json render (B_Spend s) = Some (spend_json s)"
| "body_json render _ = None"

subsection \<open>Lemmas: nothing is lost\<close>

definition wide :: "uuid \<Rightarrow> bool" where
  "wide u \<longleftrightarrow> u < 2 ^ 128"

lemma juuid_inj: "wide u \<Longrightarrow> wide v \<Longrightarrow> juuid u = juuid v \<longleftrightarrow> u = v"
  using uuid_reads_back unfolding wide_def juuid_def by (metis json.inject(3) option.inject)

lemma juuid_no_null [simp]: "juuid u \<noteq> JNull" "JNull \<noteq> juuid u"
  by (simp_all add: juuid_def)

lemma jopt_inj:
  "(\<And>x y. x \<in> set_option a \<Longrightarrow> y \<in> set_option b \<Longrightarrow> f x = f y \<longleftrightarrow> x = y) \<Longrightarrow>
   (\<And>x. x \<in> set_option a \<union> set_option b \<Longrightarrow> f x \<noteq> JNull) \<Longrightarrow> jopt f a = jopt f b \<longleftrightarrow> a = b"
  by (cases a; cases b) (auto simp: jopt_def)

lemma jnat_inj: "jnat m = jnat n \<longleftrightarrow> m = n" and jint_inj: "jint i = jint j \<longleftrightarrow> i = j"
  by (simp_all add: jnat_def jint_def)

lemma document_status_inj: "document_status_value s = document_status_value s' \<longleftrightarrow> s = s'"
  by (cases s; cases s') (simp_all add: document_status_value_def)

lemma job_status_inj: "job_status_value s = job_status_value s' \<longleftrightarrow> s = s'"
  by (cases s; cases s') (simp_all add: job_status_value_def)

lemma review_status_inj: "status_value s = status_value s' \<longleftrightarrow> s = s'"
  by (cases s; cases s') (simp_all add: status_value_def)

lemma source_inj: "source_value s = source_value s' \<longleftrightarrow> s = s'"
  by (cases s; cases s') (simp_all add: source_value_def)

lemma usage_kind_inj: "usage_kind_value s = usage_kind_value s' \<longleftrightarrow> s = s'"
  by (cases s; cases s') (simp_all add: usage_kind_value_def)

lemma usage_kind_nonempty: "usage_kind_value s \<noteq> []"
  by (cases s) (simp_all add: usage_kind_value_def)

lemmas wire_inj = juuid_inj jnat_inj jint_inj document_status_inj job_status_inj review_status_inj source_inj usage_kind_inj

text \<open>
  What the columns hold: identifiers of 128 bits, and objects in the JSONB columns a response
  shows as a dictionary or null.
\<close>

definition is_object :: "json \<Rightarrow> bool" where
  "is_object v \<longleftrightarrow> (case v of JObj _ \<Rightarrow> True | _ \<Rightarrow> False)"

definition document_wide :: "document_read \<Rightarrow> bool" where
  "document_wide v \<longleftrightarrow> wide (dv_id v) \<and> wide (dv_tenant v) \<and> pred_option wide (dv_amends v)"

definition job_wide :: "job_read \<Rightarrow> bool" where
  "job_wide v \<longleftrightarrow> wide (jv_id v) \<and> wide (jv_tenant v) \<and> list_all wide (jv_documents v)
     \<and> length (jv_documents v) \<in> {1, 2} \<and> pred_option is_object (jv_result v)"

definition hit_wide :: "search_hit \<Rightarrow> bool" where
  "hit_wide h \<longleftrightarrow> wide (hit_document h) \<and> wide (hit_chunk h)"

definition review_wide :: "review_item \<Rightarrow> bool" where
  "review_wide r \<longleftrightarrow> wide (ri_id r) \<and> wide (ri_tenant r) \<and> wide (ri_document r) \<and> wide (ri_job r)
     \<and> pred_option is_object (ri_corrected r)"

definition audit_wide :: "audit_entry \<Rightarrow> bool" where
  "audit_wide e \<longleftrightarrow> wide (au_id e) \<and> wide (au_tenant e) \<and> pred_option wide (au_resource e) \<and> pred_option is_object (au_detail e)"

definition spend_wide :: "spend_row \<Rightarrow> bool" where
  "spend_wide r \<longleftrightarrow> pred_option wide (sp_job r)"

lemma jopt_uuid_inj: "pred_option wide a \<Longrightarrow> pred_option wide b \<Longrightarrow> jopt juuid a = jopt juuid b \<longleftrightarrow> a = b"
  by (rule jopt_inj) (auto simp: juuid_inj option.pred_set)

lemma jopt_object_inj: "pred_option is_object a \<Longrightarrow> pred_option is_object b \<Longrightarrow> jopt id a = jopt id b \<longleftrightarrow> a = b"
  by (rule jopt_inj) (auto simp: is_object_def option.pred_set)

lemma jopt_str_inj: "jopt JStr a = jopt JStr b \<longleftrightarrow> a = b"
  by (rule jopt_inj) auto

lemma jopt_time_inj: "inj render \<Longrightarrow> jopt (\<lambda>t. JStr (render t)) a = jopt (\<lambda>t. JStr (render t)) b \<longleftrightarrow> a = b"
  by (rule jopt_inj) (auto simp: inj_eq)

lemmas wire_opt_inj = jopt_uuid_inj jopt_object_inj jopt_str_inj jopt_time_inj

lemma document_json_inj: "document_wide v \<Longrightarrow> document_wide v' \<Longrightarrow> document_json v = document_json v' \<longleftrightarrow> v = v'"
  by (cases v; cases v') (simp add: document_json_def document_wide_def wire_inj wire_opt_inj)

lemma job_documents_inj:
  assumes "list_all wide xs" "list_all wide ys" "length xs \<in> {1, 2}" "length ys \<in> {1, 2}"
    and "job_documents_json xs @ r = job_documents_json ys @ r'" "fst (hd r) = ''status''" "fst (hd r') = ''status''" "r \<noteq> []" "r' \<noteq> []"
  shows "xs = ys \<and> r = r'"
proof -
  have "\<exists>a. xs = [a] \<or> (\<exists>b. xs = [a, b])" "\<exists>a. ys = [a] \<or> (\<exists>b. ys = [a, b])"
    using assms(3,4) by (auto simp: length_Suc_conv numeral_2_eq_2)
  then show ?thesis using assms by (auto simp: job_documents_json_def juuid_inj)
qed

lemma job_json_inj: "inj render \<Longrightarrow> job_wide v \<Longrightarrow> job_wide v' \<Longrightarrow> job_json render v = job_json render v' \<longleftrightarrow> v = v'"
proof
  assume i: "inj render" and w: "job_wide v" "job_wide v'" and e: "job_json render v = job_json render v'"
  let ?r = "\<lambda>v. [(''status'', JStr (job_status_value (jv_status v))), (''result'', jopt id (jv_result v)), (''error'', jopt JStr (jv_error v)),
        (''created_at'', JStr (render (jv_created v))), (''updated_at'', JStr (render (jv_updated v)))]"
  have "job_documents_json (jv_documents v) @ ?r v = job_documents_json (jv_documents v') @ ?r v'"
    using e by (simp add: job_json_def)
  then have "jv_documents v = jv_documents v' \<and> ?r v = ?r v'"
    using job_documents_inj[of "jv_documents v" "jv_documents v'" "?r v" "?r v'"] w by (simp add: job_wide_def)
  moreover have "jv_id v = jv_id v'" "jv_tenant v = jv_tenant v'"
    using e w by (simp_all add: job_json_def job_wide_def wire_inj)
  ultimately show "v = v'" using i w by (cases v; cases v') (simp add: job_wide_def wire_inj wire_opt_inj inj_eq)
qed simp

lemma hit_json_inj: "hit_wide h \<Longrightarrow> hit_wide h' \<Longrightarrow> hit_json h = hit_json h' \<longleftrightarrow> h = h'"
  by (cases h; cases h') (simp add: hit_json_def hit_wide_def wire_inj)

lemma review_json_inj: "inj render \<Longrightarrow> review_wide r \<Longrightarrow> review_wide r' \<Longrightarrow> review_json render r = review_json render r' \<longleftrightarrow> r = r'"
  by (cases r; cases r') (simp add: review_json_def review_wide_def wire_inj wire_opt_inj inj_eq)

lemma audit_json_inj: "inj render \<Longrightarrow> audit_wide e \<Longrightarrow> audit_wide e' \<Longrightarrow> audit_json render e = audit_json render e' \<longleftrightarrow> e = e'"
  by (cases e; cases e') (simp add: audit_json_def audit_wide_def wire_inj wire_opt_inj inj_eq)

lemma spend_row_json_inj: "spend_wide r \<Longrightarrow> spend_wide r' \<Longrightarrow> spend_row_json r = spend_row_json r' \<longleftrightarrow> r = r'"
proof -
  have "(case k of None \<Rightarrow> [] | Some k \<Rightarrow> usage_kind_value k) = (case k' of None \<Rightarrow> [] | Some k \<Rightarrow> usage_kind_value k) \<longleftrightarrow> k = k'" for k k'
    using usage_kind_nonempty by (cases k; cases k') (auto simp: usage_kind_inj dest: sym)
  then show "spend_wide r \<Longrightarrow> spend_wide r' \<Longrightarrow> ?thesis"
    by (cases r; cases r') (simp add: spend_row_json_def spend_wide_def wire_inj wire_opt_inj)
qed

lemma map_json_inj:
  "(\<And>x y. P x \<Longrightarrow> P y \<Longrightarrow> f x = f y \<longleftrightarrow> x = y) \<Longrightarrow> list_all P xs \<Longrightarrow> list_all P ys \<Longrightarrow> map f xs = map f ys \<longleftrightarrow> xs = ys"
proof (induction xs arbitrary: ys)
  case (Cons x xs)
  then show ?case by (cases ys) auto
qed auto

lemmas body_jsons = document_page_json_def search_response_json_def review_items_json_def audit_entries_json_def items_json_def
  spend_json_def

definition body_wide :: "body \<Rightarrow> bool" where
  "body_wide b \<longleftrightarrow> (case b of
     B_Document v \<Rightarrow> document_wide v
   | B_Documents vs _ _ _ \<Rightarrow> list_all document_wide vs
   | B_Job v \<Rightarrow> job_wide v
   | B_Jobs vs \<Rightarrow> list_all job_wide vs
   | B_Hits hs \<Rightarrow> list_all hit_wide hs
   | B_Review r \<Rightarrow> review_wide r
   | B_Reviews rs \<Rightarrow> list_all review_wide rs
   | B_Audit es \<Rightarrow> list_all audit_wide es
   | B_Spend s \<Rightarrow> list_all spend_wide (sr_rows s) \<and> spend_wide (sr_total s)
   | _ \<Rightarrow> True)"

text \<open>The response model of a body.\<close>

definition model_of :: "body \<Rightarrow> string" where
  "model_of b = (case b of B_Detail _ \<Rightarrow> ''detail'' | B_Health \<Rightarrow> ''HealthResponse'' | B_Document _ \<Rightarrow> ''DocumentRead''
     | B_Documents _ _ _ _ \<Rightarrow> ''DocumentListPage'' | B_Job _ \<Rightarrow> ''JobRead'' | B_Jobs _ \<Rightarrow> ''list[JobRead]''
     | B_Hits _ \<Rightarrow> ''SearchResponse'' | B_Review _ \<Rightarrow> ''ReviewItemRead'' | B_Reviews _ \<Rightarrow> ''ReviewItemsResponse''
     | B_Audit _ \<Rightarrow> ''AuditEntriesResponse'' | B_Spend _ \<Rightarrow> ''UsageSpendResponse'' | _ \<Rightarrow> [])"

lemma documents_inj: "list_all document_wide xs \<Longrightarrow> list_all document_wide ys \<Longrightarrow> map document_json xs = map document_json ys \<longleftrightarrow> xs = ys"
  by (rule map_json_inj[of document_wide]) (simp_all add: document_json_inj)

lemma jobs_inj: "inj render \<Longrightarrow> list_all job_wide xs \<Longrightarrow> list_all job_wide ys \<Longrightarrow> map (job_json render) xs = map (job_json render) ys \<longleftrightarrow> xs = ys"
  by (rule map_json_inj[of job_wide]) (simp_all add: job_json_inj)

lemma hits_inj: "list_all hit_wide xs \<Longrightarrow> list_all hit_wide ys \<Longrightarrow> map hit_json xs = map hit_json ys \<longleftrightarrow> xs = ys"
  by (rule map_json_inj[of hit_wide]) (simp_all add: hit_json_inj)

lemma reviews_inj: "inj render \<Longrightarrow> list_all review_wide xs \<Longrightarrow> list_all review_wide ys \<Longrightarrow> map (review_json render) xs = map (review_json render) ys \<longleftrightarrow> xs = ys"
  by (rule map_json_inj[of review_wide]) (simp_all add: review_json_inj)

lemma audits_inj: "inj render \<Longrightarrow> list_all audit_wide xs \<Longrightarrow> list_all audit_wide ys \<Longrightarrow> map (audit_json render) xs = map (audit_json render) ys \<longleftrightarrow> xs = ys"
  by (rule map_json_inj[of audit_wide]) (simp_all add: audit_json_inj)

lemma spend_rows_inj: "list_all spend_wide xs \<Longrightarrow> list_all spend_wide ys \<Longrightarrow> map spend_row_json xs = map spend_row_json ys \<longleftrightarrow> xs = ys"
  by (rule map_json_inj[of spend_wide]) (simp_all add: spend_row_json_inj)

lemmas list_inj = documents_inj jobs_inj hits_inj reviews_inj audits_inj spend_rows_inj

text \<open>
  Nothing is lost on the wire: two responses of one model with the same JSON show the same
  rows, for identifiers of 128 bits and a rendering that tells time stamps apart.
\<close>

theorem wire_loses_nothing:
  assumes "inj render" "body_wide b" "body_wide b'" "model_of b = model_of b'"
    and "body_json render b = Some x" "body_json render b' = Some x"
  shows "b = b'"
proof -
  note eqs = body_wide_def model_of_def body_jsons document_json_inj job_json_inj[OF assms(1)] review_json_inj[OF assms(1)]
    spend_row_json_inj jnat_inj jint_inj list_inj assms(1)
  show ?thesis
  proof (cases b)
    case (B_Documents vs n l o)
    then show ?thesis using assms(2-) by (cases b') (auto simp: eqs)
  next
    case (B_Spend s)
    then show ?thesis using assms(2-) by (cases b'; cases s) (auto simp: eqs)
  qed (use assms(2-) in \<open>cases b'; auto simp: eqs\<close>)+
qed

end
