(* ===== verification/Migrations.thy ===== *)
theory Migrations
  imports Store
begin

section \<open>The database schema (migrations/versions, app/models)\<close>

text \<open>
  The schema as the database catalogue has it, the operations of the migrations with the
  reasons the database refuses them, the nine migrations, and the tables the ORM classes
  declare. \<^verbatim>\<open>upgrade head\<close> and \<^verbatim>\<open>downgrade base\<close> walk the revisions the way Alembic does.
\<close>

subsection \<open>Schemas\<close>

datatype col_type =
    T_Uuid | T_String nat | T_Text | T_Enum string "string list" | T_Jsonb | T_Integer | T_Float | T_Timestamptz
  | T_Vector nat | T_Tsvector

datatype col_default = No_Default | Server_Default string | Generated string

record column =
  col_name :: string
  col_type :: col_type
  col_nullable :: bool
  col_default :: col_default

record foreign_key =
  fk_name :: "string option"
  fk_cols :: "string list"
  fk_target :: string
  fk_refs :: "string list"
  fk_restrict :: bool

record table =
  tab_name :: string
  tab_columns :: "column list"
  tab_key :: "string list"
  tab_uniques :: "(string \<times> string list) list"
  tab_fks :: "foreign_key list"

record index =
  ix_name :: string
  ix_table :: string
  ix_cols :: "string list"
  ix_method :: string
  ix_ops :: "(string \<times> string) list"

record schema =
  extensions :: "string list"
  enum_types :: "(string \<times> string list) list"
  tables :: "table list"
  indexes :: "index list"

definition empty_schema :: schema where
  "empty_schema = \<lparr>extensions = [], enum_types = [], tables = [], indexes = []\<rparr>"

subsection \<open>Operations\<close>

datatype operation =
    Create_Extension string
  | Create_Table table
  | Drop_Table string
  | Create_Index index
  | Drop_Index string string
  | Add_Column string column
  | Drop_Column string string
  | Create_Foreign_Key string foreign_key
  | Drop_Foreign_Key string string
  | Drop_Type string

fun enum_of :: "col_type \<Rightarrow> (string \<times> string list) list" where
  "enum_of (T_Enum n vs) = [(n, vs)]"
| "enum_of _ = []"

definition enums_of :: "column list \<Rightarrow> (string \<times> string list) list" where
  "enums_of cs = concat (map (\<lambda>c. enum_of (col_type c)) cs)"

abbreviation names :: "table \<Rightarrow> string set" where
  "names t \<equiv> set (map col_name (tab_columns t))"

definition relations :: "schema \<Rightarrow> string list" where
  "relations s = map tab_name (tables s) @ map ix_name (indexes s)"

definition known_type :: "schema \<Rightarrow> col_type \<Rightarrow> bool" where
  "known_type s t \<longleftrightarrow> (case t of T_Vector _ \<Rightarrow> ''vector'' \<in> set (extensions s) | _ \<Rightarrow> True)"

text \<open>A foreign key needs its columns, and a target whose key it names.\<close>

definition fk_ok :: "schema \<Rightarrow> string set \<Rightarrow> foreign_key \<Rightarrow> bool" where
  "fk_ok s cols f \<longleftrightarrow> set (fk_cols f) \<subseteq> cols \<and> fk_target f \<in> set (map tab_name (tables s))
     \<and> list_all (\<lambda>t. tab_name t = fk_target f \<longrightarrow> tab_key t = fk_refs f) (tables s)"

definition table_ok :: "schema \<Rightarrow> table \<Rightarrow> bool" where
  "table_ok s t \<longleftrightarrow> distinct (map col_name (tab_columns t)) \<and> set (tab_key t) \<subseteq> names t
     \<and> list_all (\<lambda>u. set (snd u) \<subseteq> names t) (tab_uniques t) \<and> list_all (fk_ok s (names t)) (tab_fks t)
     \<and> list_all (\<lambda>c. known_type s (col_type c)) (tab_columns t)
     \<and> distinct (map fst (enums_of (tab_columns t)))
     \<and> list_all (\<lambda>e. fst e \<notin> set (map fst (enum_types s))) (enums_of (tab_columns t))"

definition on_table :: "string \<Rightarrow> (table \<Rightarrow> table) \<Rightarrow> schema \<Rightarrow> schema" where
  "on_table n f s = s\<lparr>tables := map (\<lambda>t. if tab_name t = n then f t else t) (tables s)\<rparr>"

definition has_table :: "string \<Rightarrow> (table \<Rightarrow> bool) \<Rightarrow> schema \<Rightarrow> bool" where
  "has_table n p s \<longleftrightarrow> n \<in> set (map tab_name (tables s)) \<and> list_all (\<lambda>t. tab_name t = n \<longrightarrow> p t) (tables s)"

text \<open>Dropping a column takes the constraints and indexes of its table along that use it.\<close>

definition without_column :: "string \<Rightarrow> table \<Rightarrow> table" where
  "without_column c t = t\<lparr>tab_columns := filter (\<lambda>x. col_name x \<noteq> c) (tab_columns t),
     tab_key := (if c \<in> set (tab_key t) then [] else tab_key t),
     tab_uniques := filter (\<lambda>u. c \<notin> set (snd u)) (tab_uniques t),
     tab_fks := filter (\<lambda>f. c \<notin> set (fk_cols f)) (tab_fks t)\<rparr>"

definition refers_to :: "string \<Rightarrow> (foreign_key \<Rightarrow> bool) \<Rightarrow> schema \<Rightarrow> bool" where
  "refers_to n p s \<longleftrightarrow> list_ex (\<lambda>t. list_ex (\<lambda>f. fk_target f = n \<and> p f) (tab_fks t)) (tables s)"

text \<open>\<open>None\<close>: the database raises.\<close>

fun apply_op :: "operation \<Rightarrow> schema \<Rightarrow> schema option" where
  "apply_op (Create_Extension e) s = Some (s\<lparr>extensions := (if e \<in> set (extensions s) then extensions s else extensions s @ [e])\<rparr>)"
| "apply_op (Create_Table t) s =
     (if tab_name t \<notin> set (relations s) \<and> table_ok s t
      then Some (s\<lparr>tables := tables s @ [t], enum_types := enum_types s @ enums_of (tab_columns t)\<rparr>) else None)"
| "apply_op (Drop_Table n) s =
     (if n \<in> set (map tab_name (tables s))
        \<and> \<not> list_ex (\<lambda>t. tab_name t \<noteq> n \<and> list_ex (\<lambda>f. fk_target f = n) (tab_fks t)) (tables s)
      then Some (s\<lparr>tables := filter (\<lambda>t. tab_name t \<noteq> n) (tables s), indexes := filter (\<lambda>i. ix_table i \<noteq> n) (indexes s)\<rparr>) else None)"
| "apply_op (Create_Index i) s =
     (if ix_name i \<notin> set (relations s) \<and> has_table (ix_table i) (\<lambda>t. set (ix_cols i) \<subseteq> names t) s
      then Some (s\<lparr>indexes := indexes s @ [i]\<rparr>) else None)"
| "apply_op (Drop_Index n t) s =
     (if n \<in> set (map ix_name (indexes s)) then Some (s\<lparr>indexes := filter (\<lambda>i. ix_name i \<noteq> n) (indexes s)\<rparr>) else None)"
| "apply_op (Add_Column n c) s =
     (if has_table n (\<lambda>t. col_name c \<notin> names t) s \<and> enum_of (col_type c) = [] \<and> known_type s (col_type c)
        \<and> (col_nullable c \<or> col_default c \<noteq> No_Default)
      then Some (on_table n (\<lambda>t. t\<lparr>tab_columns := tab_columns t @ [c]\<rparr>) s) else None)"
| "apply_op (Drop_Column n c) s =
     (if has_table n (\<lambda>t. c \<in> names t) s \<and> \<not> refers_to n (\<lambda>f. c \<in> set (fk_refs f)) s
      then Some ((on_table n (without_column c) s)\<lparr>indexes := filter (\<lambda>i. \<not> (ix_table i = n \<and> c \<in> set (ix_cols i))) (indexes s)\<rparr>)
      else None)"
| "apply_op (Create_Foreign_Key n f) s =
     (if has_table n (\<lambda>t. fk_ok s (names t) f \<and> (fk_name f = None \<or> list_all (\<lambda>g. fk_name g \<noteq> fk_name f) (tab_fks t))) s
      then Some (on_table n (\<lambda>t. t\<lparr>tab_fks := tab_fks t @ [f]\<rparr>) s) else None)"
| "apply_op (Drop_Foreign_Key n k) s =
     (if has_table n (\<lambda>t. list_ex (\<lambda>f. fk_name f = Some k) (tab_fks t)) s
      then Some (on_table n (\<lambda>t. t\<lparr>tab_fks := filter (\<lambda>f. fk_name f \<noteq> Some k) (tab_fks t)\<rparr>) s) else None)"
| "apply_op (Drop_Type n) s =
     (if list_ex (\<lambda>t. list_ex (\<lambda>e. fst e = n) (enums_of (tab_columns t))) (tables s) then None
      else Some (s\<lparr>enum_types := filter (\<lambda>e. fst e \<noteq> n) (enum_types s)\<rparr>))"

fun run_ops :: "operation list \<Rightarrow> schema \<Rightarrow> schema option" where
  "run_ops [] s = Some s"
| "run_ops (x # xs) s = Option.bind (apply_op x s) (run_ops xs)"

record migration =
  revision :: string
  down_revision :: "string option"
  upgrade :: "operation list"
  downgrade :: "operation list"

text \<open>Up from the current revision while one revises it; down while one is current.\<close>

fun upgrade_head :: "nat \<Rightarrow> migration list \<Rightarrow> string option \<times> schema \<Rightarrow> (string option \<times> schema) option" where
  "upgrade_head 0 ms vs = Some vs"
| "upgrade_head (Suc n) ms vs =
     (case List.find (\<lambda>m. down_revision m = fst vs) ms of
        None \<Rightarrow> Some vs
      | Some m \<Rightarrow> Option.bind (run_ops (upgrade m) (snd vs)) (\<lambda>s. upgrade_head n ms (Some (revision m), s)))"

fun downgrade_base :: "nat \<Rightarrow> migration list \<Rightarrow> string option \<times> schema \<Rightarrow> (string option \<times> schema) option" where
  "downgrade_base 0 ms vs = Some vs"
| "downgrade_base (Suc n) ms vs =
     (case List.find (\<lambda>m. Some (revision m) = fst vs) ms of
        None \<Rightarrow> Some vs
      | Some m \<Rightarrow> Option.bind (run_ops (downgrade m) (snd vs)) (\<lambda>s. downgrade_base n ms (down_revision m, s)))"

subsection \<open>The migrations\<close>

definition col :: "string \<Rightarrow> col_type \<Rightarrow> column" where
  "col n t = \<lparr>col_name = n, col_type = t, col_nullable = False, col_default = No_Default\<rparr>"

definition opt_col :: "string \<Rightarrow> col_type \<Rightarrow> column" where
  "opt_col n t = (col n t)\<lparr>col_nullable := True\<rparr>"

definition def_col :: "string \<Rightarrow> col_type \<Rightarrow> string \<Rightarrow> column" where
  "def_col n t d = (col n t)\<lparr>col_default := Server_Default d\<rparr>"

definition stamp :: "string \<Rightarrow> column" where
  "stamp n = def_col n T_Timestamptz ''now()''"

definition references :: "string \<Rightarrow> foreign_key" where
  "references c = \<lparr>fk_name = None, fk_cols = [c], fk_target = ''documents'', fk_refs = [''id''], fk_restrict = False\<rparr>"

definition index_on :: "string \<Rightarrow> string \<Rightarrow> string list \<Rightarrow> index" where
  "index_on n t cs = \<lparr>ix_name = n, ix_table = t, ix_cols = cs, ix_method = ''btree'', ix_ops = []\<rparr>"

definition rev_2a95c14dcbbd :: migration where
  "rev_2a95c14dcbbd = \<lparr>revision = ''2a95c14dcbbd'', down_revision = None,
     upgrade =
       [Create_Table \<lparr>tab_name = ''documents'', tab_columns =
          [col ''id'' T_Uuid, col ''tenant_id'' T_Uuid, col ''filename'' (T_String 1024), col ''mime_type'' (T_String 255),
           col ''sha256'' (T_String 64), col ''status'' (T_Enum ''document_status'' [''uploaded'', ''parsed'', ''failed'']),
           stamp ''created_at'', stamp ''updated_at''],
          tab_key = [''id''], tab_uniques = [(''uq_documents_tenant_sha256'', [''tenant_id'', ''sha256''])], tab_fks = []\<rparr>,
        Create_Index (index_on ''ix_documents_tenant_id'' ''documents'' [''tenant_id''])],
     downgrade =
       [Drop_Index ''ix_documents_tenant_id'' ''documents'', Drop_Table ''documents'', Drop_Type ''document_status'']\<rparr>"

definition rev_8c94888df714 :: migration where
  "rev_8c94888df714 = \<lparr>revision = ''8c94888df714'', down_revision = Some ''2a95c14dcbbd'',
     upgrade =
       [Create_Table \<lparr>tab_name = ''audit_log'', tab_columns =
          [col ''id'' T_Uuid, col ''tenant_id'' T_Uuid, col ''request_id'' (T_String 64), col ''action'' (T_String 64),
           col ''resource_type'' (T_String 64), opt_col ''resource_id'' T_Uuid, opt_col ''detail'' T_Jsonb, stamp ''created_at''],
          tab_key = [''id''], tab_uniques = [], tab_fks = []\<rparr>,
        Create_Index (index_on ''ix_audit_log_tenant_id'' ''audit_log'' [''tenant_id''])],
     downgrade = [Drop_Index ''ix_audit_log_tenant_id'' ''audit_log'', Drop_Table ''audit_log'']\<rparr>"

definition rev_922e1a6f0c05 :: migration where
  "rev_922e1a6f0c05 = \<lparr>revision = ''922e1a6f0c05'', down_revision = Some ''8c94888df714'',
     upgrade =
       [Create_Table \<lparr>tab_name = ''extraction_jobs'', tab_columns =
          [col ''id'' T_Uuid, col ''tenant_id'' T_Uuid, col ''document_id'' T_Uuid,
           col ''status'' (T_Enum ''extraction_job_status'' [''queued'', ''running'', ''completed'', ''failed'']),
           opt_col ''result'' T_Jsonb, opt_col ''error'' (T_String 1024), stamp ''created_at'', stamp ''updated_at''],
          tab_key = [''id''], tab_uniques = [], tab_fks = [references ''document_id'']\<rparr>,
        Create_Index (index_on ''ix_extraction_jobs_tenant_id'' ''extraction_jobs'' [''tenant_id''])],
     downgrade =
       [Drop_Index ''ix_extraction_jobs_tenant_id'' ''extraction_jobs'', Drop_Table ''extraction_jobs'',
        Drop_Type ''extraction_job_status'']\<rparr>"

definition rev_a7592b5fbdc8 :: migration where
  "rev_a7592b5fbdc8 = \<lparr>revision = ''a7592b5fbdc8'', down_revision = Some ''922e1a6f0c05'',
     upgrade =
       [Create_Extension ''vector'',
        Create_Table \<lparr>tab_name = ''document_texts'', tab_columns =
          [col ''document_id'' T_Uuid, col ''tenant_id'' T_Uuid, col ''text'' T_Text, col ''page_map'' T_Jsonb,
           stamp ''created_at'', stamp ''updated_at''],
          tab_key = [''document_id''], tab_uniques = [], tab_fks = [references ''document_id'']\<rparr>,
        Create_Index (index_on ''ix_document_texts_tenant_id'' ''document_texts'' [''tenant_id'']),
        Create_Table \<lparr>tab_name = ''document_chunks'', tab_columns =
          [col ''id'' T_Uuid, col ''tenant_id'' T_Uuid, col ''document_id'' T_Uuid, col ''ordinal'' T_Integer, col ''text'' T_Text,
           col ''char_start'' T_Integer, col ''char_end'' T_Integer, opt_col ''embedding'' (T_Vector 1536),
           (col ''tsv'' T_Tsvector)\<lparr>col_default := Generated ''to_tsvector('english', text)''\<rparr>, stamp ''created_at''],
          tab_key = [''id''], tab_uniques = [], tab_fks = [references ''document_id'']\<rparr>,
        Create_Index (index_on ''ix_document_chunks_tenant_id'' ''document_chunks'' [''tenant_id'']),
        Create_Index ((index_on ''ix_document_chunks_tsv_gin'' ''document_chunks'' [''tsv''])\<lparr>ix_method := ''gin''\<rparr>),
        Create_Index ((index_on ''ix_document_chunks_embedding_hnsw'' ''document_chunks'' [''embedding''])
          \<lparr>ix_method := ''hnsw'', ix_ops := [(''embedding'', ''vector_cosine_ops'')]\<rparr>),
        Create_Table \<lparr>tab_name = ''ingestion_jobs'', tab_columns =
          [col ''id'' T_Uuid, col ''tenant_id'' T_Uuid, col ''document_id'' T_Uuid,
           col ''status'' (T_Enum ''ingestion_job_status'' [''queued'', ''running'', ''completed'', ''failed'']),
           opt_col ''result'' T_Jsonb, opt_col ''error'' (T_String 1024), def_col ''attempts'' T_Integer ''0'',
           opt_col ''lease_expires_at'' T_Timestamptz, stamp ''created_at'', stamp ''updated_at''],
          tab_key = [''id''], tab_uniques = [], tab_fks = [references ''document_id'']\<rparr>,
        Create_Index (index_on ''ix_ingestion_jobs_tenant_id'' ''ingestion_jobs'' [''tenant_id'']),
        Add_Column ''extraction_jobs'' (def_col ''attempts'' T_Integer ''0''),
        Add_Column ''extraction_jobs'' (opt_col ''lease_expires_at'' T_Timestamptz)],
     downgrade =
       [Drop_Column ''extraction_jobs'' ''lease_expires_at'', Drop_Column ''extraction_jobs'' ''attempts'',
        Drop_Index ''ix_ingestion_jobs_tenant_id'' ''ingestion_jobs'', Drop_Table ''ingestion_jobs'', Drop_Type ''ingestion_job_status'',
        Drop_Index ''ix_document_chunks_embedding_hnsw'' ''document_chunks'', Drop_Index ''ix_document_chunks_tsv_gin'' ''document_chunks'',
        Drop_Index ''ix_document_chunks_tenant_id'' ''document_chunks'', Drop_Table ''document_chunks'',
        Drop_Index ''ix_document_texts_tenant_id'' ''document_texts'', Drop_Table ''document_texts'']\<rparr>"

definition rev_b31c7d2e9a40 :: migration where
  "rev_b31c7d2e9a40 = \<lparr>revision = ''b31c7d2e9a40'', down_revision = Some ''a7592b5fbdc8'',
     upgrade =
       [Add_Column ''documents'' (opt_col ''amends_document_id'' T_Uuid),
        Create_Foreign_Key ''documents'' \<lparr>fk_name = Some ''fk_documents_amends_document_id_documents'',
          fk_cols = [''amends_document_id''], fk_target = ''documents'', fk_refs = [''id''], fk_restrict = True\<rparr>,
        Create_Index (index_on ''ix_documents_amends_document_id'' ''documents'' [''amends_document_id''])],
     downgrade =
       [Drop_Index ''ix_documents_amends_document_id'' ''documents'',
        Drop_Foreign_Key ''documents'' ''fk_documents_amends_document_id_documents'',
        Drop_Column ''documents'' ''amends_document_id'']\<rparr>"

definition rev_7c1874eb08d6 :: migration where
  "rev_7c1874eb08d6 = \<lparr>revision = ''7c1874eb08d6'', down_revision = Some ''b31c7d2e9a40'',
     upgrade =
       [Create_Table \<lparr>tab_name = ''change_report_jobs'', tab_columns =
          [col ''id'' T_Uuid, col ''tenant_id'' T_Uuid, col ''base_document_id'' T_Uuid, col ''amended_document_id'' T_Uuid,
           col ''status'' (T_Enum ''change_report_job_status'' [''queued'', ''running'', ''completed'', ''failed'']),
           opt_col ''result'' T_Jsonb, opt_col ''error'' (T_String 1024), def_col ''attempts'' T_Integer ''0'',
           opt_col ''lease_expires_at'' T_Timestamptz, stamp ''created_at'', stamp ''updated_at''],
          tab_key = [''id''], tab_uniques = [], tab_fks = [references ''base_document_id'', references ''amended_document_id'']\<rparr>,
        Create_Index (index_on ''ix_change_report_jobs_tenant_id'' ''change_report_jobs'' [''tenant_id''])],
     downgrade =
       [Drop_Index ''ix_change_report_jobs_tenant_id'' ''change_report_jobs'', Drop_Table ''change_report_jobs'',
        Drop_Type ''change_report_job_status'']\<rparr>"

definition rev_a19979cdf8b3 :: migration where
  "rev_a19979cdf8b3 = \<lparr>revision = ''a19979cdf8b3'', down_revision = Some ''7c1874eb08d6'',
     upgrade =
       [Create_Table \<lparr>tab_name = ''review_items'', tab_columns =
          [col ''id'' T_Uuid, col ''tenant_id'' T_Uuid,
           col ''source'' (T_Enum ''review_item_source'' [''extraction'', ''impact_mapping'']),
           col ''item_type'' (T_String 32), col ''document_id'' T_Uuid, col ''job_id'' T_Uuid, col ''payload'' T_Jsonb,
           col ''confidence'' T_Float,
           col ''status'' (T_Enum ''review_item_status'' [''pending'', ''approved'', ''edited'', ''rejected'']),
           opt_col ''corrected_values'' T_Jsonb, opt_col ''resolved_at'' T_Timestamptz, stamp ''created_at'', stamp ''updated_at''],
          tab_key = [''id''], tab_uniques = [], tab_fks = [references ''document_id'']\<rparr>,
        Create_Index (index_on ''ix_review_items_tenant_id'' ''review_items'' [''tenant_id''])],
     downgrade =
       [Drop_Index ''ix_review_items_tenant_id'' ''review_items'', Drop_Table ''review_items'',
        Drop_Type ''review_item_source'', Drop_Type ''review_item_status'']\<rparr>"

definition rev_8786525292e8 :: migration where
  "rev_8786525292e8 = \<lparr>revision = ''8786525292e8'', down_revision = Some ''a19979cdf8b3'',
     upgrade = [Add_Column ''audit_log'' (opt_col ''actor'' (T_String 255))],
     downgrade = [Drop_Column ''audit_log'' ''actor'']\<rparr>"

definition rev_16054fdcfe36 :: migration where
  "rev_16054fdcfe36 = \<lparr>revision = ''16054fdcfe36'', down_revision = Some ''8786525292e8'',
     upgrade =
       [Create_Table \<lparr>tab_name = ''llm_usage'', tab_columns =
          [col ''id'' T_Uuid, col ''tenant_id'' T_Uuid,
           col ''job_type'' (T_Enum ''llm_usage_job_type'' [''ingestion'', ''extraction'', ''change_report'', ''search'']),
           opt_col ''job_id'' T_Uuid, col ''model'' (T_String 64), col ''prompt_tokens'' T_Integer, col ''completion_tokens'' T_Integer,
           col ''cost_usd'' T_Float, col ''latency_ms'' T_Integer, col ''request_id'' (T_String 64), stamp ''created_at''],
          tab_key = [''id''], tab_uniques = [], tab_fks = []\<rparr>,
        Create_Index (index_on ''ix_llm_usage_tenant_id_created_at'' ''llm_usage'' [''tenant_id'', ''created_at''])],
     downgrade =
       [Drop_Index ''ix_llm_usage_tenant_id_created_at'' ''llm_usage'', Drop_Table ''llm_usage'', Drop_Type ''llm_usage_job_type'']\<rparr>"

text \<open>As the directory lists them; the chain is in their revisions.\<close>

definition versions :: "migration list" where
  "versions = [rev_16054fdcfe36, rev_2a95c14dcbbd, rev_7c1874eb08d6, rev_8786525292e8, rev_8c94888df714, rev_922e1a6f0c05,
     rev_a19979cdf8b3, rev_a7592b5fbdc8, rev_b31c7d2e9a40]"

subsection \<open>The tables the ORM classes declare\<close>

text \<open>
  A mapped class: its table and its indexes. \<^verbatim>\<open>mapped_column(index=True)\<close> names its index after
  the table and the column; defaults filled in by Python are no part of the table.
\<close>

record mapped_class =
  mc_table :: table
  mc_indexes :: "index list"

definition auto_index :: "string \<Rightarrow> string \<Rightarrow> index" where
  "auto_index t c = index_on (''ix_'' @ t @ ''_'' @ c) t [c]"

definition documents_class :: mapped_class where
  "documents_class = \<lparr>mc_table = \<lparr>tab_name = ''documents'', tab_columns =
       [col ''id'' T_Uuid, col ''tenant_id'' T_Uuid, col ''filename'' (T_String 1024), col ''mime_type'' (T_String 255),
        col ''sha256'' (T_String 64), opt_col ''amends_document_id'' T_Uuid,
        col ''status'' (T_Enum ''document_status'' [''uploaded'', ''parsed'', ''failed'']), stamp ''created_at'', stamp ''updated_at''],
       tab_key = [''id''], tab_uniques = [(''uq_documents_tenant_sha256'', [''tenant_id'', ''sha256''])],
       tab_fks = [(references ''amends_document_id'')\<lparr>fk_restrict := True\<rparr>]\<rparr>,
     mc_indexes = [auto_index ''documents'' ''tenant_id'', auto_index ''documents'' ''amends_document_id'']\<rparr>"

definition audit_log_class :: mapped_class where
  "audit_log_class = \<lparr>mc_table = \<lparr>tab_name = ''audit_log'', tab_columns =
       [col ''id'' T_Uuid, col ''tenant_id'' T_Uuid, opt_col ''actor'' (T_String 255), col ''request_id'' (T_String 64),
        col ''action'' (T_String 64), col ''resource_type'' (T_String 64), opt_col ''resource_id'' T_Uuid, opt_col ''detail'' T_Jsonb,
        stamp ''created_at''],
       tab_key = [''id''], tab_uniques = [], tab_fks = []\<rparr>,
     mc_indexes = [auto_index ''audit_log'' ''tenant_id'']\<rparr>"

text \<open>The columns the three job tables share.\<close>

definition job_columns :: "string \<Rightarrow> column list" where
  "job_columns status_type =
     [col ''status'' (T_Enum status_type [''queued'', ''running'', ''completed'', ''failed'']), opt_col ''result'' T_Jsonb,
      opt_col ''error'' (T_String 1024), col ''attempts'' T_Integer, opt_col ''lease_expires_at'' T_Timestamptz,
      stamp ''created_at'', stamp ''updated_at'']"

definition extraction_jobs_class :: mapped_class where
  "extraction_jobs_class = \<lparr>mc_table = \<lparr>tab_name = ''extraction_jobs'', tab_columns =
       [col ''id'' T_Uuid, col ''tenant_id'' T_Uuid, col ''document_id'' T_Uuid] @ job_columns ''extraction_job_status'',
       tab_key = [''id''], tab_uniques = [], tab_fks = [references ''document_id'']\<rparr>,
     mc_indexes = [auto_index ''extraction_jobs'' ''tenant_id'']\<rparr>"

definition ingestion_jobs_class :: mapped_class where
  "ingestion_jobs_class = \<lparr>mc_table = \<lparr>tab_name = ''ingestion_jobs'', tab_columns =
       [col ''id'' T_Uuid, col ''tenant_id'' T_Uuid, col ''document_id'' T_Uuid] @ job_columns ''ingestion_job_status'',
       tab_key = [''id''], tab_uniques = [], tab_fks = [references ''document_id'']\<rparr>,
     mc_indexes = [auto_index ''ingestion_jobs'' ''tenant_id'']\<rparr>"

definition change_report_jobs_class :: mapped_class where
  "change_report_jobs_class = \<lparr>mc_table = \<lparr>tab_name = ''change_report_jobs'', tab_columns =
       [col ''id'' T_Uuid, col ''tenant_id'' T_Uuid, col ''base_document_id'' T_Uuid, col ''amended_document_id'' T_Uuid]
       @ job_columns ''change_report_job_status'',
       tab_key = [''id''], tab_uniques = [], tab_fks = [references ''base_document_id'', references ''amended_document_id'']\<rparr>,
     mc_indexes = [auto_index ''change_report_jobs'' ''tenant_id'']\<rparr>"

definition document_texts_class :: mapped_class where
  "document_texts_class = \<lparr>mc_table = \<lparr>tab_name = ''document_texts'', tab_columns =
       [col ''document_id'' T_Uuid, col ''tenant_id'' T_Uuid, col ''text'' T_Text, col ''page_map'' T_Jsonb,
        stamp ''created_at'', stamp ''updated_at''],
       tab_key = [''document_id''], tab_uniques = [], tab_fks = [references ''document_id'']\<rparr>,
     mc_indexes = [auto_index ''document_texts'' ''tenant_id'']\<rparr>"

definition embedding_dimensions :: nat where
  "embedding_dimensions = 1536"

definition document_chunks_class :: mapped_class where
  "document_chunks_class = \<lparr>mc_table = \<lparr>tab_name = ''document_chunks'', tab_columns =
       [col ''id'' T_Uuid, col ''tenant_id'' T_Uuid, col ''document_id'' T_Uuid, col ''ordinal'' T_Integer, col ''text'' T_Text,
        col ''char_start'' T_Integer, col ''char_end'' T_Integer, opt_col ''embedding'' (T_Vector embedding_dimensions),
        (col ''tsv'' T_Tsvector)\<lparr>col_default := Generated ''to_tsvector('english', text)''\<rparr>, stamp ''created_at''],
       tab_key = [''id''], tab_uniques = [], tab_fks = [references ''document_id'']\<rparr>,
     mc_indexes =
       [index_on ''ix_document_chunks_tenant_id'' ''document_chunks'' [''tenant_id''],
        (index_on ''ix_document_chunks_embedding_hnsw'' ''document_chunks'' [''embedding''])
          \<lparr>ix_method := ''hnsw'', ix_ops := [(''embedding'', ''vector_cosine_ops'')]\<rparr>,
        (index_on ''ix_document_chunks_tsv_gin'' ''document_chunks'' [''tsv''])\<lparr>ix_method := ''gin''\<rparr>]\<rparr>"

definition llm_usage_class :: mapped_class where
  "llm_usage_class = \<lparr>mc_table = \<lparr>tab_name = ''llm_usage'', tab_columns =
       [col ''id'' T_Uuid, col ''tenant_id'' T_Uuid,
        col ''job_type'' (T_Enum ''llm_usage_job_type'' [''ingestion'', ''extraction'', ''change_report'', ''search'']),
        opt_col ''job_id'' T_Uuid, col ''model'' (T_String 64), col ''prompt_tokens'' T_Integer, col ''completion_tokens'' T_Integer,
        col ''cost_usd'' T_Float, col ''latency_ms'' T_Integer, col ''request_id'' (T_String 64), stamp ''created_at''],
       tab_key = [''id''], tab_uniques = [], tab_fks = []\<rparr>,
     mc_indexes = [index_on ''ix_llm_usage_tenant_id_created_at'' ''llm_usage'' [''tenant_id'', ''created_at'']]\<rparr>"

definition review_items_class :: mapped_class where
  "review_items_class = \<lparr>mc_table = \<lparr>tab_name = ''review_items'', tab_columns =
       [col ''id'' T_Uuid, col ''tenant_id'' T_Uuid, col ''source'' (T_Enum ''review_item_source'' [''extraction'', ''impact_mapping'']),
        col ''item_type'' (T_String 32), col ''document_id'' T_Uuid, col ''job_id'' T_Uuid, col ''payload'' T_Jsonb,
        col ''confidence'' T_Float,
        col ''status'' (T_Enum ''review_item_status'' [''pending'', ''approved'', ''edited'', ''rejected'']),
        opt_col ''corrected_values'' T_Jsonb, opt_col ''resolved_at'' T_Timestamptz, stamp ''created_at'', stamp ''updated_at''],
       tab_key = [''id''], tab_uniques = [], tab_fks = [references ''document_id'']\<rparr>,
     mc_indexes = [auto_index ''review_items'' ''tenant_id'']\<rparr>"

text \<open>\<^verbatim>\<open>Base.metadata\<close>, in the order \<^verbatim>\<open>app.models\<close> imports the classes.\<close>

definition metadata :: "mapped_class list" where
  "metadata = [audit_log_class, change_report_jobs_class, documents_class, document_chunks_class, document_texts_class,
     extraction_jobs_class, ingestion_jobs_class, llm_usage_class, review_items_class]"

text \<open>
  The database agrees with the metadata: the same tables, and in each the same columns
  whatever their order, up to a default the database holds for a column that Python fills
  in; the same keys and constraints, up to the name of a foreign key; the same indexes; and
  exactly the enumerations the columns use.
\<close>

definition column_agrees :: "column \<Rightarrow> column \<Rightarrow> bool" where
  "column_agrees a b \<longleftrightarrow> col_name a = col_name b \<and> col_type a = col_type b \<and> col_nullable a = col_nullable b
     \<and> (col_default b = No_Default \<or> col_default a = col_default b)"

definition table_agrees :: "table \<Rightarrow> table \<Rightarrow> bool" where
  "table_agrees a b \<longleftrightarrow> tab_name a = tab_name b \<and> length (tab_columns a) = length (tab_columns b)
     \<and> list_all (\<lambda>x. list_ex (column_agrees x) (tab_columns b)) (tab_columns a)
     \<and> tab_key a = tab_key b \<and> tab_uniques a = tab_uniques b
     \<and> map (fk_name_update (\<lambda>_. None)) (tab_fks a) = map (fk_name_update (\<lambda>_. None)) (tab_fks b)"

definition same_members :: "'a list \<Rightarrow> 'a list \<Rightarrow> bool" where
  "same_members xs ys \<longleftrightarrow> length xs = length ys \<and> list_all (\<lambda>x. x \<in> set ys) xs \<and> distinct xs"

definition implements :: "schema \<Rightarrow> mapped_class list \<Rightarrow> bool" where
  "implements s ms \<longleftrightarrow> length (tables s) = length ms
     \<and> list_all (\<lambda>m. list_ex (\<lambda>t. table_agrees t (mc_table m)) (tables s)) ms
     \<and> same_members (indexes s) (concat (map mc_indexes ms))
     \<and> same_members (enum_types s) (concat (map (\<lambda>m. enums_of (tab_columns (mc_table m))) ms))"

subsection \<open>Lemmas: undoing operations\<close>

text \<open>What the catalogue guarantees of every schema.\<close>

definition table_wf :: "schema \<Rightarrow> table \<Rightarrow> bool" where
  "table_wf s t \<longleftrightarrow> (\<forall>x \<in> set (enums_of (tab_columns t)). fst x \<in> fst ` set (enum_types s))
     \<and> set (tab_key t) \<subseteq> names t \<and> (\<forall>u \<in> set (tab_uniques t). set (snd u) \<subseteq> names t)
     \<and> (\<forall>f \<in> set (tab_fks t). set (fk_cols f) \<subseteq> names t \<and> fk_target f \<in> tab_name ` set (tables s)
          \<and> (\<forall>u \<in> set (tables s). tab_name u = fk_target f \<longrightarrow> set (fk_refs f) \<subseteq> names u))"

definition index_wf :: "schema \<Rightarrow> index \<Rightarrow> bool" where
  "index_wf s i \<longleftrightarrow> ix_table i \<in> tab_name ` set (tables s)
     \<and> (\<forall>t \<in> set (tables s). tab_name t = ix_table i \<longrightarrow> set (ix_cols i) \<subseteq> names t)"

definition schema_wf :: "schema \<Rightarrow> bool" where
  "schema_wf s \<longleftrightarrow> (\<forall>t \<in> set (tables s). table_wf s t) \<and> (\<forall>i \<in> set (indexes s). index_wf s i)"

lemma wf_extensions: "schema_wf (s\<lparr>extensions := e\<rparr>) = schema_wf s"
  by (simp add: schema_wf_def table_wf_def index_wf_def)

lemma schema_wf_empty: "schema_wf empty_schema"
  by (simp add: schema_wf_def empty_schema_def)

text \<open>\<open>down\<close> takes back what \<open>up\<close> did, whatever extensions are there by then.\<close>

definition undone :: "operation list \<Rightarrow> operation list \<Rightarrow> bool" where
  "undone up down \<longleftrightarrow> (\<forall>s s'. schema_wf s \<longrightarrow> run_ops up s = Some s' \<longrightarrow>
     schema_wf s' \<and> (\<forall>e. run_ops down (s'\<lparr>extensions := e\<rparr>) = Some (s\<lparr>extensions := e\<rparr>)))"

lemma run_ops_append: "run_ops (xs @ ys) s = Option.bind (run_ops xs s) (run_ops ys)"
  by (induction xs arbitrary: s) (auto split: bind_split)

lemma undone_Nil: "undone [] []"
  by (simp add: undone_def)

lemma undone_append:
  assumes "undone u1 d1" "undone u2 d2"
  shows "undone (u1 @ u2) (d2 @ d1)"
  unfolding undone_def
proof (intro allI impI)
  fix s s2
  assume wf: "schema_wf s" and run: "run_ops (u1 @ u2) s = Some s2"
  obtain s1 where r: "run_ops u1 s = Some s1" "run_ops u2 s1 = Some s2" using run by (auto simp: run_ops_append split: bind_splits)
  have 1: "schema_wf s1" "\<And>e. run_ops d1 (s1\<lparr>extensions := e\<rparr>) = Some (s\<lparr>extensions := e\<rparr>)"
    using assms(1) wf r(1) by (auto simp: undone_def)
  have 2: "schema_wf s2" "\<And>e. run_ops d2 (s2\<lparr>extensions := e\<rparr>) = Some (s1\<lparr>extensions := e\<rparr>)"
    using assms(2) 1(1) r(2) by (auto simp: undone_def)
  show "schema_wf s2 \<and> (\<forall>e. run_ops (d2 @ d1) (s2\<lparr>extensions := e\<rparr>) = Some (s\<lparr>extensions := e\<rparr>))"
    using 1(2) 2 by (simp add: run_ops_append)
qed

lemma undone_Cons: "undone [u] d \<Longrightarrow> undone us ds \<Longrightarrow> undone (u # us) (ds @ d)"
  using undone_append[of "[u]" d us ds] by simp

lemma undone_step:
  assumes "\<And>s s' e. schema_wf s \<Longrightarrow> apply_op u s = Some s' \<Longrightarrow>
      schema_wf s' \<and> run_ops d (s'\<lparr>extensions := e\<rparr>) = Some (s\<lparr>extensions := e\<rparr>)"
  shows "undone [u] d"
  using assms by (auto simp: undone_def split: bind_splits)

lemma undone_extension: "undone [Create_Extension x] []"
  by (rule undone_step) (auto simp: wf_extensions)

lemma undone_index:
  assumes "ix_name i = n"
  shows "undone [Create_Index i] [Drop_Index n t]"
proof (rule undone_step)
  fix s s' e
  assume wf: "schema_wf s" and ap: "apply_op (Create_Index i) s = Some s'"
  have c: "ix_name i \<notin> ix_name ` set (indexes s)" "has_table (ix_table i) (\<lambda>t. set (ix_cols i) \<subseteq> names t) s"
    "s' = s\<lparr>indexes := indexes s @ [i]\<rparr>" using ap by (auto simp: relations_def split: if_splits)
  have fresh: "filter (\<lambda>j. ix_name j \<noteq> ix_name i) (indexes s) = indexes s"
    using c(1) by (intro filter_True) (metis image_eqI)
  show "schema_wf s' \<and> run_ops [Drop_Index n t] (s'\<lparr>extensions := e\<rparr>) = Some (s\<lparr>extensions := e\<rparr>)"
    using wf fresh assms c(2)
    by (auto simp: c(3) schema_wf_def table_wf_def index_wf_def has_table_def list_all_iff)
qed

lemma run_drop_types:
  "distinct (map fst es) \<Longrightarrow> (\<And>x. x \<in> set es \<Longrightarrow> fst x \<notin> fst ` set (enum_types s)) \<Longrightarrow>
   (\<And>x t y. x \<in> set es \<Longrightarrow> t \<in> set (tables s) \<Longrightarrow> y \<in> set (enums_of (tab_columns t)) \<Longrightarrow> fst y \<noteq> fst x) \<Longrightarrow>
   run_ops (map (\<lambda>x. Drop_Type (fst x)) es) (s\<lparr>enum_types := enum_types s @ es\<rparr>) = Some s"
proof (induction es arbitrary: s)
  case (Cons x es)
  have unused: "\<not> list_ex (\<lambda>t. list_ex (\<lambda>e. fst e = fst x) (enums_of (tab_columns t))) (tables s)"
    using Cons.prems(3)[of x] by (auto simp: list_ex_iff)
  have keep: "filter (\<lambda>e. fst e \<noteq> fst x) (enum_types s) = enum_types s" "filter (\<lambda>e. fst e \<noteq> fst x) es = es"
    using Cons.prems(1) Cons.prems(2)[of x] by (auto intro!: filter_True simp: image_iff)
  show ?case using Cons.IH[of s] Cons.prems unused keep by simp
qed simp

lemma table_wf_more:
  "table_wf s u \<Longrightarrow> \<forall>f \<in> set (tab_fks u). tab_name t \<noteq> fk_target f \<Longrightarrow>
   table_wf (s\<lparr>tables := tables s @ [t], enum_types := enum_types s @ es\<rparr>) u"
  unfolding table_wf_def by (simp add: image_Un)

lemma new_table_wf:
  assumes "table_ok s t" "schema_wf s" "tab_name t \<notin> tab_name ` set (tables s)"
  shows "table_wf (s\<lparr>tables := tables s @ [t], enum_types := enum_types s @ enums_of (tab_columns t)\<rparr>) t"
proof -
  have "set (fk_cols f) \<subseteq> names t \<and> fk_target f \<in> tab_name ` set (tables s)
      \<and> (\<forall>u \<in> set (tables s). tab_name u = fk_target f \<longrightarrow> set (fk_refs f) \<subseteq> names u)" if "f \<in> set (tab_fks t)" for f
  proof -
    have "fk_ok s (names t) f" using assms(1) that by (simp add: table_ok_def list_all_iff)
    moreover have "set (tab_key u) \<subseteq> names u" if "u \<in> set (tables s)" for u
      using assms(2) that by (simp add: schema_wf_def table_wf_def)
    ultimately show ?thesis unfolding fk_ok_def list_all_iff by (metis list.set_map)
  qed
  moreover have "\<forall>f \<in> set (tab_fks t). tab_name t \<noteq> fk_target f" using calculation assms(3) by metis
  ultimately show ?thesis using assms(1) unfolding table_wf_def by (simp add: table_ok_def list_all_iff image_Un)
qed

lemma undone_table:
  assumes "tab_name t = n" "map fst (enums_of (tab_columns t)) = es"
  shows "undone [Create_Table t] (Drop_Table n # map Drop_Type es)"
proof (rule undone_step)
  fix s s' e
  assume wf: "schema_wf s" and ap: "apply_op (Create_Table t) s = Some s'"
  let ?es = "enums_of (tab_columns t)"
  have fresh: "n \<notin> tab_name ` set (tables s)" and ok: "table_ok s t"
    and s': "s' = s\<lparr>tables := tables s @ [t], enum_types := enum_types s @ ?es\<rparr>"
    using ap assms(1) by (auto simp: relations_def split: if_splits)
  have fks: "fk_target f \<noteq> n" if "u \<in> set (tables s)" "f \<in> set (tab_fks u)" for u f
    using wf that fresh by (auto simp: schema_wf_def table_wf_def)
  have ixs: "ix_table i \<noteq> n" if "i \<in> set (indexes s)" for i using wf that fresh by (auto simp: schema_wf_def index_wf_def)
  have "filter (\<lambda>u. tab_name u \<noteq> n) (tables s) = tables s" "filter (\<lambda>i. ix_table i \<noteq> n) (indexes s) = indexes s"
    using fresh ixs by (auto simp: filter_id_conv)
  then have drop: "apply_op (Drop_Table n) (s'\<lparr>extensions := e\<rparr>) = Some ((s\<lparr>extensions := e\<rparr>)\<lparr>enum_types := enum_types s @ ?es\<rparr>)"
    using fks assms(1) by (auto simp: s' list_ex_iff)
  have new: "fst x \<notin> fst ` set (enum_types s)" if "x \<in> set ?es" for x
    using ok that by (simp add: table_ok_def list_all_iff)
  have "run_ops (map (\<lambda>x. Drop_Type (fst x)) ?es) ((s\<lparr>extensions := e\<rparr>)\<lparr>enum_types := enum_types (s\<lparr>extensions := e\<rparr>) @ ?es\<rparr>)
      = Some (s\<lparr>extensions := e\<rparr>)"
  proof (rule run_drop_types)
    show "distinct (map fst ?es)" using ok by (simp add: table_ok_def)
    show "fst x \<notin> fst ` set (enum_types (s\<lparr>extensions := e\<rparr>))" if "x \<in> set ?es" for x using new that by simp
    show "fst y \<noteq> fst x" if "x \<in> set ?es" "u \<in> set (tables (s\<lparr>extensions := e\<rparr>))" "y \<in> set (enums_of (tab_columns u))" for x u y
    proof -
      have "fst y \<in> fst ` set (enum_types s)" using wf that(2,3) by (simp add: schema_wf_def table_wf_def)
      then show ?thesis using new[OF that(1)] by metis
    qed
  qed
  moreover have "map Drop_Type es = map (\<lambda>x. Drop_Type (fst x)) ?es" by (simp add: assms(2)[symmetric])
  moreover have "schema_wf s'"
  proof -
    have "table_wf s' u" if "u \<in> set (tables s)" for u
      unfolding s' by (rule table_wf_more) (use wf that fks[OF that] assms(1) in \<open>simp_all add: schema_wf_def, metis\<close>)
    moreover have "table_wf s' t" unfolding s' by (rule new_table_wf) (use ok wf fresh assms(1) in auto)
    moreover have "index_wf s' i" if "i \<in> set (indexes s)" for i
      using wf that ixs[OF that] assms(1) by (auto simp: s' schema_wf_def index_wf_def)
    ultimately show ?thesis by (simp add: schema_wf_def s')
  qed
  ultimately show "schema_wf s' \<and> run_ops (Drop_Table n # map Drop_Type es) (s'\<lparr>extensions := e\<rparr>) = Some (s\<lparr>extensions := e\<rparr>)"
    using drop by simp
qed

text \<open>A change of the tables that keeps what there is.\<close>

lemma schema_wf_map:
  assumes "schema_wf s" "\<And>t. tab_name (h t) = tab_name t" "\<And>t. names t \<subseteq> names (h t)" "\<And>t. tab_key (h t) = tab_key t"
    "\<And>t. tab_uniques (h t) = tab_uniques t" "\<And>t. tab_fks (h t) = tab_fks t"
    "\<And>t. enums_of (tab_columns (h t)) = enums_of (tab_columns t)"
    "tables s' = map h (tables s)" "indexes s' = indexes s" "enum_types s' = enum_types s"
  shows "schema_wf s'"
proof -
  have "table_wf s' (h t)" if t: "t \<in> set (tables s)" for t
  proof -
    have w: "table_wf s t" using assms(1) t by (simp add: schema_wf_def)
    show ?thesis using w assms(3) unfolding table_wf_def assms(2,4-10) set_map ball_simps image_image by (blast intro: order_trans)
  qed
  moreover have "index_wf s' i" if i: "i \<in> set (indexes s)" for i
  proof -
    have w: "index_wf s i" using assms(1) i by (simp add: schema_wf_def)
    show ?thesis using w assms(3) unfolding index_wf_def assms(2,8) set_map ball_simps image_image by (blast intro: order_trans)
  qed
  ultimately show ?thesis by (simp add: schema_wf_def assms(8,9))
qed

lemma undone_column:
  assumes "col_name c = k"
  shows "undone [Add_Column n c] [Drop_Column n k]"
proof (rule undone_step)
  fix s s' e
  assume wf: "schema_wf s" and ap: "apply_op (Add_Column n c) s = Some s'"
  let ?g = "\<lambda>t. t\<lparr>tab_columns := tab_columns t @ [c]\<rparr>" and ?h = "\<lambda>t. if tab_name t = n then t\<lparr>tab_columns := tab_columns t @ [c]\<rparr> else t"
  have has: "n \<in> tab_name ` set (tables s)" and fresh: "\<And>t. t \<in> set (tables s) \<Longrightarrow> tab_name t = n \<Longrightarrow> k \<notin> names t"
    and enum: "enum_of (col_type c) = []" and s': "s' = s\<lparr>tables := map ?h (tables s)\<rparr>"
    using ap assms by (auto simp: has_table_def list_all_iff on_table_def split: if_splits)
  have wft: "table_wf s t" if "t \<in> set (tables s)" for t using wf that by (simp add: schema_wf_def)
  have restore: "without_column k (?g t) = t" if "t \<in> set (tables s)" "tab_name t = n" for t
  proof -
    have "k \<notin> names t" using fresh that by blast
    moreover have "filter (\<lambda>x. col_name x \<noteq> k) (tab_columns t) = tab_columns t" using calculation by (intro filter_True) auto
    moreover have "filter (\<lambda>u. k \<notin> set (snd u)) (tab_uniques t) = tab_uniques t" "filter (\<lambda>f. k \<notin> set (fk_cols f)) (tab_fks t) = tab_fks t"
      using wft[OF that(1)] calculation(1) unfolding table_wf_def by (blast intro: filter_True)+
    moreover have "k \<notin> set (tab_key t)" using wft[OF that(1)] calculation(1) by (auto simp: table_wf_def)
    ultimately show ?thesis using assms by (simp add: without_column_def)
  qed
  have tabs: "map (\<lambda>t. if tab_name t = n then without_column k t else t) (map ?h (tables s)) = tables s"
    using restore by (simp add: map_idI)
  have "\<not> (ix_table i = n \<and> k \<in> set (ix_cols i))" if "i \<in> set (indexes s)" for i
    using wf that has fresh by (fastforce simp: schema_wf_def index_wf_def)
  then have ixs: "filter (\<lambda>i. \<not> (ix_table i = n \<and> k \<in> set (ix_cols i))) (indexes s) = indexes s" by (simp add: filter_True)
  have "k \<notin> set (fk_refs f)" if "t \<in> set (tables s)" "f \<in> set (tab_fks t)" "fk_target f = n" for t f
  proof -
    obtain u where u: "u \<in> set (tables s)" "tab_name u = n" using has by auto
    have "\<forall>u \<in> set (tables s). tab_name u = fk_target f \<longrightarrow> set (fk_refs f) \<subseteq> names u"
      using wft[OF that(1)] that(2) unfolding table_wf_def by blast
    from bspec[OF this u(1)] have "set (fk_refs f) \<subseteq> names u" using u(2) that(3) by simp
    then show ?thesis using fresh[OF u] by blast
  qed
  then have refs: "\<not> refers_to n (\<lambda>f. k \<in> set (fk_refs f)) (s'\<lparr>extensions := e\<rparr>)"
    by (auto simp: refers_to_def list_ex_iff s' split: if_splits)
  have "has_table n (\<lambda>t. k \<in> names t) (s'\<lparr>extensions := e\<rparr>)"
    using has assms by (auto simp: has_table_def list_all_iff s' split: if_splits)
  then have down: "run_ops [Drop_Column n k] (s'\<lparr>extensions := e\<rparr>) = Some (s\<lparr>extensions := e\<rparr>)"
    using refs tabs ixs by (simp add: on_table_def s')
  have h: "tab_name (?h t) = tab_name t" "names t \<subseteq> names (?h t)" "tab_key (?h t) = tab_key t" "tab_uniques (?h t) = tab_uniques t"
    "tab_fks (?h t) = tab_fks t" "enums_of (tab_columns (?h t)) = enums_of (tab_columns t)" for t
    using enum by (auto simp: enums_of_def)
  have "schema_wf s'" using wf by (rule schema_wf_map[of _ ?h]) (use h in \<open>simp_all add: s'\<close>)
  then show "schema_wf s' \<and> run_ops [Drop_Column n k] (s'\<lparr>extensions := e\<rparr>) = Some (s\<lparr>extensions := e\<rparr>)" using down by blast
qed

lemma undone_foreign_key:
  assumes "fk_name f = Some k"
  shows "undone [Create_Foreign_Key n f] [Drop_Foreign_Key n k]"
proof (rule undone_step)
  fix s s' e
  assume wf: "schema_wf s" and ap: "apply_op (Create_Foreign_Key n f) s = Some s'"
  let ?h = "\<lambda>t. if tab_name t = n then t\<lparr>tab_fks := tab_fks t @ [f]\<rparr> else t"
  have has: "n \<in> tab_name ` set (tables s)" and s': "s' = s\<lparr>tables := map ?h (tables s)\<rparr>"
    and ok: "\<And>t. t \<in> set (tables s) \<Longrightarrow> tab_name t = n \<Longrightarrow> fk_ok s (names t) f \<and> (\<forall>g \<in> set (tab_fks t). fk_name g \<noteq> Some k)"
    using ap assms by (auto simp: has_table_def list_all_iff on_table_def split: if_splits)
  have "filter (\<lambda>g. fk_name g \<noteq> Some k) (tab_fks t) = tab_fks t" if "t \<in> set (tables s)" "tab_name t = n" for t
    using ok[OF that] by (intro filter_True) blast
  then have "map (\<lambda>t. if tab_name t = n then t\<lparr>tab_fks := filter (\<lambda>g. fk_name g \<noteq> Some k) (tab_fks t)\<rparr> else t) (map ?h (tables s)) = tables s"
    using assms by (simp add: map_idI)
  moreover have "has_table n (\<lambda>t. list_ex (\<lambda>g. fk_name g = Some k) (tab_fks t)) (s'\<lparr>extensions := e\<rparr>)"
    using has assms by (auto simp: has_table_def list_all_iff s')
  ultimately have down: "run_ops [Drop_Foreign_Key n k] (s'\<lparr>extensions := e\<rparr>) = Some (s\<lparr>extensions := e\<rparr>)"
    by (simp add: on_table_def s')
  define h :: "table \<Rightarrow> table" where "h = ?h"
  have h: "tab_name (h u) = tab_name u" "tab_columns (h u) = tab_columns u" "tab_key (h u) = tab_key u" "tab_uniques (h u) = tab_uniques u"
    "set (tab_fks (h u)) = set (tab_fks u) \<union> (if tab_name u = n then {f} else {})" for u by (simp_all add: h_def)
  have tabs: "tables s' = map h (tables s)" "enum_types s' = enum_types s" "indexes s' = indexes s" by (simp_all add: s' h_def)
  have "table_wf s' (h t)" if t: "t \<in> set (tables s)" for t
  proof -
    have w: "table_wf s t" "\<And>u. u \<in> set (tables s) \<Longrightarrow> set (tab_key u) \<subseteq> names u"
      using wf t by (simp_all add: schema_wf_def table_wf_def)
    have "set (fk_cols g) \<subseteq> names t \<and> fk_target g \<in> tab_name ` set (tables s)
        \<and> (\<forall>u \<in> set (tables s). tab_name u = fk_target g \<longrightarrow> set (fk_refs g) \<subseteq> names u)" if g: "g \<in> set (tab_fks (h t))" for g
    proof (cases "g \<in> set (tab_fks t)")
      case True
      then show ?thesis using w(1) by (simp add: table_wf_def)
    next
      case False
      then have g: "g = f" "tab_name t = n" using g by (simp_all add: h split: if_splits)
      have "fk_ok s (names t) g" using ok[OF t] g by blast
      then show ?thesis using w(2) unfolding fk_ok_def list_all_iff by (metis list.set_map)
    qed
    then show ?thesis using w(1) unfolding table_wf_def by (simp add: tabs h image_image)
  qed
  moreover have "index_wf s' i" if "i \<in> set (indexes s)" for i
    using wf that by (simp add: schema_wf_def index_wf_def tabs h image_image)
  ultimately have "schema_wf s'" by (simp add: schema_wf_def tabs)
  then show "schema_wf s' \<and> run_ops [Drop_Foreign_Key n k] (s'\<lparr>extensions := e\<rparr>) = Some (s\<lparr>extensions := e\<rparr>)" using down by blast
qed

subsection \<open>Lemmas: the migrations\<close>

text \<open>What takes an operation back, for the operations that create something.\<close>

fun inverse_of :: "operation \<Rightarrow> operation list option" where
  "inverse_of (Create_Extension e) = Some []"
| "inverse_of (Create_Table t) = Some (Drop_Table (tab_name t) # map Drop_Type (map fst (enums_of (tab_columns t))))"
| "inverse_of (Create_Index i) = Some [Drop_Index (ix_name i) (ix_table i)]"
| "inverse_of (Add_Column n c) = Some [Drop_Column n (col_name c)]"
| "inverse_of (Create_Foreign_Key n f) = map_option (\<lambda>k. [Drop_Foreign_Key n k]) (fk_name f)"
| "inverse_of _ = None"

fun inverse_ops :: "operation list \<Rightarrow> operation list option" where
  "inverse_ops [] = Some []"
| "inverse_ops (u # us) = (case (inverse_ops us, inverse_of u) of (Some ds, Some d) \<Rightarrow> Some (ds @ d) | _ \<Rightarrow> None)"

lemma inverse_undone: "inverse_of u = Some d \<Longrightarrow> undone [u] d"
  by (cases u) (auto intro: undone_extension undone_table[OF refl refl, unfolded map_map] undone_index undone_column undone_foreign_key)

lemma inverse_ops_undone: "inverse_ops us = Some ds \<Longrightarrow> undone us ds"
  by (induction us arbitrary: ds) (auto simp: undone_Nil intro: undone_Cons inverse_undone split: option.splits)

lemma downgrades_invert: "list_all (\<lambda>m. inverse_ops (upgrade m) = Some (downgrade m)) versions"
  by code_simp

lemma migration_undone: "m \<in> set versions \<Longrightarrow> undone (upgrade m) (downgrade m)"
  using downgrades_invert by (auto simp: list_all_iff intro: inverse_ops_undone)

text \<open>The revisions in the order they revise one another.\<close>

definition history :: "migration list" where
  "history = [rev_2a95c14dcbbd, rev_8c94888df714, rev_922e1a6f0c05, rev_a7592b5fbdc8, rev_b31c7d2e9a40, rev_7c1874eb08d6,
     rev_a19979cdf8b3, rev_8786525292e8, rev_16054fdcfe36]"

text \<open>A chain from one revision to another, in both directions.\<close>

fun chained :: "migration list \<Rightarrow> string option \<Rightarrow> migration list \<Rightarrow> string option \<Rightarrow> bool" where
  "chained ms v [] w \<longleftrightarrow> v = w"
| "chained ms v (m # path) w \<longleftrightarrow> List.find (\<lambda>x. down_revision x = v) ms = Some m
     \<and> List.find (\<lambda>x. Some (revision x) = Some (revision m)) ms = Some m \<and> down_revision m = v
     \<and> chained ms (Some (revision m)) path w"

lemma versions_chained: "chained versions None history (Some ''16054fdcfe36'')
    \<and> List.find (\<lambda>m. down_revision m = Some ''16054fdcfe36'') versions = None
    \<and> List.find (\<lambda>m. Some (revision m) = None) versions = None \<and> set history \<subseteq> set versions"
  by code_simp

lemma upgrade_path:
  "chained ms v path w \<Longrightarrow> upgrade_head (length path + n) ms (v, s)
     = Option.bind (run_ops (concat (map upgrade path)) s) (\<lambda>s'. upgrade_head n ms (w, s'))"
  by (induction path arbitrary: v s) (auto simp: run_ops_append split: bind_splits)

lemma chained_append: "chained ms v (p @ q) w \<longleftrightarrow> (\<exists>u. chained ms v p u \<and> chained ms u q w)"
  by (induction p arbitrary: v) auto

lemma downgrade_path:
  "chained ms v path w \<Longrightarrow> downgrade_base (length path + n) ms (w, s)
     = Option.bind (run_ops (concat (map downgrade (rev path))) s) (\<lambda>s'. downgrade_base n ms (v, s'))"
  by (induction path arbitrary: w s rule: rev_induct) (auto simp: chained_append run_ops_append split: bind_splits)

lemma path_undone:
  "(\<And>m. m \<in> set path \<Longrightarrow> undone (upgrade m) (downgrade m)) \<Longrightarrow>
   undone (concat (map upgrade path)) (concat (map downgrade (rev path)))"
  by (induction path) (auto simp: undone_Nil intro: undone_append)

text \<open>What the nine migrations build from nothing.\<close>

lemma head_schema:
  "case upgrade_head 10 versions (None, empty_schema) of None \<Rightarrow> False
   | Some (v, s) \<Rightarrow> v = Some ''16054fdcfe36'' \<and> implements s metadata"
  by code_simp

subsection \<open>Properties\<close>

text \<open>
  C15: Migrating down takes back what migrating up did: starting from any database whose
  catalogue is consistent, \<^verbatim>\<open>downgrade base\<close> after a successful \<^verbatim>\<open>upgrade head\<close> succeeds and
  restores the schema, its enumeration types included, except that an installed extension
  stays. The upgrade itself ends at the last revision.
\<close>

theorem downgrade_restores_the_schema:
  assumes "schema_wf s" "upgrade_head 10 versions (None, s) = Some (v, s')"
  shows "v = Some ''16054fdcfe36'' \<and> downgrade_base 10 versions (v, s') = Some (None, s\<lparr>extensions := extensions s'\<rparr>)"
proof -
  have len: "(10 :: nat) = length history + 1" by (simp add: history_def)
  note ch = versions_chained
  have up: "run_ops (concat (map upgrade history)) s = Some s'" "v = Some ''16054fdcfe36''"
    using assms(2) upgrade_path[OF ch[THEN conjunct1], of 1 s] ch by (auto simp: len split: bind_splits)
  have "undone (concat (map upgrade history)) (concat (map downgrade (rev history)))"
    using path_undone migration_undone ch by blast
  then have "run_ops (concat (map downgrade (rev history))) (s'\<lparr>extensions := extensions s'\<rparr>) = Some (s\<lparr>extensions := extensions s'\<rparr>)"
    using assms(1) up(1) unfolding undone_def by blast
  then show ?thesis
    using up(2) downgrade_path[OF ch[THEN conjunct1], of 1 s'] ch by (simp add: len)
qed

theorem downgrade_restores_the_schema_witness:
  "Option.bind (upgrade_head 10 versions (None, empty_schema)) (downgrade_base 10 versions)
     = Some (None, empty_schema\<lparr>extensions := [''vector'']\<rparr>)"
proof -
  have u: "(case upgrade_head 10 versions (None, empty_schema) of None \<Rightarrow> False | Some (v, s) \<Rightarrow> extensions s = [''vector''])"
    by code_simp
  obtain v s where r: "upgrade_head 10 versions (None, empty_schema) = Some (v, s)" "extensions s = [''vector'']"
    using u by (auto split: option.splits)
  from downgrade_restores_the_schema[OF schema_wf_empty r(1)]
  have "downgrade_base 10 versions (v, s) = Some (None, empty_schema\<lparr>extensions := [''vector'']\<rparr>)" unfolding r(2) by blast
  then show ?thesis by (simp only: r(1) bind.simps)
qed

text \<open>
  C16: The migrations build what the code declares: \<^verbatim>\<open>upgrade head\<close> on an empty database
  succeeds, and the schema it leaves has exactly the tables, columns, types, constraints
  and indexes of the ORM classes.
\<close>

theorem migrations_build_the_models:
  "\<exists>s. upgrade_head 10 versions (None, empty_schema) = Some (Some ''16054fdcfe36'', s) \<and> implements s metadata"
  using head_schema by (auto split: option.splits)

end
