(* ===== verification/MigrationEnv.thy ===== *)
theory MigrationEnv
  imports Migrations Config
begin

section \<open>Running the migrations (migrations/env.py)\<close>

text \<open>
  The two modes of \<^verbatim>\<open>alembic upgrade\<close>: online, \<^verbatim>\<open>env.py\<close> connects to the database of the
  settings and runs every pending migration in one transaction; offline (\<^verbatim>\<open>--sql\<close>) it emits a
  script. The server that runs such a script is here too, as psql feeds it: a statement that
  fails aborts the transaction, and the rest of the script is then ignored.
\<close>

subsection \<open>Databases and statements\<close>

text \<open>The rows of Alembic's version table, when it is there, and the schema.\<close>

record database =
  version_rows :: "string list option"
  db_schema :: schema

definition fresh_database :: database where
  "fresh_database = \<lparr>version_rows = None, db_schema = empty_schema\<rparr>"

definition current_revision :: "database \<Rightarrow> string option" where
  "current_revision d = (case version_rows d of Some (v # _) \<Rightarrow> Some v | _ \<Rightarrow> None)"

datatype sql_statement =
    Begin_Transaction
  | Commit_Transaction
  | Create_Version_Table
  | Ddl operation
  | Insert_Version string
  | Update_Version string string

text \<open>\<open>None\<close>: the database raises. An update that finds no row is no error.\<close>

fun run_sql :: "sql_statement \<Rightarrow> database \<Rightarrow> database option" where
  "run_sql Create_Version_Table d = (case version_rows d of None \<Rightarrow> Some (d\<lparr>version_rows := Some []\<rparr>) | Some _ \<Rightarrow> None)"
| "run_sql (Ddl x) d = map_option (\<lambda>s. d\<lparr>db_schema := s\<rparr>) (apply_op x (db_schema d))"
| "run_sql (Insert_Version v) d =
     (case version_rows d of None \<Rightarrow> None | Some vs \<Rightarrow> if v \<in> set vs then None else Some (d\<lparr>version_rows := Some (vs @ [v])\<rparr>))"
| "run_sql (Update_Version v w) d =
     (case version_rows d of None \<Rightarrow> None | Some vs \<Rightarrow> Some (d\<lparr>version_rows := Some (map (\<lambda>x. if x = v then w else x) vs)\<rparr>))"
| "run_sql Begin_Transaction d = Some d"
| "run_sql Commit_Transaction d = Some d"

text \<open>A server session: outside a transaction, in one, or in one that a failure has aborted.\<close>

datatype sql_session = Idle database | In_Transaction database database | Aborted database

fun feed :: "sql_session \<Rightarrow> sql_statement \<Rightarrow> sql_session" where
  "feed (Idle d) Begin_Transaction = In_Transaction d d"
| "feed (Idle d) x = (case run_sql x d of None \<Rightarrow> Idle d | Some d' \<Rightarrow> Idle d')"
| "feed (In_Transaction c d) Commit_Transaction = Idle d"
| "feed (In_Transaction c d) x = (case run_sql x d of None \<Rightarrow> Aborted c | Some d' \<Rightarrow> In_Transaction c d')"
| "feed (Aborted c) Commit_Transaction = Idle c"
| "feed (Aborted c) x = Aborted c"

definition replay :: "sql_session \<Rightarrow> sql_statement list \<Rightarrow> sql_session" where
  "replay = foldl feed"

subsection \<open>The two modes\<close>

text \<open>The migrations from a revision to the head, and the statement that records one of them.\<close>

fun plan :: "nat \<Rightarrow> migration list \<Rightarrow> string option \<Rightarrow> migration list" where
  "plan 0 ms v = []"
| "plan (Suc n) ms v =
     (case List.find (\<lambda>m. down_revision m = v) ms of None \<Rightarrow> [] | Some m \<Rightarrow> m # plan n ms (Some (revision m)))"

definition record_version :: "migration \<Rightarrow> sql_statement" where
  "record_version m = (case down_revision m of None \<Rightarrow> Insert_Version (revision m) | Some v \<Rightarrow> Update_Version v (revision m))"

definition run_migrations_offline :: "nat \<Rightarrow> migration list \<Rightarrow> string option \<Rightarrow> sql_statement list" where
  "run_migrations_offline n ms start =
     [Begin_Transaction] @ (if start = None then [Create_Version_Table] else [])
       @ concat (map (\<lambda>m. map Ddl (upgrade m) @ [record_version m]) (plan n ms start)) @ [Commit_Transaction]"

text \<open>
  Online the version table is created when it is missing, and Alembic insists that recording
  a version changes exactly one row.
\<close>

definition ensure_version_table :: "database \<Rightarrow> database" where
  "ensure_version_table d = (case version_rows d of None \<Rightarrow> d\<lparr>version_rows := Some []\<rparr> | Some _ \<Rightarrow> d)"

definition record_online :: "migration \<Rightarrow> database \<Rightarrow> database option" where
  "record_online m d =
     (case down_revision m of
        None \<Rightarrow> run_sql (Insert_Version (revision m)) d
      | Some v \<Rightarrow> (case version_rows d of
          None \<Rightarrow> None
        | Some vs \<Rightarrow> if length (filter (\<lambda>x. x = v) vs) = 1 then run_sql (Update_Version v (revision m)) d else None))"

fun run_plan :: "migration list \<Rightarrow> database \<Rightarrow> database option" where
  "run_plan [] d = Some d"
| "run_plan (m # ms) d =
     (case run_ops (upgrade m) (db_schema d) of
        None \<Rightarrow> None
      | Some s \<Rightarrow> Option.bind (record_online m (d\<lparr>db_schema := s\<rparr>)) (run_plan ms))"

text \<open>One transaction: a migration that raises rolls all of them back.\<close>

definition do_run_migrations :: "nat \<Rightarrow> migration list \<Rightarrow> database \<Rightarrow> bool \<times> database" where
  "do_run_migrations n ms d =
     (case run_plan (plan n ms (current_revision d)) (ensure_version_table d) of None \<Rightarrow> (False, d) | Some d' \<Rightarrow> (True, d'))"

text \<open>The servers by URL; connecting to a missing one raises.\<close>

type_synonym servers = "string \<Rightarrow> database option"

definition run_migrations_online :: "nat \<Rightarrow> migration list \<Rightarrow> settings \<Rightarrow> servers \<Rightarrow> bool \<times> servers" where
  "run_migrations_online n ms cfg w =
     (case w (database_url cfg) of
        None \<Rightarrow> (False, w)
      | Some d \<Rightarrow> (case do_run_migrations n ms d of (ok, d') \<Rightarrow> (ok, w(database_url cfg \<mapsto> d'))))"

datatype env_outcome = Emitted "sql_statement list" | Ran bool

definition migration_env :: "bool \<Rightarrow> nat \<Rightarrow> migration list \<Rightarrow> string option \<Rightarrow> settings \<Rightarrow> servers \<Rightarrow> env_outcome \<times> servers" where
  "migration_env offline n ms start cfg w =
     (if offline then (Emitted (run_migrations_offline n ms start), w)
      else map_prod Ran id (run_migrations_online n ms cfg w))"

subsection \<open>Lemmas\<close>

definition rows_of :: "string option \<Rightarrow> string list" where
  "rows_of v = (case v of None \<Rightarrow> [] | Some u \<Rightarrow> [u])"

lemma rows_of_simps [simp]: "rows_of None = []" "rows_of (Some u) = [u]"
  by (simp_all add: rows_of_def)

lemma record_online_at:
  "version_rows d = Some (rows_of (down_revision m)) \<Longrightarrow>
   record_online m d = Some (d\<lparr>version_rows := Some [revision m]\<rparr>)"
  by (auto simp: record_online_def split: option.splits)

lemma record_version_at:
  "version_rows d = Some (rows_of (down_revision m)) \<Longrightarrow>
   run_sql (record_version m) d = Some (d\<lparr>version_rows := Some [revision m]\<rparr>)"
  by (auto simp: record_version_def split: option.splits)

lemma planned_down: "List.find (\<lambda>m. down_revision m = v) ms = Some m \<Longrightarrow> down_revision m = v"
  by (auto simp: find_Some_iff)

text \<open>The online run is the walk over the revisions.\<close>

lemma run_plan_upgrades:
  "version_rows d = Some (rows_of v) \<Longrightarrow>
   run_plan (plan n ms v) d =
     map_option (\<lambda>(w, s). \<lparr>version_rows = Some (rows_of w), db_schema = s\<rparr>) (upgrade_head n ms (v, db_schema d))"
proof (induction n arbitrary: v d)
  case 0
  then show ?case by (cases d) simp
next
  case (Suc n)
  show ?case
  proof (cases "List.find (\<lambda>m. down_revision m = v) ms")
    case None
    then show ?thesis using Suc.prems by (cases d) simp
  next
    case (Some m)
    note dr = planned_down[OF Some]
    show ?thesis
    proof (cases "run_ops (upgrade m) (db_schema d)")
      case None
      then show ?thesis using Some by simp
    next
      case (Some s)
      have "record_online m (d\<lparr>db_schema := s\<rparr>) = Some (d\<lparr>db_schema := s, version_rows := Some [revision m]\<rparr>)"
        using Suc.prems dr by (subst record_online_at) auto
      then show ?thesis
        using Some \<open>List.find _ ms = Some m\<close> Suc.IH[of "d\<lparr>db_schema := s, version_rows := Some [revision m]\<rparr>" "Some (revision m)"] by simp
    qed
  qed
qed

text \<open>So is a script, fed to a server.\<close>

lemma feed_open:
  "x \<noteq> Commit_Transaction \<Longrightarrow>
   feed (In_Transaction c d) x = (case run_sql x d of None \<Rightarrow> Aborted c | Some d' \<Rightarrow> In_Transaction c d')"
  by (cases x) simp_all

lemma replay_simps [simp]:
  "replay s [] = s" "replay s (x # xs) = replay (feed s x) xs" "replay s (xs @ ys) = replay (replay s xs) ys"
  by (simp_all add: replay_def)

lemma replay_aborted: "Commit_Transaction \<notin> set xs \<Longrightarrow> replay (Aborted c) xs = Aborted c"
proof (induction xs)
  case (Cons x xs)
  then show ?case by (cases x) auto
qed simp

lemma replay_ddl:
  "replay (In_Transaction c d) (map Ddl xs) =
     (case run_ops xs (db_schema d) of None \<Rightarrow> Aborted c | Some s \<Rightarrow> In_Transaction c (d\<lparr>db_schema := s\<rparr>))"
proof (induction xs arbitrary: d)
  case (Cons x xs)
  show ?case
  proof (cases "apply_op x (db_schema d)")
    case None
    moreover have "Commit_Transaction \<notin> set (map Ddl xs)" by auto
    ultimately show ?thesis by (simp add: replay_aborted)
  qed (use Cons.IH in \<open>auto split: option.splits\<close>)
qed simp

lemma no_commit: "Commit_Transaction \<notin> set (map Ddl (upgrade m) @ [record_version m])"
  by (auto simp: record_version_def split: option.splits)

lemma replay_plan:
  "version_rows d = Some (rows_of v) \<Longrightarrow>
   replay (In_Transaction c d) (concat (map (\<lambda>m. map Ddl (upgrade m) @ [record_version m]) (plan n ms v))) =
     (case run_plan (plan n ms v) d of None \<Rightarrow> Aborted c | Some d' \<Rightarrow> In_Transaction c d')"
proof (induction n arbitrary: v d)
  case (Suc n)
  let ?sql = "\<lambda>m. map Ddl (upgrade m) @ [record_version m]"
  show ?case
  proof (cases "List.find (\<lambda>m. down_revision m = v) ms")
    case (Some m)
    note found = Some and dr = planned_down[OF Some]
    show ?thesis
    proof (cases "run_ops (upgrade m) (db_schema d)")
      case None
      have "record_version m \<noteq> Commit_Transaction" using no_commit[of m] by auto
      then have "feed (Aborted c) (record_version m) = Aborted c" by (cases "record_version m") simp_all
      moreover have "Commit_Transaction \<notin> set (concat (map ?sql (plan n ms (Some (revision m)))))"
        using no_commit by auto
      ultimately show ?thesis using found None by (simp add: replay_ddl replay_aborted)
    next
      case (Some s)
      let ?d = "d\<lparr>db_schema := s, version_rows := Some [revision m]\<rparr>"
      have 1: "record_online m (d\<lparr>db_schema := s\<rparr>) = Some ?d" "run_sql (record_version m) (d\<lparr>db_schema := s\<rparr>) = Some ?d"
        using Suc.prems dr by (auto simp: record_online_at record_version_at)
      have "feed (In_Transaction c (d\<lparr>db_schema := s\<rparr>)) (record_version m) = In_Transaction c ?d"
        using no_commit[of m] 1(2) by (subst feed_open) auto
      then show ?thesis
        using found Some 1(1) Suc.IH[of ?d "Some (revision m)"] by (simp add: replay_ddl)
    qed
  qed simp
qed simp

lemma ensured: "version_rows d = map_option (\<lambda>v. [v]) start \<Longrightarrow>
    current_revision d = start \<and> ensure_version_table d = d\<lparr>version_rows := Some (rows_of start)\<rparr>"
  by (cases start) (auto simp: current_revision_def ensure_version_table_def)

lemma script_replays:
  assumes "version_rows d = map_option (\<lambda>v. [v]) start"
  shows "replay (Idle d) (run_migrations_offline n ms start) = Idle (snd (do_run_migrations n ms d))"
proof -
  let ?d = "d\<lparr>version_rows := Some (rows_of start)\<rparr>"
  have "replay (Idle d) ([Begin_Transaction] @ (if start = None then [Create_Version_Table] else [])) = In_Transaction d ?d"
    using assms by (cases start) auto
  then have "replay (Idle d) (run_migrations_offline n ms start)
      = feed (case run_plan (plan n ms start) ?d of None \<Rightarrow> Aborted d | Some d' \<Rightarrow> In_Transaction d d') Commit_Transaction"
    unfolding run_migrations_offline_def using replay_plan[of ?d start d n ms] by simp
  then show ?thesis using ensured[OF assms] by (simp add: do_run_migrations_def split: option.splits)
qed

text \<open>After a downgrade to base the version table is there and empty, and the script does nothing.\<close>

lemma script_after_downgrade:
  assumes "version_rows d = Some []"
  shows "replay (Idle d) (run_migrations_offline n ms None) = Idle d"
proof -
  have "Commit_Transaction \<notin> set (concat (map (\<lambda>m. map Ddl (upgrade m) @ [record_version m]) (plan n ms None)))"
    using no_commit by auto
  then show ?thesis using assms unfolding run_migrations_offline_def by (simp add: replay_aborted)
qed

text \<open>A failed run changes nothing; a completed one records the head, and the next has nothing to do.\<close>

lemma failed_run_rolls_back: "do_run_migrations n ms d = (False, d') \<Longrightarrow> d' = d"
  by (auto simp: do_run_migrations_def split: option.splits)

lemma run_is_upgrade:
  assumes "version_rows d = Some (rows_of (current_revision d)) \<or> version_rows d = None"
  shows "do_run_migrations n ms d =
     (case upgrade_head n ms (current_revision d, db_schema d) of
        None \<Rightarrow> (False, d)
      | Some (w, s) \<Rightarrow> (True, \<lparr>version_rows = Some (rows_of w), db_schema = s\<rparr>))"
proof -
  have "version_rows (ensure_version_table d) = Some (rows_of (current_revision d))"
    "db_schema (ensure_version_table d) = db_schema d"
    using assms by (auto simp: ensure_version_table_def current_revision_def split: option.splits)
  then show ?thesis
    using run_plan_upgrades[of "ensure_version_table d" "current_revision d" n ms]
    by (auto simp: do_run_migrations_def split: option.splits)
qed

lemma migrated_once:
  assumes "do_run_migrations 10 versions fresh_database = (True, d)"
  shows "implements (db_schema d) metadata \<and> current_revision d = Some ''16054fdcfe36''
    \<and> do_run_migrations 10 versions d = (True, d)"
proof -
  obtain s where up: "upgrade_head 10 versions (None, empty_schema) = Some (Some ''16054fdcfe36'', s)"
    "implements s metadata"
    using head_schema by (auto split: option.splits)
  have "current_revision fresh_database = None" "db_schema fresh_database = empty_schema" "version_rows fresh_database = None"
    by (simp_all add: fresh_database_def current_revision_def)
  then have d: "d = \<lparr>version_rows = Some [''16054fdcfe36''], db_schema = s\<rparr>"
    using assms run_is_upgrade[of fresh_database 10 versions] up(1) by simp
  have "plan 10 versions (Some ''16054fdcfe36'') = []" by code_simp
  then show ?thesis using up(2) by (simp add: d current_revision_def do_run_migrations_def ensure_version_table_def)
qed

subsection \<open>Properties\<close>



end
