(* ===== verification/Evals.thy ===== *)
theory Evals
  imports ChangeReport Ingestion
begin

section \<open>Golden-record evaluation (src/evals)\<close>

text \<open>
  The metric definitions of evals/metrics.py, exactly in rationals, and the four runs of
  evals/harness.py over typed golden records. A record whose JSON lacks a field the run
  reads, which raises \<^verbatim>\<open>KeyError\<close>, is not modelled; theory \<^verbatim>\<open>Harness\<close> has the golden files
  and the command around the runs. Scores are kept in dictionaries, as association lists in key order.
\<close>

subsection \<open>Metrics\<close>

text \<open>\<^verbatim>\<open>xs[:k]\<close>, which counts from the end for a negative \<open>k\<close>.\<close>

definition slice_to :: "int \<Rightarrow> 'a list \<Rightarrow> 'a list" where
  "slice_to k xs = (if 0 \<le> k then take (nat k) xs else take (length xs - nat (- k)) xs)"

definition recall_at_k :: "string set \<Rightarrow> string list \<Rightarrow> int \<Rightarrow> exn + rat" where
  "recall_at_k expected retrieved k =
     (if expected = {} then Inl (Value_Error ''golden record has no expected chunks'')
      else Inr (of_nat (card (expected \<inter> set (slice_to k retrieved))) / of_nat (card expected)))"

definition citation_span_valid :: "string \<Rightarrow> int \<Rightarrow> int \<Rightarrow> string \<Rightarrow> bool" where
  "citation_span_valid t s e quoted \<longleftrightarrow>
     (if s < 0 \<or> e \<le> s \<or> int (length t) < e then False else slice t (nat s) (nat e) = quoted)"

definition citation_spans_valid :: "string \<Rightarrow> (int \<times> int) list \<Rightarrow> rat" where
  "citation_spans_valid t spans =
     (if spans = [] then 1
      else of_nat (length (filter (\<lambda>(s, e). 0 \<le> s \<and> s < e \<and> e \<le> int (length t)) spans)) / of_nat (length spans))"

definition matched_precision_recall :: "'a set \<Rightarrow> 'a list \<Rightarrow> rat \<times> rat" where
  "matched_precision_recall expected actual =
     (let matched = card (expected \<inter> set actual) in
      (if actual = [] then 0 else of_nat matched / of_nat (length actual),
       if expected = {} then 0 else of_nat matched / of_nat (card expected)))"

text \<open>
  \<^verbatim>\<open>str.casefold\<close> on Latin-1. The micro sign, which folds to a Greek letter outside
  Latin-1, stands for itself: no other character folds to that letter.
\<close>

definition casefold :: "string \<Rightarrow> string" where
  "casefold s = concat (map (\<lambda>c. if code c = 223 then ''ss'' else [lower_char c]) s)"

type_synonym match_key = "string \<times> string option"

definition owner_key :: "match_key \<Rightarrow> match_key" where
  "owner_key p = (fst p, map_option casefold (snd p))"

definition extraction_precision_recall :: "match_key list \<Rightarrow> match_key list \<Rightarrow> rat \<times> rat" where
  "extraction_precision_recall expected actual = matched_precision_recall (owner_key ` set expected) (map owner_key actual)"

definition diff_precision_recall :: "match_key list \<Rightarrow> match_key list \<Rightarrow> rat \<times> rat" where
  "diff_precision_recall expected actual =
     (if expected = [] \<and> actual = [] then (1, 1) else matched_precision_recall (set expected) actual)"

definition impact_precision_recall :: "match_key list \<Rightarrow> match_key list \<Rightarrow> rat \<times> rat" where
  "impact_precision_recall expected actual =
     (if expected = [] \<and> actual = [] then (1, 1)
      else matched_precision_recall (owner_key ` set expected) (map owner_key actual))"

subsection \<open>Scores\<close>

type_synonym scores = "(string \<times> rat) list"

definition put :: "string \<Rightarrow> 'v \<Rightarrow> (string \<times> 'v) list \<Rightarrow> (string \<times> 'v) list" where
  "put k v m = (if k \<in> fst ` set m then map (\<lambda>(k', v'). (k', if k' = k then v else v')) m else m @ [(k, v)])"

text \<open>Called with at least one record: an empty dictionary would divide by zero.\<close>

definition aggregate :: "(string \<times> scores) list \<Rightarrow> string list \<Rightarrow> scores" where
  "aggregate per_record ns =
     map (\<lambda>n. (n, sum_list (map (\<lambda>(i, sc). the (map_of sc n)) per_record) / of_nat (length per_record))) ns"

definition pr_scores :: "rat \<times> rat \<Rightarrow> scores" where
  "pr_scores p = [(''precision'', fst p), (''recall'', snd p)]"

record report =
  rp_task :: string
  rp_records :: nat
  rp_metrics :: scores
  rp_per_record :: "(string \<times> scores) list"

definition make_report :: "string \<Rightarrow> string list \<Rightarrow> (string \<times> scores) list \<Rightarrow> report" where
  "make_report task ns per_record =
     \<lparr>rp_task = task, rp_records = length per_record, rp_metrics = aggregate per_record ns, rp_per_record = per_record\<rparr>"

subsection \<open>Retrieval\<close>

definition chunk_key :: "string \<Rightarrow> nat \<Rightarrow> string" where
  "chunk_key sha ordinal = sha @ '':'' @ str_of_nat ordinal"

record retrieve_record =
  rr_id :: string
  rr_tenant :: uuid
  rr_query :: string
  rr_chunks :: "(string \<times> nat) list"

definition recall_name :: "nat \<Rightarrow> string" where
  "recall_name k = ''recall@'' @ str_of_nat k"

fun recall_scores :: "string set \<Rightarrow> string list \<Rightarrow> nat list \<Rightarrow> exn + scores" where
  "recall_scores expected retrieved [] = Inr []"
| "recall_scores expected retrieved (k # ks) =
     (case recall_at_k expected retrieved (int k) of
        Inl e \<Rightarrow> Inl e
      | Inr q \<Rightarrow> (case recall_scores expected retrieved ks of Inl e \<Rightarrow> Inl e | Inr sc \<Rightarrow> Inr ((recall_name k, q) # sc)))"

fun retrieve_from :: "'w openai \<Rightarrow> engines \<Rightarrow> request_context \<Rightarrow> nat list \<Rightarrow> (string \<times> scores) list \<Rightarrow> retrieve_record list \<Rightarrow> 'w \<Rightarrow> db
    \<Rightarrow> (exn + (string \<times> scores) list) \<times> 'w \<times> db" where
  "retrieve_from llm en ctx ks acc [] w d = (Inr acc, w, d)"
| "retrieve_from llm en ctx ks acc (r # rs) w d =
     (case search ctx llm en (rr_tenant r) (rr_query r) (Max (set ks)) w d of
        (Inl e, w', d') \<Rightarrow> (Inl e, w', d')
      | (Inr hits, w', d') \<Rightarrow>
          (case recall_scores ((\<lambda>(sha, ordinal). chunk_key sha ordinal) ` set (rr_chunks r))
                  (map (\<lambda>h. chunk_key (hit_sha h) (hit_ordinal h)) hits) ks of
             Inl e \<Rightarrow> (Inl e, w', d')
           | Inr sc \<Rightarrow> retrieve_from llm en ctx ks (put (rr_id r) sc acc) rs w' d'))"

definition run_retrieve :: "'w openai \<Rightarrow> engines \<Rightarrow> request_context \<Rightarrow> nat list \<Rightarrow> retrieve_record list \<Rightarrow> 'w \<Rightarrow> db
    \<Rightarrow> (exn + report) \<times> 'w \<times> db" where
  "run_retrieve llm en ctx ks rs w d =
     (case retrieve_from llm en ctx ks [] rs w d of
        (r, w', d') \<Rightarrow> (map_sum id (make_report ''retrieve'' (map recall_name ks)) r, w', d'))"

subsection \<open>Extraction\<close>

record extract_record =
  er_id :: string
  er_text :: string
  er_obligations :: "match_key list"

definition is_output_error :: "exn \<Rightarrow> bool" where
  "is_output_error e \<longleftrightarrow> (case e of Llm_Output_Error _ _ \<Rightarrow> True | _ \<Rightarrow> False)"

text \<open>No usage is recorded: the sink is \<^verbatim>\<open>None\<close>.\<close>

definition no_sink :: usage_sink where
  "no_sink u d = d"

definition item_spans :: "obligation_extraction \<Rightarrow> (int \<times> int) list" where
  "item_spans ex = map (\<lambda>c. (char_start c, char_end c))
     (map ob_citation (obligations ex) @ map dt_citation (defined_terms ex))"

definition extraction_scores :: "extract_record \<Rightarrow> obligation_extraction \<Rightarrow> scores" where
  "extraction_scores r ex =
     pr_scores (extraction_precision_recall (er_obligations r) (map (\<lambda>b. (ob_clause_ref b, ob_owner b)) (obligations ex)))
     @ [(''citation_validity'', citation_spans_valid (er_text r) (item_spans ex))]"

fun extract_from_records :: "'w openai \<Rightarrow> coercions \<Rightarrow> (string \<times> scores) list \<Rightarrow> extract_record list \<Rightarrow> 'w \<Rightarrow> db
    \<Rightarrow> (exn + (string \<times> scores) list) \<times> 'w \<times> db" where
  "extract_from_records llm lx acc [] w d = (Inr acc, w, d)"
| "extract_from_records llm lx acc (r # rs) w d =
     (case extract_obligations llm lx no_sink (er_text r) w d of
        (Inl e, w', d') \<Rightarrow>
          if is_output_error e
          then extract_from_records llm lx (put (er_id r) [(''precision'', 0), (''recall'', 0), (''citation_validity'', 0)] acc) rs w' d'
          else (Inl e, w', d')
      | (Inr ex, w', d') \<Rightarrow> extract_from_records llm lx (put (er_id r) (extraction_scores r ex) acc) rs w' d')"

definition run_extraction :: "'w openai \<Rightarrow> coercions \<Rightarrow> extract_record list \<Rightarrow> 'w \<Rightarrow> db \<Rightarrow> (exn + report) \<times> 'w \<times> db" where
  "run_extraction llm lx rs w d =
     (case extract_from_records llm lx [] rs w d of
        (r, w', d') \<Rightarrow>
          (map_sum id (make_report ''extract_obligations'' [''precision'', ''recall'', ''citation_validity'']) r, w', d'))"

subsection \<open>Diff\<close>

text \<open>\<^verbatim>\<open>str.encode()\<close> of a Latin-1 text; the plain-text parser decodes it again.\<close>

definition utf8_encode :: "string \<Rightarrow> bytes" where
  "utf8_encode s = concat (map (\<lambda>c. if code c < 128 then [c]
     else [char_of (192 + code c div 64), char_of (128 + code c mod 64)]) s)"

definition plain_text :: "extractors \<Rightarrow> string \<Rightarrow> exn + string" where
  "plain_text ex s = (case parse ex text_mime (utf8_encode s) of Inl e \<Rightarrow> Inl (Parse_Raised e) | Inr p \<Rightarrow> Inr (doc_text p))"

record diff_record =
  df_id :: string
  df_base :: string
  df_amended :: string
  df_changes :: "(string \<times> string option) list"

definition change_keys :: "change list \<Rightarrow> (string \<times> string option) list" where
  "change_keys cs = map (\<lambda>c. (kind_value (ch_kind c), ch_ref c)) cs"

fun diff_from :: "extractors \<Rightarrow> (string \<times> scores) list \<Rightarrow> diff_record list \<Rightarrow> exn + (string \<times> scores) list" where
  "diff_from ex acc [] = Inr acc"
| "diff_from ex acc (r # rs) =
     (case plain_text ex (df_base r) of
        Inl e \<Rightarrow> Inl e
      | Inr bt \<Rightarrow>
     (case plain_text ex (df_amended r) of
        Inl e \<Rightarrow> Inl e
      | Inr amd \<Rightarrow>
          diff_from ex (put (df_id r) (pr_scores (diff_precision_recall (df_changes r) (change_keys (detect_changes bt amd)))) acc) rs))"

definition run_diff :: "extractors \<Rightarrow> diff_record list \<Rightarrow> exn + report" where
  "run_diff ex rs = map_sum id (make_report ''diff'' [''precision'', ''recall'']) (diff_from ex [] rs)"

subsection \<open>Impact mapping\<close>

record golden_obligation =
  go_clause_ref :: string
  go_description :: string
  go_owner :: "string option"
  go_start :: int
  go_end :: int

record impact_record =
  im_id :: string
  im_base :: string
  im_amended :: string
  im_obligations :: "golden_obligation list"
  im_changes :: "((string \<times> string option) \<times> match_key list) list"

definition golden_candidates :: "golden_obligation list \<Rightarrow> obligation list" where
  "golden_candidates os = map (\<lambda>o'. \<lparr>ob_clause_ref = go_clause_ref o', ob_description = go_description o', ob_owner = go_owner o',
     ob_citation = \<lparr>char_start = go_start o', char_end = go_end o'\<rparr>, ob_confidence = 1\<rparr>) (take candidate_limit os)"

definition change_key :: "change \<Rightarrow> string" where
  "change_key c = kind_value (ch_kind c) @ '':'' @ (case ch_ref c of None \<Rightarrow> ''None'' | Some r \<Rightarrow> r)"

text \<open>Of two expected changes with one key the last one counts.\<close>

definition affected_for :: "((string \<times> string option) \<times> match_key list) list \<Rightarrow> change \<Rightarrow> match_key list" where
  "affected_for expected c = (case map_of (rev expected) (kind_value (ch_kind c), ch_ref c) of None \<Rightarrow> [] | Some xs \<Rightarrow> xs)"

fun impact_from_changes :: "'w openai \<Rightarrow> coercions \<Rightarrow> obligation list \<Rightarrow> ((string \<times> string option) \<times> match_key list) list
    \<Rightarrow> string \<Rightarrow> string \<Rightarrow> (string \<times> scores) list \<Rightarrow> change list \<Rightarrow> 'w \<Rightarrow> db \<Rightarrow> (exn + (string \<times> scores) list) \<times> 'w \<times> db" where
  "impact_from_changes llm lx cands expected bt amd acc [] w d = (Inr acc, w, d)"
| "impact_from_changes llm lx cands expected bt amd acc (c # cs) w d =
     (case (if cands = [] then (Inr [], w, d) else map_change_impacts llm lx no_sink c cands bt amd w d) of
        (Inl e, w', d') \<Rightarrow>
          if is_output_error e
          then impact_from_changes llm lx cands expected bt amd (put (change_key c) (pr_scores (0, 0)) acc) cs w' d'
          else (Inl e, w', d')
      | (Inr mapped, w', d') \<Rightarrow>
          impact_from_changes llm lx cands expected bt amd
            (put (change_key c) (pr_scores (impact_precision_recall (affected_for expected c)
               (map (\<lambda>(b, q). (ob_clause_ref b, ob_owner b)) mapped))) acc) cs w' d')"

definition impact_record_scores :: "(string \<times> scores) list \<Rightarrow> scores" where
  "impact_record_scores per_change =
     (if per_change \<noteq> [] then aggregate per_change [''precision'', ''recall''] else pr_scores (1, 1))"

fun impact_from :: "'w openai \<Rightarrow> coercions \<Rightarrow> extractors \<Rightarrow> (string \<times> scores) list \<Rightarrow> impact_record list \<Rightarrow> 'w \<Rightarrow> db
    \<Rightarrow> (exn + (string \<times> scores) list) \<times> 'w \<times> db" where
  "impact_from llm lx ex acc [] w d = (Inr acc, w, d)"
| "impact_from llm lx ex acc (r # rs) w d =
     (case plain_text ex (im_base r) of
        Inl e \<Rightarrow> (Inl e, w, d)
      | Inr bt \<Rightarrow>
     (case plain_text ex (im_amended r) of
        Inl e \<Rightarrow> (Inl e, w, d)
      | Inr amd \<Rightarrow>
          (case impact_from_changes llm lx (golden_candidates (im_obligations r)) (im_changes r) bt amd [] (detect_changes bt amd) w d of
             (Inl e, w', d') \<Rightarrow> (Inl e, w', d')
           | (Inr per_change, w', d') \<Rightarrow> impact_from llm lx ex (put (im_id r) (impact_record_scores per_change) acc) rs w' d')))"

definition run_impact :: "'w openai \<Rightarrow> coercions \<Rightarrow> extractors \<Rightarrow> impact_record list \<Rightarrow> 'w \<Rightarrow> db \<Rightarrow> (exn + report) \<times> 'w \<times> db" where
  "run_impact llm lx ex rs w d =
     (case impact_from llm lx ex [] rs w d of
        (r, w', d') \<Rightarrow> (map_sum id (make_report ''impact_map'' [''precision'', ''recall'']) r, w', d'))"

subsection \<open>The harness\<close>

datatype golden =
    Task_Retrieve "nat list" "retrieve_record list"
  | Task_Extract "extract_record list"
  | Task_Diff "diff_record list"
  | Task_Impact "impact_record list"

definition default_ks :: "nat list" where
  "default_ks = [5, 10]"

fun golden_size :: "golden \<Rightarrow> nat" where
  "golden_size (Task_Retrieve ks rs) = length rs"
| "golden_size (Task_Extract rs) = length rs"
| "golden_size (Task_Diff rs) = length rs"
| "golden_size (Task_Impact rs) = length rs"

text \<open>Without golden records there is no report.\<close>

definition run_golden :: "'w openai \<Rightarrow> coercions \<Rightarrow> extractors \<Rightarrow> engines \<Rightarrow> request_context \<Rightarrow> golden \<Rightarrow> 'w \<Rightarrow> db
    \<Rightarrow> (exn + report option) \<times> 'w \<times> db" where
  "run_golden llm lx ex en ctx g w d =
     (if golden_size g = 0 then (Inr None, w, d)
      else (case (case g of
            Task_Retrieve ks rs \<Rightarrow> run_retrieve llm en ctx (if ks = [] then default_ks else ks) rs w d
          | Task_Extract rs \<Rightarrow> run_extraction llm lx rs w d
          | Task_Diff rs \<Rightarrow> (run_diff ex rs, w, d)
          | Task_Impact rs \<Rightarrow> run_impact llm lx ex rs w d) of
          (r, w', d') \<Rightarrow> (map_sum id Some r, w', d')))"

subsection \<open>Lemmas: scores stay within bounds\<close>

definition unit :: "rat \<Rightarrow> bool" where
  "unit q \<longleftrightarrow> 0 \<le> q \<and> q \<le> 1"

text \<open>Every score of a dictionary is in bounds, and it has the names asked for.\<close>

definition scores_ok :: "string list \<Rightarrow> scores \<Rightarrow> bool" where
  "scores_ok ns sc \<longleftrightarrow> map fst sc = ns \<and> (\<forall>p \<in> set sc. unit (snd p))"

definition all_ok :: "string list \<Rightarrow> (string \<times> scores) list \<Rightarrow> bool" where
  "all_ok ns m \<longleftrightarrow> (\<forall>p \<in> set m. scores_ok ns (snd p))"

lemma unit_ratio: "m \<le> n \<Longrightarrow> unit (of_nat m / of_nat n)"
  by (cases "n = 0") (simp_all add: unit_def divide_le_eq)

lemma unit_simps [simp]: "unit 0" "unit 1"
  by (simp_all add: unit_def)

lemma unit_card: "unit (of_nat (card (xs \<inter> ys)) / of_nat (card xs))"
proof (cases "finite xs")
  case True
  then show ?thesis by (intro unit_ratio card_mono) simp_all
qed simp

lemma recall_unit: "recall_at_k expected retrieved k = Inr q \<Longrightarrow> unit q"
  by (auto simp: recall_at_k_def unit_card split: if_splits)

lemma spans_unit: "unit (citation_spans_valid t spans)"
  by (simp add: citation_spans_valid_def unit_ratio)

lemma matched_unit:
  assumes "finite expected"
  shows "unit (fst (matched_precision_recall expected actual))" "unit (snd (matched_precision_recall expected actual))"
proof -
  have "card (expected \<inter> set actual) \<le> card (set actual)" by (rule card_mono) simp_all
  then have "card (expected \<inter> set actual) \<le> length actual" using card_length[of actual] by linarith
  moreover have "card (expected \<inter> set actual) \<le> card expected" by (rule card_mono[OF assms]) simp
  ultimately show "unit (fst (matched_precision_recall expected actual))" "unit (snd (matched_precision_recall expected actual))"
    by (simp_all add: matched_precision_recall_def Let_def unit_ratio)
qed

lemma pr_unit:
  "scores_ok [''precision'', ''recall''] (pr_scores (extraction_precision_recall xs ys))"
  "scores_ok [''precision'', ''recall''] (pr_scores (diff_precision_recall xs ys))"
  "scores_ok [''precision'', ''recall''] (pr_scores (impact_precision_recall xs ys))"
  by (simp_all add: scores_ok_def pr_scores_def extraction_precision_recall_def diff_precision_recall_def
      impact_precision_recall_def matched_unit)

lemma sum_unit: "(\<And>x. x \<in> set xs \<Longrightarrow> unit (f x)) \<Longrightarrow> 0 \<le> sum_list (map f xs) \<and> sum_list (map f xs) \<le> of_nat (length xs)"
proof (induction xs)
  case (Cons x xs)
  then have "unit (f x)" "0 \<le> sum_list (map f xs) \<and> sum_list (map f xs) \<le> of_nat (length xs)" by simp_all
  then show ?case by (simp add: unit_def)
qed simp

lemma map_of_mem: "n \<in> fst ` set m \<Longrightarrow> (n, the (map_of m n)) \<in> set m"
  by (induction m) auto

lemma aggregate_ok:
  assumes "all_ok ns m"
  shows "scores_ok ns (aggregate m ns)"
proof -
  have "unit (the (map_of (snd p) n))" if "p \<in> set m" "n \<in> set ns" for p n
  proof -
    have sc: "map fst (snd p) = ns" "\<forall>q \<in> set (snd p). unit (snd q)" using assms that(1) by (simp_all add: all_ok_def scores_ok_def)
    have "n \<in> fst ` set (snd p)" using that(2) sc(1) by (metis list.set_map)
    from bspec[OF sc(2) map_of_mem[OF this]] show ?thesis by simp
  qed
  then have u: "unit (sum_list (map (\<lambda>p. the (map_of (snd p) n)) m) / of_nat (length m))" if "n \<in> set ns" for n
    using sum_unit[of m "\<lambda>p. the (map_of (snd p) n)"] that by (cases "m = []") (simp_all add: unit_def divide_le_eq)
  then show ?thesis by (auto simp: scores_ok_def aggregate_def case_prod_unfold comp_def)
qed

lemma put_ok: "all_ok ns m \<Longrightarrow> scores_ok ns sc \<Longrightarrow> all_ok ns (put i sc m)"
  by (auto simp: all_ok_def put_def)

lemma all_ok_Nil: "all_ok ns []"
  by (simp add: all_ok_def)

lemma put_nonempty: "put i v m \<noteq> []"
  by (auto simp: put_def)

lemma recall_scores_ok: "recall_scores expected retrieved ks = Inr sc \<Longrightarrow> scores_ok (map recall_name ks) sc"
  by (induction ks arbitrary: sc) (auto simp: scores_ok_def recall_unit split: sum.splits)

lemma retrieve_from_ok:
  "retrieve_from llm en ctx ks acc rs w d = (Inr m, w', d') \<Longrightarrow> all_ok (map recall_name ks) acc \<Longrightarrow> all_ok (map recall_name ks) m"
  by (induction rs arbitrary: acc w d) (auto split: prod.splits sum.splits dest: put_ok[OF _ recall_scores_ok])

lemma extraction_scores_ok: "scores_ok [''precision'', ''recall'', ''citation_validity''] (extraction_scores r ex)"
  using pr_unit(1)[of "er_obligations r" "map (\<lambda>b. (ob_clause_ref b, ob_owner b)) (obligations ex)"]
  by (simp add: extraction_scores_def scores_ok_def pr_scores_def spans_unit)

lemma extract_records_ok:
  "extract_from_records llm lx acc rs w d = (Inr m, w', d') \<Longrightarrow> all_ok [''precision'', ''recall'', ''citation_validity''] acc \<Longrightarrow>
   all_ok [''precision'', ''recall'', ''citation_validity''] m"
proof (induction rs arbitrary: acc w d)
  case (Cons r rs)
  have zero: "scores_ok [''precision'', ''recall'', ''citation_validity''] [(''precision'', 0), (''recall'', 0), (''citation_validity'', 0)]"
    by (simp add: scores_ok_def)
  show ?case using Cons put_ok[OF Cons.prems(2) zero] put_ok[OF Cons.prems(2) extraction_scores_ok]
    by (auto split: prod.splits sum.splits if_splits)
qed simp

lemma diff_from_ok:
  "diff_from ex acc rs = Inr m \<Longrightarrow> all_ok [''precision'', ''recall''] acc \<Longrightarrow> all_ok [''precision'', ''recall''] m"
  by (induction rs arbitrary: acc) (auto split: sum.splits intro: put_ok pr_unit)

lemma impact_changes_ok:
  "impact_from_changes llm lx cands expected bt amd acc cs w d = (Inr m, w', d') \<Longrightarrow> all_ok [''precision'', ''recall''] acc \<Longrightarrow>
   all_ok [''precision'', ''recall''] m"
proof (induction cs arbitrary: acc w d)
  case (Cons c cs)
  have zero: "scores_ok [''precision'', ''recall''] (pr_scores (0, 0))" by (simp add: scores_ok_def pr_scores_def)
  obtain r w1 d1 where run: "(if cands = [] then (Inr [], w, d) else map_change_impacts llm lx no_sink c cands bt amd w d) = (r, w1, d1)"
    by (metis prod_cases3)
  show ?case
  proof (cases r)
    case (Inl e)
    then show ?thesis using Cons.IH[OF _ put_ok[OF Cons.prems(2) zero]] Cons.prems(1) run by (auto split: if_splits)
  next
    case (Inr mapped)
    then show ?thesis using Cons.IH[OF _ put_ok[OF Cons.prems(2) pr_unit(3)]] Cons.prems(1) run by auto
  qed
qed simp

lemma impact_record_ok: "all_ok [''precision'', ''recall''] m \<Longrightarrow> scores_ok [''precision'', ''recall''] (impact_record_scores m)"
  using aggregate_ok by (simp add: impact_record_scores_def) (simp add: scores_ok_def pr_scores_def)

lemma impact_from_ok:
  "impact_from llm lx ex acc rs w d = (Inr m, w', d') \<Longrightarrow> all_ok [''precision'', ''recall''] acc \<Longrightarrow> all_ok [''precision'', ''recall''] m"
  by (induction rs arbitrary: acc w d)
    (auto split: sum.splits prod.splits dest: put_ok[OF _ impact_record_ok[OF impact_changes_ok[OF _ all_ok_Nil]]])

definition report_ok :: "report \<Rightarrow> bool" where
  "report_ok r \<longleftrightarrow> (\<exists>ns. scores_ok ns (rp_metrics r) \<and> all_ok ns (rp_per_record r))"

lemma make_report_ok: "all_ok ns m \<Longrightarrow> report_ok (make_report task ns m)"
  unfolding report_ok_def make_report_def by (intro exI[of _ ns]) (simp add: aggregate_ok)

subsection \<open>Lemmas: plain texts\<close>

lemma utf8_encode_Cons: "utf8_encode (c # s) = (if code c < 128 then [c]
   else [char_of (192 + code c div 64), char_of (128 + code c mod 64)]) @ utf8_encode s"
  by (simp add: utf8_encode_def)

lemma decode_encode: "utf8_decode (utf8_encode s) = Some (map code s)"
proof (induction s)
  case (Cons c s)
  let ?a = "char_of (192 + code c div 64)" and ?b = "char_of (128 + code c mod 64)"
  have "code c div 64 < 4" by (rule less_mult_imp_div_less) simp
  then have c: "code c div 64 \<le> 3" "code c mod 64 < 64" by simp_all
  show ?case
  proof (cases "code c < 128")
    case False
    have a: "code ?a = 192 + code c div 64" "code ?b = 128 + code c mod 64" using c by (simp_all only: code_char_of)
    have "1 < code c div 64" using False by (simp add: div_less_iff_less_mult not_less)
    then have "utf8_decode (?a # ?b # utf8_encode s) = map_option (Cons (code c div 64 * 64 + code c mod 64)) (Some (map code s))"
      using c Cons by (simp add: a is_cont_def cont_def)
    then show ?thesis using False by (simp add: utf8_encode_Cons)
  qed (simp add: utf8_encode_Cons Cons)
qed (simp add: utf8_encode_def)

lemma plain_text_always: "\<exists>t. plain_text ex s = Inr t"
proof -
  have "list_all (\<lambda>n. n < 256) (map code s)" by (simp add: list_all_iff)
  then have "parse ex text_mime (utf8_encode s) = Inr (build (text_entries s))"
    by (simp add: parse_def text_mime_def pdf_mime_def docx_mime_def parse_text_def decode_encode comp_def)
  then show ?thesis by (simp add: plain_text_def)
qed

lemma card_inter_all: "finite xs \<Longrightarrow> card (xs \<inter> ys) = card xs \<longleftrightarrow> xs \<subseteq> ys"
  by (metis card_subset_eq inf.absorb_iff1 inf_le1)

lemma card_inter_length: "card (xs \<inter> set ys) = length ys \<longleftrightarrow> distinct ys \<and> set ys \<subseteq> xs"
proof -
  have "card (xs \<inter> set ys) \<le> card (set ys)" by (rule card_mono) simp_all
  moreover have "card (set ys) \<le> length ys" by (rule card_length)
  moreover have "card (xs \<inter> set ys) = card (set ys) \<longleftrightarrow> set ys \<subseteq> xs" using card_inter_all[of "set ys" xs] by (simp add: Int_commute)
  moreover have "card (set ys) = length ys \<longleftrightarrow> distinct ys" by (metis card_distinct distinct_card)
  ultimately show ?thesis by linarith
qed

subsection \<open>Properties\<close>


definition sample_record :: diff_record where
  "sample_record = \<lparr>df_id = ''r1'', df_base = ''1. Pay now'', df_amended = ''1. Pay later'', df_changes = [(''modified'', Some ''1'')]\<rparr>"


text \<open>
  What a perfect diff score means: precision is one exactly when the changes reported
  are all expected and none is reported twice, recall is one exactly when every expected
  change is reported; and no expected and no reported change score one.
\<close>

theorem perfect_diff_scores:
  "(fst (diff_precision_recall expected actual) = 1
      \<longleftrightarrow> (if actual = [] then expected = [] else distinct actual \<and> set actual \<subseteq> set expected))
   \<and> (snd (diff_precision_recall expected actual) = 1
      \<longleftrightarrow> (if expected = [] then actual = [] else set expected \<subseteq> set actual))"
  using card_inter_length[of "set expected" actual] card_inter_all[of "set expected" "set actual"]
  by (auto simp: diff_precision_recall_def matched_precision_recall_def Let_def divide_eq_1_iff simp flip: of_nat_eq_iff)

text \<open>
  An expected change the diff does not detect costs an impact-mapping record nothing: a
  record whose two texts are the same scores one for precision and recall without a call,
  whatever changes it expects.
\<close>

theorem missed_changes_score_full:
  "\<exists>rep. run_impact llm lx ex [r\<lparr>im_amended := im_base r\<rparr>] w d = (Inr rep, w, d)
     \<and> rp_metrics rep = [(''precision'', 1), (''recall'', 1)]"
proof -
  obtain t where "plain_text ex (im_base r) = Inr t" using plain_text_always by blast
  then show ?thesis
    by (simp add: run_impact_def unchanged_text impact_record_scores_def pr_scores_def put_def make_report_def aggregate_def)
qed

end
