(* ===== verification/JsonText.thy ===== *)
theory JsonText
  imports Json
begin

section \<open>JSON as text: what json.dumps writes\<close>

text \<open>
  \<^verbatim>\<open>json.dumps\<close> with its defaults, which the log formatter and the tool loop call: ASCII
  output with the short escapes, a comma and a space between items, a colon and a space
  after a key. The rendering of a number (\<^verbatim>\<open>int.__repr__\<close> or \<^verbatim>\<open>float.__repr__\<close>) is a parameter.
\<close>

definition backslash :: char where
  "backslash = char_of (92 :: nat)"

definition double_quote :: char where
  "double_quote = char_of (34 :: nat)"

definition escape_char :: "char \<Rightarrow> string" where
  "escape_char c =
     (if c = double_quote \<or> c = backslash then [backslash, c]
      else if code c = 10 then [backslash, CHR ''n'']
      else if code c = 13 then [backslash, CHR ''r'']
      else if code c = 9 then [backslash, CHR ''t'']
      else if code c = 12 then [backslash, CHR ''f'']
      else if code c = 8 then [backslash, CHR ''b'']
      else if 32 \<le> code c \<and> code c \<le> 126 then [c]
      else [backslash, CHR ''u''] @ hex_digits 4 (code c))"

definition dumps_string :: "string \<Rightarrow> string" where
  "dumps_string s = [double_quote] @ concat (map escape_char s) @ [double_quote]"

fun dumps :: "(rat \<Rightarrow> string) \<Rightarrow> json \<Rightarrow> string" where
  "dumps num JNull = ''null''"
| "dumps num (JBool b) = (if b then ''true'' else ''false'')"
| "dumps num (JNum q) = num q"
| "dumps num (JStr s) = dumps_string s"
| "dumps num (JArr vs) = ''['' @ join '', '' (map (dumps num) vs) @ '']''"
| "dumps num (JObj kvs) = ''{'' @ join '', '' (map (\<lambda>kv. dumps_string (fst kv) @ '': '' @ dumps num (snd kv)) kvs) @ ''}''"

subsection \<open>One line of printable ASCII\<close>

definition printable :: "char \<Rightarrow> bool" where
  "printable c \<longleftrightarrow> 32 \<le> code c \<and> code c \<le> 126"

lemma hex_char_printable: "d < 16 \<Longrightarrow> printable (hex_char d)"
  by (auto simp: printable_def hex_char_def digit_char_def)

lemma hex_digits_printable: "list_all printable (hex_digits k n)"
  by (induction k n rule: hex_digits.induct) (simp_all add: hex_char_printable)

lemma escape_printable: "list_all printable (escape_char c)"
  by (simp add: escape_char_def hex_digits_printable) (auto simp: printable_def backslash_def double_quote_def)

lemma dumps_string_printable: "list_all printable (dumps_string s)"
proof -
  have "list_all printable (concat (map escape_char s))"
    by (induction s) (simp_all add: escape_printable)
  then show ?thesis by (simp add: dumps_string_def printable_def double_quote_def)
qed

lemma join_printable: "list_all printable sep \<Longrightarrow> list_all (list_all printable) xs \<Longrightarrow> list_all printable (join sep xs)"
  by (induction sep xs rule: join.induct) simp_all

lemma list_all_mapI: "(\<And>x. x \<in> set xs \<Longrightarrow> P (f x)) \<Longrightarrow> list_all P (map f xs)"
  by (induction xs) auto

lemma printable_marks:
  "list_all printable '', ''" "list_all printable '': ''" "list_all printable ''[''" "list_all printable '']''"
  "list_all printable ''{''" "list_all printable ''}''" "list_all printable ''null''" "list_all printable ''true''"
  "list_all printable ''false''"
  by (simp_all add: printable_def)

lemmas join_items = join_printable[OF printable_marks(1)]

lemma dumps_printable:
  assumes "\<And>q. list_all printable (num q)"
  shows "list_all printable (dumps num v)"
proof (induction v)
  case (JArr vs)
  then have "list_all (list_all printable) (map (dumps num) vs)" by (simp add: list_all_iff)
  then have "list_all printable (join '', '' (map (dumps num) vs))" by (rule join_items)
  then show ?case unfolding dumps.simps list_all_append using printable_marks by blast
next
  case (JObj kvs)
  have "list_all printable (dumps_string (fst kv) @ '': '' @ dumps num (snd kv))" if "kv \<in> set kvs" for kv
    unfolding list_all_append using JObj[OF that] dumps_string_printable printable_marks by (cases kv) auto
  then have "list_all (list_all printable) (map (\<lambda>kv. dumps_string (fst kv) @ '': '' @ dumps num (snd kv)) kvs)"
    by (rule list_all_mapI)
  then have "list_all printable (join '', '' (map (\<lambda>kv. dumps_string (fst kv) @ '': '' @ dumps num (snd kv)) kvs))" by (rule join_items)
  then show ?case unfolding dumps.simps list_all_append using printable_marks by blast
qed (simp_all only: dumps.simps assms dumps_string_printable printable_marks if_split simp_thms)

end
