(* ===== verification/Process.thy ===== *)
theory Process
  imports Worker Auth JsonText
begin

section \<open>The two processes: logging, engine, start-up and shutdown\<close>

text \<open>
  app/logging\_config.py, app/db.py, and what app/main.py and app/worker.py do around the
  HTTP application and the polling loop. The state of a process is what the module-level
  singletons hold: the logging configuration, the Sentry client, the database engine (its
  URL; whether its pool is open) and the cached JWKS clients. The exporters, the pool and
  the rendering of time stamps and tracebacks belong to libraries.
\<close>

subsection \<open>Log records (app/logging\_config.py)\<close>

record log_record =
  lr_created :: time
  lr_level :: string
  lr_logger :: string
  lr_message :: string
  lr_exception :: "string option"
  lr_request_id :: "string option"

text \<open>\<^verbatim>\<open>RequestIdFilter\<close> keeps every record and names the active request, or a dash.\<close>

definition request_id_filter :: "request_context \<Rightarrow> log_record \<Rightarrow> bool \<times> log_record" where
  "request_id_filter ctx r =
     (True, r\<lparr>lr_request_id := Some (if current_request_id ctx = [] then ''-'' else current_request_id ctx)\<rparr>)"

definition log_payload :: "(time \<Rightarrow> string) \<Rightarrow> log_record \<Rightarrow> json" where
  "log_payload isoformat r = JObj
     ([(''ts'', JStr (isoformat (lr_created r))), (''level'', JStr (lr_level r)), (''logger'', JStr (lr_logger r)),
       (''request_id'', JStr (case lr_request_id r of None \<Rightarrow> ''-'' | Some i \<Rightarrow> i)), (''message'', JStr (lr_message r))]
      @ (case lr_exception r of None \<Rightarrow> [] | Some t \<Rightarrow> [(''exc'', JStr t)]))"

text \<open>\<^verbatim>\<open>JsonFormatter.format\<close>. The payload has no numbers.\<close>

definition json_format :: "(time \<Rightarrow> string) \<Rightarrow> log_record \<Rightarrow> string" where
  "json_format isoformat r = dumps (\<lambda>_. []) (log_payload isoformat r)"

definition ljust :: "nat \<Rightarrow> string \<Rightarrow> string" where
  "ljust n s = s @ replicate (n - length s) (CHR '' '')"

text \<open>The console format, with the traceback on the lines after the message.\<close>

definition text_format :: "(time \<Rightarrow> string) \<Rightarrow> log_record \<Rightarrow> string" where
  "text_format asctime r =
     (let line = asctime (lr_created r) @ '' '' @ ljust 8 (lr_level r) @ '' request_id=''
          @ (case lr_request_id r of None \<Rightarrow> [] | Some i \<Rightarrow> i) @ '' '' @ lr_logger r @ '' '' @ lr_message r
      in case lr_exception r of
           None \<Rightarrow> line
         | Some t \<Rightarrow> (if last line = char_of (10 :: nat) then line else line @ [char_of (10 :: nat)]) @ t)"

subsection \<open>The singletons of a process\<close>

record log_config =
  lc_json :: bool
  lc_level :: string

record sentry_config =
  sn_dsn :: string
  sn_environment :: "string option"
  sn_traces_sample_rate :: rat

record 'k process =
  pr_logging :: "log_config option"
  pr_sentry :: "sentry_config option"
  pr_engine :: "string option"
  pr_pool_open :: bool
  pr_jwks :: "'k jwks_clients"

text \<open>\<^verbatim>\<open>str.upper\<close> of a level name, which is ASCII.\<close>

definition upper_ascii :: "string \<Rightarrow> string" where
  "upper_ascii s = map (\<lambda>c. if 97 \<le> code c \<and> code c \<le> 122 then char_of (code c - 32) else c) s"

definition configure_logging :: "string \<Rightarrow> string \<Rightarrow> 'k process \<Rightarrow> 'k process" where
  "configure_logging level fmt p = p\<lparr>pr_logging := Some \<lparr>lc_json = (fmt = ''json''), lc_level = upper_ascii level\<rparr>\<rparr>"

definition init_sentry :: "string \<Rightarrow> string \<Rightarrow> 'k process \<Rightarrow> 'k process" where
  "init_sentry dsn environment p =
     (if dsn = [] then p
      else p\<lparr>pr_sentry := Some \<lparr>sn_dsn = dsn, sn_environment = (if environment = [] then None else Some environment),
               sn_traces_sample_rate = 0\<rparr>\<rparr>)"

definition init_engine :: "string \<Rightarrow> 'k process \<Rightarrow> 'k process" where
  "init_engine url p = p\<lparr>pr_engine := Some url, pr_pool_open := True\<rparr>"

definition dispose_engine :: "'k process \<Rightarrow> 'k process" where
  "dispose_engine p = (if pr_engine p = None then p else p\<lparr>pr_pool_open := False\<rparr>)"

definition not_initialised :: string where
  "not_initialised = ''database engine not initialised; call init_engine first''"

text \<open>The session factory, and the dependency that opens a session; \<open>Inl\<close>: \<^verbatim>\<open>RuntimeError\<close>.\<close>

definition get_sessionmaker :: "'k process \<Rightarrow> string + string" where
  "get_sessionmaker p = (case pr_engine p of None \<Rightarrow> Inl not_initialised | Some url \<Rightarrow> Inr url)"

definition get_session :: "'k process \<Rightarrow> string + string" where
  "get_session p = (case pr_engine p of None \<Rightarrow> Inl not_initialised | Some url \<Rightarrow> Inr url)"

text \<open>
  What the root handler writes for a record that reaches it; which levels do is up to the
  logging library. Nothing is written before the configuration.
\<close>

definition emit :: "(time \<Rightarrow> string) \<Rightarrow> 'k process \<Rightarrow> request_context \<Rightarrow> log_record \<Rightarrow> string option" where
  "emit isoformat p ctx r =
     (case pr_logging p of
        None \<Rightarrow> None
      | Some c \<Rightarrow> (case request_id_filter ctx r of (keep, r') \<Rightarrow>
          if \<not> keep then None else Some ((if lc_json c then json_format else text_format) isoformat r')))"

subsection \<open>The API process (app/main.py)\<close>

definition lifespan_startup :: "settings \<Rightarrow> 'k process \<Rightarrow> 'k process" where
  "lifespan_startup s p =
     init_engine (database_url s) (init_sentry (sentry_dsn s) (sentry_environment s) (configure_logging (log_level s) (log_format s) p))"

definition aclose_cached_jwks_clients :: "'k process \<Rightarrow> 'k process" where
  "aclose_cached_jwks_clients p = p\<lparr>pr_jwks := []\<rparr>"

definition lifespan_shutdown :: "'k process \<Rightarrow> 'k process" where
  "lifespan_shutdown p = aclose_cached_jwks_clients (dispose_engine p)"

record fast_api =
  app_title :: string
  app_root_path :: string
  app_middleware :: "string list"
  app_routers :: "string list"

definition create_app :: "settings \<Rightarrow> fast_api" where
  "create_app s = \<lparr>app_title = ''contract-change-intel'', app_root_path = root_path s,
     app_middleware = [''RequestIDMiddleware''],
     app_routers = [''health'', ''documents'', ''extraction'', ''ingestion'', ''search'', ''change_reports'', ''reviews'',
       ''audit'', ''usage'']\<rparr>"

subsection \<open>The worker process (app/worker.py)\<close>

text \<open>
  \<^verbatim>\<open>main\<close>: the client is made before the engine; the loop runs with the engine open, and
  whatever ends it, the engine is disposed.
\<close>

definition worker_process :: "settings \<Rightarrow> 'w worker_env \<Rightarrow> time list \<Rightarrow> 'w \<Rightarrow> db \<Rightarrow> 'k process
    \<Rightarrow> (exn + (exn + bool) list) \<times> 'w \<times> db \<times> 'k process" where
  "worker_process s env ts w d p =
     (let p1 = init_sentry (sentry_dsn s) (sentry_environment s) (configure_logging (log_level s) (log_format s) p) in
      case make_client (openai_api_key s) (env_llm env) of
        Inl e \<Rightarrow> (Inl e, w, d, p1)
      | Inr llm \<Rightarrow>
          (let p2 = init_engine (database_url s) p1;
               env' = env\<lparr>env_llm := llm, env_data_dir := data_dir s,
                 env_extraction_threshold := review_confidence_threshold_extraction s,
                 env_impact_threshold := review_confidence_threshold_impact s\<rparr>
           in case worker_loop env' 0 ts w d of (rs, w', d') \<Rightarrow> (Inr rs, w', d', dispose_engine p2)))"

subsection \<open>Lemmas\<close>

text \<open>Start-up opens the engine whatever was there before; shutdown closes it and keeps its factory.\<close>

lemma lifespan_opens: "get_session (lifespan_startup s p) = Inr (database_url s) \<and> pr_pool_open (lifespan_startup s p)"
  by (simp add: lifespan_startup_def init_engine_def get_session_def)

lemma lifespan_closes:
  "\<not> pr_pool_open (lifespan_shutdown (lifespan_startup s p)) \<and> pr_jwks (lifespan_shutdown (lifespan_startup s p)) = []"
  by (simp add: lifespan_shutdown_def lifespan_startup_def init_engine_def dispose_engine_def aclose_cached_jwks_clients_def)

text \<open>Without an API key the worker stops before it opens the engine; otherwise it leaves it disposed.\<close>

lemma worker_fails_fast:
  assumes "worker_process s env ts w d p = (r, w', d', p')"
  shows "if openai_api_key s = []
     then r = Inl Llm_Not_Configured \<and> w' = w \<and> d' = d \<and> pr_engine p' = pr_engine p \<and> pr_pool_open p' = pr_pool_open p
     else (\<exists>rs. r = Inr rs) \<and> pr_engine p' = Some (database_url s) \<and> \<not> pr_pool_open p'"
  using assms by (auto simp: worker_process_def make_client_def init_sentry_def configure_logging_def init_engine_def
      dispose_engine_def Let_def split: prod.splits if_splits)

text \<open>The worker's environment is the given one up to what the settings decide, so its loop obeys the worker's laws.\<close>

lemma worker_process_service:
  assumes "service_ok d" "worker_process s env ts w d p = (r, w', d', p')"
  shows "service_ok d'"
proof (cases "openai_api_key s = []")
  case True
  then show ?thesis using worker_fails_fast[OF assms(2)] assms(1) by simp
next
  case False
  then obtain e rs where "worker_loop e 0 ts w d = (rs, w', d')"
    using assms(2) by (auto simp: worker_process_def make_client_def Let_def split: prod.splits)
  from worker_loop_laws[OF assms(1) this] show ?thesis by blast
qed

subsection \<open>Properties\<close>

text \<open>
  In the JSON format every log record handled is exactly one line of printable ASCII, whatever
  the message, the traceback, the logger or the request id contain, so no logged text can
  forge a record; it is one object with the fixed keys in order, whose request id is that of
  the active request or a dash, and whose message is the record's.
\<close>

theorem json_log_is_one_line:
  assumes "pr_logging p = Some c" "lc_json c"
  shows "\<exists>line fields. emit isoformat p ctx r = Some line \<and> line = dumps (\<lambda>_. []) (JObj fields) \<and> list_all printable line
    \<and> map fst fields = [''ts'', ''level'', ''logger'', ''request_id'', ''message''] @ (if lr_exception r = None then [] else [''exc''])
    \<and> map_of fields ''message'' = Some (JStr (lr_message r))
    \<and> map_of fields ''request_id'' = Some (JStr (if current_request_id ctx = [] then ''-'' else current_request_id ctx))"
proof -
  let ?r = "snd (request_id_filter ctx r)"
  obtain fields where f: "log_payload isoformat ?r = JObj fields" by (simp add: log_payload_def)
  have "map fst fields = [''ts'', ''level'', ''logger'', ''request_id'', ''message''] @ (if lr_exception r = None then [] else [''exc''])"
    "map_of fields ''message'' = Some (JStr (lr_message r))"
    "map_of fields ''request_id'' = Some (JStr (if current_request_id ctx = [] then ''-'' else current_request_id ctx))"
    using f by (auto simp: log_payload_def request_id_filter_def split: option.splits)
  moreover have "emit isoformat p ctx r = Some (dumps (\<lambda>_. []) (JObj fields))"
    using assms f by (simp add: emit_def json_format_def request_id_filter_def)
  moreover have "list_all printable (dumps (\<lambda>_. []) (JObj fields))" by (rule dumps_printable) simp
  ultimately show ?thesis by blast
qed

definition sample_process :: "unit process" where
  "sample_process = lifespan_startup (default_settings\<lparr>log_format := ''json''\<rparr>)
     \<lparr>pr_logging = None, pr_sentry = None, pr_engine = None, pr_pool_open = False, pr_jwks = []\<rparr>"

definition sample_log_record :: log_record where
  "sample_log_record = \<lparr>lr_created = 0, lr_level = ''INFO'', lr_logger = ''app'', lr_message = ''a'' @ [char_of (10 :: nat)] @ ''b'',
     lr_exception = None, lr_request_id = None\<rparr>"

theorem json_log_is_one_line_witness:
  "case emit (\<lambda>_. ''now'') sample_process no_request sample_log_record of
     None \<Rightarrow> False | Some line \<Rightarrow> list_all printable line \<and> length line = 85"
proof -
  have c: "pr_logging sample_process = Some \<lparr>lc_json = True, lc_level = ''INFO''\<rparr>" by code_simp
  have "case emit (\<lambda>_. ''now'') sample_process no_request sample_log_record of None \<Rightarrow> False | Some line \<Rightarrow> length line = 85" by code_simp
  then show ?thesis using json_log_is_one_line[OF c, of "\<lambda>_. ''now''" no_request sample_log_record] by auto
qed

end
