(* ===== verification/Harness.thy ===== *)
theory Harness
  imports Evals Process
begin

section \<open>Running the evaluation: the golden files and the command (evals/harness.py)\<close>

text \<open>
  What surrounds a golden run: reading the records of a JSONL file, and \<^verbatim>\<open>main\<close>, from the
  records of a task to the report it prints and writes. \<^verbatim>\<open>json.loads\<close> is a parameter; the
  records it yields reach the runs typed, as in theory \<^verbatim>\<open>Evals\<close>. Of the process only the
  database engine matters here.
\<close>

subsection \<open>Golden files\<close>

text \<open>\<open>loads\<close> gives the value of a text, or the decoder's complaint.\<close>

fun load_lines :: "(string \<Rightarrow> string + json) \<Rightarrow> string \<Rightarrow> nat \<Rightarrow> string list \<Rightarrow> exn + json list" where
  "load_lines loads path line_no [] = Inr []"
| "load_lines loads path line_no (line # ls) =
     (if strip line = [] then load_lines loads path (Suc line_no) ls
      else (case loads (strip line) of
          Inl why \<Rightarrow> Inl (Value_Error (path @ '':'' @ str_of_nat line_no @ '': malformed golden record: '' @ why))
        | Inr v \<Rightarrow> map_sum id ((#) v) (load_lines loads path (Suc line_no) ls)))"

text \<open>\<open>None\<close> is a file that does not exist.\<close>

definition load_records :: "(string \<Rightarrow> string + json) \<Rightarrow> string \<Rightarrow> string option \<Rightarrow> exn + json list" where
  "load_records loads path file =
     (case file of None \<Rightarrow> Inr [] | Some s \<Rightarrow> load_lines loads path 1 (splitlines s))"

text \<open>
  The records are the values of the lines that are not blank, in order; an error names the
  first of them that is malformed by its number in the file.
\<close>

lemma load_lines_ok:
  "load_lines loads path n ls = Inr vs \<longleftrightarrow> map loads (filter (\<lambda>l. l \<noteq> []) (map strip ls)) = map Inr vs"
  by (induction ls arbitrary: n vs) (auto simp: Cons_eq_map_conv map_sum_Inr split: sum.splits)

lemma load_lines_error:
  assumes "load_lines loads path n ls = Inl e"
  shows "\<exists>k < length ls. \<exists>why. strip (ls ! k) \<noteq> [] \<and> loads (strip (ls ! k)) = Inl why
    \<and> e = Value_Error (path @ '':'' @ str_of_nat (n + k) @ '': malformed golden record: '' @ why)
    \<and> (\<forall>i < k. strip (ls ! i) = [] \<or> (\<exists>v. loads (strip (ls ! i)) = Inr v))"
  using assms
proof (induction ls arbitrary: n)
  case (Cons l ls)
  show ?case
  proof (cases "strip l = [] \<or> (\<exists>v. loads (strip l) = Inr v)")
    case True
    then have "load_lines loads path (Suc n) ls = Inl e" using Cons.prems by (auto simp: map_sum_Inl split: if_splits sum.splits)
    from Cons.IH[OF this] obtain k why where k: "k < length ls" "strip (ls ! k) \<noteq> []" "loads (strip (ls ! k)) = Inl why"
      "e = Value_Error (path @ '':'' @ str_of_nat (Suc n + k) @ '': malformed golden record: '' @ why)"
      "\<forall>i < k. strip (ls ! i) = [] \<or> (\<exists>v. loads (strip (ls ! i)) = Inr v)" by blast
    have "\<forall>i < Suc k. strip ((l # ls) ! i) = [] \<or> (\<exists>v. loads (strip ((l # ls) ! i)) = Inr v)"
      using k(5) True by (auto simp: less_Suc_eq_0_disj)
    then show ?thesis using k by (intro exI[of _ "Suc k"]) simp
  next
    case False
    then show ?thesis using Cons.prems by (intro exI[of _ 0]) (auto split: sum.splits)
  qed
qed simp

subsection \<open>The report and the command\<close>

definition scores_json :: "scores \<Rightarrow> json" where
  "scores_json sc = JObj (map (\<lambda>m. (fst m, JNum (snd m))) sc)"

definition is_retrieve :: "golden \<Rightarrow> bool" where
  "is_retrieve g = (case g of Task_Retrieve _ _ \<Rightarrow> True | _ \<Rightarrow> False)"

definition is_diff :: "golden \<Rightarrow> bool" where
  "is_diff g = (case g of Task_Diff _ \<Rightarrow> True | _ \<Rightarrow> False)"

text \<open>The dictionary a run returns; retrieval names the embedding model too.\<close>

definition report_fields :: "settings \<Rightarrow> golden \<Rightarrow> report \<Rightarrow> (string \<times> json) list" where
  "report_fields s g rep =
     [(''task'', JStr (rp_task rep)), (''records'', jnat (rp_records rep)), (''metrics'', scores_json (rp_metrics rep)),
      (''per_record'', JObj (map (\<lambda>r. (fst r, scores_json (snd r))) (rp_per_record rep)))]
     @ (if is_retrieve g then [(''embedding_model'', JStr (openai_embedding_model s))] else [])"

definition stamp :: "(time \<Rightarrow> string) \<Rightarrow> settings \<Rightarrow> time \<Rightarrow> (string \<times> json) list \<Rightarrow> (string \<times> json) list" where
  "stamp isoformat s now kvs = put ''generated_at'' (JStr (isoformat now)) (put ''model'' (JStr (openai_model s)) kvs)"

text \<open>
  \<^verbatim>\<open>main\<close> on what \<^verbatim>\<open>load_records\<close> gave: without records it returns at once; every task but
  the diff needs a client, retrieval alone an engine, which is disposed whatever happens.
\<close>

definition harness_main :: "(time \<Rightarrow> string) \<Rightarrow> settings \<Rightarrow> 'w openai \<Rightarrow> coercions \<Rightarrow> extractors \<Rightarrow> engines \<Rightarrow> request_context
    \<Rightarrow> exn + golden \<Rightarrow> 'w \<Rightarrow> db \<Rightarrow> 'k process \<Rightarrow> (exn + json option) \<times> 'w \<times> db \<times> 'k process" where
  "harness_main isoformat s sdk lx ex en ctx loaded w d p =
     (case loaded of
        Inl e \<Rightarrow> (Inl e, w, d, p)
      | Inr g \<Rightarrow>
          if golden_size g = 0 then (Inr None, w, d, p)
          else (case (if is_diff g then Inr sdk else make_client (openai_api_key s) sdk) of
              Inl e \<Rightarrow> (Inl e, w, d, p)
            | Inr llm \<Rightarrow>
                (let p1 = (if is_retrieve g then init_engine (database_url s) p else p) in
                 case run_golden llm lx ex en ctx g w d of
                   (r, w', d') \<Rightarrow>
                     (map_sum id (map_option (\<lambda>rep. JObj (stamp isoformat s (clock d') (report_fields s g rep)))) r, w', d',
                      (if is_retrieve g then dispose_engine p1 else p1)))))"

text \<open>
  The diff runs without an API key and every other task fails on it before it touches
  anything; a retrieval leaves the engine disposed, the others leave the process as it was.
\<close>

lemma harness_needs_key:
  assumes "openai_api_key s = []" "golden_size g \<noteq> 0" "\<not> is_diff g"
  shows "harness_main isoformat s sdk lx ex en ctx (Inr g) w d p = (Inl Llm_Not_Configured, w, d, p)"
  using assms by (simp add: harness_main_def make_client_def)

lemma harness_process:
  assumes "harness_main isoformat s sdk lx ex en ctx loaded w d p = (r, w', d', p')"
  shows "p' = p \<or> ((\<exists>g. loaded = Inr g \<and> is_retrieve g) \<and> pr_engine p' = Some (database_url s) \<and> \<not> pr_pool_open p')"
  using assms by (auto simp: harness_main_def init_engine_def dispose_engine_def Let_def split: sum.splits if_splits prod.splits)

text \<open>The report of a run says what ran it: the task, its records, the models and the time.\<close>

lemma harness_report:
  assumes "harness_main isoformat s sdk lx ex en ctx (Inr g) w d p = (Inr (Some v), w', d', p')"
  shows "\<exists>rep. run_golden sdk lx ex en ctx g w d = (Inr (Some rep), w', d')
    \<and> jfield ''task'' v = Some (JStr (rp_task rep)) \<and> jfield ''model'' v = Some (JStr (openai_model s))
    \<and> jfield ''generated_at'' v = Some (JStr (isoformat (clock d'))) \<and> jfield ''metrics'' v = Some (scores_json (rp_metrics rep))"
proof -
  have "\<exists>rep. run_golden sdk lx ex en ctx g w d = (Inr (Some rep), w', d')
      \<and> v = JObj (stamp isoformat s (clock d') (report_fields s g rep))"
    using assms by (auto simp: harness_main_def make_client_def Let_def map_sum_Inr map_option_case split: option.splits sum.splits if_splits prod.splits)
  then show ?thesis by (auto simp: stamp_def report_fields_def put_def jfield_def)
qed

end
