(* ===== verification/Scripts.thy ===== *)
theory Scripts
  imports Worker Evals Config "HOL-Library.List_Lexorder"
begin

section \<open>Seeding and the sample report (evals/seed\_fixtures.py, scripts/make\_sample\_report.py)\<close>

text \<open>
  Two operator scripts that drive the services themselves instead of leaving the jobs to a
  worker: each uploads documents under a fixed tenant, enqueues jobs and runs worker passes,
  at most fifty per job, until the job it waits for is terminal. A pass claims any job of the
  queue, so it may serve others first. Every step opens its own session; what other
  processes commit between two sessions, and the time that passes, is the parameter
  \<open>sc_between\<close>. Reading the input files, printing and writing the artifact are I/O.
\<close>

subsection \<open>What a script raises\<close>

text \<open>
  An exception of a service it does not catch, or one of its own \<^verbatim>\<open>RuntimeError\<close>s, with the
  values their messages carry.
\<close>

datatype script_exn =
    Service_Raised exn
  | Golden_Malformed
  | Dedupe_Without_Row string
  | Active_Ingestion string uuid
  | Never_Terminal string uuid
  | Job_Not_Completed string "string option"

record 'w script_env =
  sc_llm :: "'w openai"
  sc_libs :: libs
  sc_extractors :: extractors
  sc_coercions :: coercions
  sc_engines :: engines
  sc_settings :: settings
  sc_between :: "db \<Rightarrow> db"

text \<open>A script works on the world of the model, the stored files and the database.\<close>

type_synonym ('w, 'a) script = "'w \<times> files \<times> db \<Rightarrow> (script_exn + 'a) \<times> 'w \<times> files \<times> db"

definition and_then :: "('w, 'a) script \<Rightarrow> ('a \<Rightarrow> ('w, 'b) script) \<Rightarrow> ('w, 'b) script" where
  "and_then m f s = (case m s of (Inl e, s') \<Rightarrow> (Inl e, s') | (Inr x, s') \<Rightarrow> f x s')"

subsection \<open>Worker passes until a job is terminal\<close>

definition max_worker_passes :: nat where
  "max_worker_passes = 50"

definition finished :: "'m job_scheme \<Rightarrow> bool" where
  "finished j \<longleftrightarrow> job_status j \<in> {Completed, Failed}"

text \<open>
  The loop of the four driving functions: look at the job, return it once it is terminal,
  otherwise run one pass. \<open>gives_up\<close>: whether a pass that claimed nothing ends the loop.
  What the last pass did is not looked at any more.
\<close>

fun drive :: "bool \<Rightarrow> (db \<Rightarrow> exn + 'm job_scheme) \<Rightarrow> 'w handler \<Rightarrow> (db \<Rightarrow> db) \<Rightarrow> script_exn \<Rightarrow> nat \<Rightarrow> 'w \<Rightarrow> db
    \<Rightarrow> (script_exn + 'm job_scheme) \<times> 'w \<times> db" where
  "drive gives_up look pass between never 0 w d = (Inl never, w, d)"
| "drive gives_up look pass between never (Suc n) w d =
     (let d0 = between d in
      case look d0 of
        Inl e \<Rightarrow> (Inl (Service_Raised e), w, d0)
      | Inr j \<Rightarrow>
          if finished j then (Inr j, w, d0)
          else (case pass w d0 of
              (Inl e, w', d') \<Rightarrow> (Inl (Service_Raised e), w', d')
            | (Inr did, w', d') \<Rightarrow>
                if gives_up \<and> \<not> did then (Inl never, w', d')
                else drive gives_up look pass between never n w' d'))"

definition on_files :: "('w \<Rightarrow> db \<Rightarrow> 'a \<times> 'w \<times> db) \<Rightarrow> 'w \<times> files \<times> db \<Rightarrow> 'a \<times> 'w \<times> files \<times> db" where
  "on_files f s = (case s of (w, fs, d) \<Rightarrow> case f w d of (r, w', d') \<Rightarrow> (r, w', fs, d'))"

subsection \<open>Uploading\<close>

text \<open>
  Both scripts upload with a reader that answers the whole content once, and take the
  existing document when the upload is a duplicate.
\<close>

definition upload_limit :: "'w script_env \<Rightarrow> nat" where
  "upload_limit env = nat (max_upload_mb (sc_settings env) * 1024 * 1024)"

definition upload_or_find :: "'w script_env \<Rightarrow> uuid \<Rightarrow> string \<Rightarrow> string \<Rightarrow> bytes \<Rightarrow> uuid option \<Rightarrow> files \<times> db
    \<Rightarrow> (script_exn + bool \<times> document) \<times> files \<times> db" where
  "upload_or_find env tenant name mime content parent s =
     (case upload_document (sc_libs env) no_request (upload_limit env) (sc_between env)
             tenant (Some name) (Some mime) [content] parent (apsnd (sc_between env) s) of
        (Inr r, s') \<Rightarrow> (Inr (False, r), s')
      | (Inl e, s') \<Rightarrow>
          (case e of
             Document_Already_Exists _ \<Rightarrow>
               (case find_document_by_sha tenant (sha256_hex (sc_libs env) content) (snd s') of
                  None \<Rightarrow> (Inl (Dedupe_Without_Row name), s')
                | Some r \<Rightarrow> (Inr (True, r), s'))
           | _ \<Rightarrow> (Inl (Service_Raised e), s')))"

subsection \<open>The sample report\<close>

definition sample_tenant :: uuid where
  "sample_tenant = 0x000000000000400080000000000005a3"

text \<open>Evaluation in the kernel keeps the identifier as it stands; its value never matters.\<close>

declare sample_tenant_def [code del]

definition agreement_filename :: string where
  "agreement_filename = ''content-license-agreement.txt''"

definition amendment_filename :: string where
  "amendment_filename = ''content-license-amendment.txt''"

text \<open>The two texts of the golden record, which the script subscripts out of its JSON.\<close>

definition golden_texts :: "json \<Rightarrow> script_exn + string \<times> string" where
  "golden_texts record =
     (case jfield ''input'' record of
        None \<Rightarrow> Inl Golden_Malformed
      | Some v \<Rightarrow>
          (case (jfield ''base_text'' v, jfield ''amended_text'' v) of
             (Some (JStr b), Some (JStr a)) \<Rightarrow> Inr (b, a)
           | _ \<Rightarrow> Inl Golden_Malformed))"

definition upload_sample :: "'w script_env \<Rightarrow> string \<Rightarrow> string \<Rightarrow> uuid option \<Rightarrow> ('w, document) script" where
  "upload_sample env name txt parent s =
     (case s of (w, fs, d) \<Rightarrow>
      case upload_or_find env sample_tenant name text_mime (utf8_encode txt) parent (fs, d) of
        (r, fs', d') \<Rightarrow> (map_sum id snd r, w, fs', d'))"

definition drive_ingestion :: "'w script_env \<Rightarrow> uuid \<Rightarrow> ('w, doc_job) script" where
  "drive_ingestion env i s =
     (case s of (w, fs, d) \<Rightarrow>
      on_files (drive True (get_ingestion_job sample_tenant i)
        (run_next_ingestion_job (sc_llm env) (sc_extractors env) (data_dir (sc_settings env)) fs)
        (sc_between env) (Never_Terminal ''ingestion job'' i) max_worker_passes) s)"

definition ensure_ingested :: "'w script_env \<Rightarrow> document \<Rightarrow> ('w, unit) script" where
  "ensure_ingested env r s =
     (if doc_status r = Parsed then (Inr (), s)
      else (case s of (w, fs, d) \<Rightarrow>
       (case enqueue_ingestion no_request sample_tenant (doc_id r) (sc_between env d) of
          (Inl (Ingestion_Job_Conflict j), d') \<Rightarrow> (Inl (Active_Ingestion (doc_filename r) j), w, fs, d')
        | (Inl e, d') \<Rightarrow> (Inl (Service_Raised e), w, fs, d')
        | (Inr j, d') \<Rightarrow>
            and_then (drive_ingestion env (job_id j)) (\<lambda>k s'.
              (if job_status k \<noteq> Completed then Inl (Job_Not_Completed (doc_filename r) (job_error k)) else Inr (), s'))
              (w, fs, d'))))"

definition drive_extraction :: "'w script_env \<Rightarrow> uuid \<Rightarrow> ('w, doc_job) script" where
  "drive_extraction env i =
     on_files (drive True (get_extraction_job sample_tenant i)
       (run_next_extraction_job (sc_llm env) (sc_coercions env) (review_confidence_threshold_extraction (sc_settings env)))
       (sc_between env) (Never_Terminal ''extraction job'' i) max_worker_passes)"

definition ensure_extracted :: "'w script_env \<Rightarrow> document \<Rightarrow> ('w, unit) script" where
  "ensure_extracted env r s =
     (case s of (w, fs, d) \<Rightarrow>
      let d1 = sc_between env d; latest = find_latest_for_document (doc_id r) (extraction_jobs d1) in
      if latest \<noteq> None \<and> job_status (the latest) = Completed then (Inr (), w, fs, d1)
      else (case enqueue_extraction no_request sample_tenant (doc_id r) d1 of
          (Inl e, d2) \<Rightarrow> (Inl (Service_Raised e), w, fs, d2)
        | (Inr j, d2) \<Rightarrow>
            and_then (drive_extraction env (job_id j)) (\<lambda>k s'.
              (if job_status k \<noteq> Completed then Inl (Job_Not_Completed (doc_filename r) (job_error k)) else Inr (), s'))
              (w, fs, d2)))"

definition generate_report :: "'w script_env \<Rightarrow> document \<Rightarrow> document \<Rightarrow> ('w, report_job) script" where
  "generate_report env base amendment s =
     (case s of (w, fs, d) \<Rightarrow>
      case enqueue_change_report no_request sample_tenant (doc_id base) (doc_id amendment) (sc_between env d) of
        (Inl e, d1) \<Rightarrow> (Inl (Service_Raised e), w, fs, d1)
      | (Inr j, d1) \<Rightarrow>
          on_files (drive True (get_change_report_job sample_tenant (job_id j))
            (run_next_change_report_job (sc_llm env) (sc_coercions env) (sc_engines env)
              (review_confidence_threshold_impact (sc_settings env)))
            (sc_between env) (Never_Terminal ''change report job'' (job_id j)) max_worker_passes) (w, fs, d1))"

text \<open>The artifact; \<open>isoformat\<close> renders a time stamp.\<close>

definition report_artifact :: "(time \<Rightarrow> string) \<Rightarrow> document \<Rightarrow> document \<Rightarrow> report_job \<Rightarrow> script_exn + json" where
  "report_artifact isoformat base amendment report =
     (case (job_status report, job_result report) of
        (Completed, Some result) \<Rightarrow>
          (case jfield ''changes'' result of
             None \<Rightarrow> Inl (Service_Raised (Key_Error ''changes''))
           | Some changes \<Rightarrow> Inr (JObj
               [(''generated_at'', JStr (isoformat (job_updated report))),
                (''base_filename'', JStr (doc_filename base)),
                (''amended_filename'', JStr (doc_filename amendment)),
                (''changes'', changes)]))
      | _ \<Rightarrow> Inl (Job_Not_Completed ''change report'' (job_error report)))"

definition sample_pipeline :: "'w script_env \<Rightarrow> (time \<Rightarrow> string) \<Rightarrow> string \<Rightarrow> string \<Rightarrow> ('w, json) script" where
  "sample_pipeline env isoformat base_text amended_text =
     and_then (upload_sample env agreement_filename base_text None) (\<lambda>base.
     and_then (upload_sample env amendment_filename amended_text (Some (doc_id base))) (\<lambda>amendment.
     and_then (ensure_ingested env base) (\<lambda>_.
     and_then (ensure_ingested env amendment) (\<lambda>_.
     and_then (ensure_extracted env base) (\<lambda>_.
     and_then (ensure_extracted env amendment) (\<lambda>_.
     and_then (generate_report env base amendment) (\<lambda>report s'.
       (report_artifact isoformat base amendment report, s'))))))))"

definition make_sample_report :: "'w script_env \<Rightarrow> (time \<Rightarrow> string) \<Rightarrow> json \<Rightarrow> ('w, json) script" where
  "make_sample_report env isoformat record s =
     (case golden_texts record of
        Inl e \<Rightarrow> (Inl e, s)
      | Inr (base_text, amended_text) \<Rightarrow>
     (case make_client (openai_api_key (sc_settings env)) (sc_llm env) of
        Inl e \<Rightarrow> (Inl (Service_Raised e), s)
      | Inr llm \<Rightarrow> sample_pipeline (env\<lparr>sc_llm := llm\<rparr>) isoformat base_text amended_text s))"

subsection \<open>Seeding the fixtures\<close>

definition eval_tenant :: uuid where
  "eval_tenant = 0x0000000000004000800000000000c0ad"

declare eval_tenant_def [code del]

text \<open>Here a pass that claims nothing does not end the loop.\<close>

definition drive_to_terminal :: "'w script_env \<Rightarrow> uuid \<Rightarrow> ('w, doc_job) script" where
  "drive_to_terminal env i s =
     (case s of (w, fs, d) \<Rightarrow>
      on_files (drive False (get_ingestion_job eval_tenant i)
        (run_next_ingestion_job (sc_llm env) (sc_extractors env) (data_dir (sc_settings env)) fs)
        (sc_between env) (Never_Terminal ''ingestion job'' i) max_worker_passes) s)"

definition seed_document :: "'w script_env \<Rightarrow> string \<times> bytes \<Rightarrow> ('w, json) script" where
  "seed_document env path s =
     (case (path, s) of ((name, content), (w, fs, d)) \<Rightarrow>
      case upload_or_find env eval_tenant name pdf_mime content None (fs, d) of
        (Inl e, fs', d') \<Rightarrow> (Inl e, w, fs', d')
      | (Inr (existing, r), fs', d') \<Rightarrow>
          if existing \<and> doc_status r = Parsed
          then (Inr (JObj [(''filename'', JStr name), (''sha256'', JStr (doc_sha r)), (''skipped'', JBool True)]), w, fs', d')
          else (case enqueue_ingestion no_request eval_tenant (doc_id r) d' of
              (Inl (Ingestion_Job_Conflict j), d1) \<Rightarrow> (Inl (Active_Ingestion name j), w, fs', d1)
            | (Inl e, d1) \<Rightarrow> (Inl (Service_Raised e), w, fs', d1)
            | (Inr j, d1) \<Rightarrow>
                and_then (drive_to_terminal env (job_id j)) (\<lambda>k s'.
                  (if job_status k \<noteq> Completed then Inl (Job_Not_Completed name (job_error k))
                   else Inr (JObj [(''filename'', JStr name), (''sha256'', JStr (doc_sha r)),
                     (''chunk_count'', (case job_result k of
                        None \<Rightarrow> JNull
                      | Some res \<Rightarrow> (case jfield ''chunk_count'' res of None \<Rightarrow> JNull | Some v \<Rightarrow> v)))]), s'))
                  (w, fs', d1)))"

fun seed_all :: "'w script_env \<Rightarrow> (string \<times> bytes) list \<Rightarrow> ('w, json list) script" where
  "seed_all env [] s = (Inr [], s)"
| "seed_all env (p # ps) s =
     and_then (seed_document env p) (\<lambda>entry. and_then (seed_all env ps) (\<lambda>entries s'. (Inr (entry # entries), s'))) s"

text \<open>The fixtures in the order of their paths, compared by code points.\<close>

definition seed_fixtures :: "'w script_env \<Rightarrow> (string \<times> bytes) list \<Rightarrow> ('w, json) script" where
  "seed_fixtures env paths s =
     (case make_client (openai_api_key (sc_settings env)) (sc_llm env) of
        Inl e \<Rightarrow> (Inl (Service_Raised e), s)
      | Inr llm \<Rightarrow> and_then (seed_all (env\<lparr>sc_llm := llm\<rparr>) (order_by (\<lambda>p. map code (fst p)) paths)) (\<lambda>entries s'. (Inr (JArr entries), s')) s)"

subsection \<open>Lemmas: passes settle rows\<close>

text \<open>
  What a pass that claimed a job does to its queue's table: at most some rows become
  terminal; ids, tenants and documents stay.
\<close>

definition settles :: "'m job_scheme list \<Rightarrow> 'm job_scheme list \<Rightarrow> bool" where
  "settles rows rows' \<longleftrightarrow> (\<exists>g. rows' = map g rows \<and> (\<forall>j \<in> set rows. g j = j \<or>
     (finished (g j) \<and> job_id (g j) = job_id j \<and> job_tenant (g j) = job_tenant j \<and> job.more (g j) = job.more j)))"

lemma settles_refl: "settles rows rows"
  unfolding settles_def by (intro exI[of _ "\<lambda>j. j"]) simp

lemma find_job_settles:
  assumes "settles rows rows'" "find_job t i rows = Some j"
  shows "\<exists>k. find_job t i rows' = Some k \<and> job.more k = job.more j \<and> (k = j \<or> finished k)"
proof -
  obtain g where rows': "rows' = map g rows" and g: "\<forall>j \<in> set rows. g j = j \<or>
     (finished (g j) \<and> job_id (g j) = job_id j \<and> job_tenant (g j) = job_tenant j \<and> job.more (g j) = job.more j)"
    using assms(1) by (auto simp: settles_def)
  from assms(2) g have "find_job t i (map g rows) = Some (g j) \<and> j \<in> set rows"
  proof (induction rows)
    case (Cons r rows)
    have "job_id (g r) = job_id r" "job_tenant (g r) = job_tenant r" using Cons.prems(2) by auto
    then show ?case using Cons by (auto simp: find_job_def split: if_splits)
  qed (simp add: find_job_def)
  then show ?thesis using g unfolding rows' by fastforce
qed

lemma settles_capped:
  assumes "claim_next now {} rows = (Some j, rows')" "job_status j = Failed" "distinct (map job_id rows)"
  shows "settles rows rows'"
proof -
  obtain i where i: "i \<in> set rows" "j = claim_row now i" "rows' = update_where (\<lambda>r. job_id r = job_id i) (claim_row now) rows"
    using claim_next_Some[OF assms(1)] by metis
  have "r = i" if "r \<in> set rows" "job_id r = job_id i" for r
    using distinct_key_eq[OF assms(3) that(1) i(1)] that(2) by simp
  then show ?thesis unfolding settles_def
    by (intro exI[of _ "\<lambda>r. if job_id r = job_id i then claim_row now r else r"])
      (use assms(2) i(2,3) in \<open>auto simp: update_where_def finished_def\<close>)
qed

lemma settles_finish:
  assumes "claim_next now {} rows = (Some j, rows1)" "st \<in> {Completed, Failed}"
  shows "settles rows (finish_rows now' j st res err rows1)"
proof -
  obtain i where i: "j = claim_row now i" "rows1 = update_where (\<lambda>r. job_id r = job_id i) (claim_row now) rows"
    using claim_next_Some[OF assms(1)] by metis
  show ?thesis unfolding settles_def
    by (intro exI[of _ "\<lambda>r. if job_id r = job_id i then set_terminal now' st res err (claim_row now r) else r"])
      (use assms(2) in \<open>auto simp: i finish_rows_def update_where_def finished_def set_terminal_def\<close>)
qed

text \<open>One record of the parameters' only freedom: time passes, and nobody else writes.\<close>

definition only_time :: "(db \<Rightarrow> db) \<Rightarrow> bool" where
  "only_time f \<longleftrightarrow> (\<forall>d. \<exists>t. f d = d\<lparr>clock := t\<rparr>)"

abbreviation same_documents :: "db \<Rightarrow> db \<Rightarrow> bool" where
  "same_documents d d' \<equiv> map doc_frame (documents d') = map doc_frame (documents d)"

text \<open>The claims left in all three queues.\<close>

definition backlog :: "db \<Rightarrow> nat" where
  "backlog d = sum_list (queue_claims d)"

lemma backlog_eq: "backlog d = pending_claims (extraction_jobs d) + (pending_claims (ingestion_jobs d) + pending_claims (report_jobs d))"
  by (simp add: backlog_def queue_claims_def)

lemma backlog_clock [simp]: "backlog (d\<lparr>clock := t\<rparr>) = backlog d"
  by (simp add: backlog_eq)

locale settling_queue = job_queue step left rest idle
  for step :: "'w \<Rightarrow> db \<Rightarrow> (exn + bool) \<times> 'w \<times> db" and left rest :: "db \<Rightarrow> nat" and idle :: "db \<Rightarrow> bool" +
  fixes rows :: "db \<Rightarrow> 'm job_scheme list"
  assumes rows_clock: "\<And>d t. rows (d\<lparr>clock := t\<rparr>) = rows d"
    and rest_clock: "\<And>d t. rest (d\<lparr>clock := t\<rparr>) = rest d"
    and total: "\<And>d. left d + rest d = backlog d"
    and idle_rows: "\<And>d. idle d \<Longrightarrow> \<not> list_ex (runnable (clock d)) (rows d)"
    and step_settles: "service_ok d \<Longrightarrow> step w d = (Inr True, w', d') \<Longrightarrow> settles (rows d) (rows d') \<and> same_documents d d'"
begin

lemma queued_not_idle: "find_job t i (rows d) = Some j \<Longrightarrow> job_status j = Queued \<Longrightarrow> \<not> idle d"
  using idle_rows[of d] by (auto simp: find_job_def list_ex_iff runnable_def dest!: find_Some_mem)

text \<open>
  Nobody else writing, a job that is not running when the loop starts is settled by one of
  its passes, if there are more passes than claims left in the queue.
\<close>

lemma drive_settles:
  assumes quiet: "only_time between"
    and look: "\<And>d. look d = (case find_job t i (rows d) of None \<Rightarrow> Inl gone | Some j \<Rightarrow> Inr j)"
  shows "service_ok d \<Longrightarrow> find_job t i (rows d) = Some j \<Longrightarrow> job_status j \<noteq> Running \<Longrightarrow>
    drive g look step between never n w d = (res, w', d') \<Longrightarrow>
    service_ok d' \<and> left d' + rest d' \<le> left d + rest d
    \<and> (case res of
         Inl e \<Rightarrow> (e = never \<and> n \<le> left d) \<or> (\<exists>x. e = Service_Raised x)
       | Inr k \<Rightarrow> finished k \<and> find_job t i (rows d') = Some k \<and> job.more k = job.more j \<and> same_documents d d')"
proof (induction n arbitrary: w d j)
  case (Suc n)
  obtain u where d0: "between d = d\<lparr>clock := u\<rparr>" using quiet by (auto simp: only_time_def)
  let ?d = "d\<lparr>clock := u\<rparr>"
  have ok: "service_ok ?d" using Suc.prems(1) by (simp add: service_clock)
  have seen: "look ?d = Inr j" using Suc.prems(2) by (simp add: look rows_clock)
  note prem = Suc.prems(4)[unfolded drive.simps Let_def d0 seen, simplified]
  show ?case
  proof (cases "finished j")
    case True
    then have "res = Inr j" "d' = ?d" using prem by simp_all
    then show ?thesis using ok True Suc.prems(2) by (simp add: rows_clock left_clock rest_clock)
  next
    case False
    then have "job_status j = Queued" using Suc.prems(3) by (cases "job_status j") (auto simp: finished_def)
    then have busy: "\<not> idle ?d" using queued_not_idle[of t i ?d j] Suc.prems(2) by (simp add: rows_clock)
    obtain r w1 d1 where s: "step w ?d = (r, w1, d1)" by (metis prod_cases3)
    have nf: "r \<noteq> Inr False" using step_idle[OF ok] s busy by blast
    note ok1 = step_ok[OF ok s] and less = step_busy[OF ok s nf]
    show ?thesis
    proof (cases r)
      case (Inl e)
      then have "res = Inl (Service_Raised e)" "d' = d1" using prem s False by simp_all
      then show ?thesis using ok1 less by (simp add: left_clock rest_clock)
    next
      case (Inr did)
      then have r: "r = Inr True" using nf by (cases did) auto
      note st = step_settles[OF ok s[unfolded r]]
      obtain k where k: "find_job t i (rows d1) = Some k" "job.more k = job.more j" "k = j \<or> finished k"
        using find_job_settles[of "rows ?d" "rows d1" t i j] st Suc.prems(2) by (auto simp: rows_clock)
      have "job_status k \<noteq> Running" using k(3) Suc.prems(3) by (auto simp: finished_def)
      moreover have "drive g look step between never n w1 d1 = (res, w', d')" using prem s r False by simp
      ultimately have "service_ok d' \<and> left d' + rest d' \<le> left d1 + rest d1
        \<and> (case res of
             Inl e \<Rightarrow> (e = never \<and> n \<le> left d1) \<or> (\<exists>x. e = Service_Raised x)
           | Inr k' \<Rightarrow> finished k' \<and> find_job t i (rows d') = Some k' \<and> job.more k' = job.more k \<and> same_documents d1 d')"
        using Suc.IH[OF ok1 k(1)] by blast
      then show ?thesis using less k(2) st by (auto simp: left_clock rest_clock split: sum.splits)
    qed
  qed
qed auto

end

text \<open>The three queues of the service settle rows.\<close>

lemma claimed_rows:
  "claim_ingestion d = (Some j, d1) \<Longrightarrow> claim_next (clock d) {} (ingestion_jobs d) = (Some j, ingestion_jobs d1)"
  "claim_extraction d = (Some j, d1) \<Longrightarrow> claim_next (clock d) {} (extraction_jobs d) = (Some j, extraction_jobs d1)"
  "claim_report d = (Some k, d1) \<Longrightarrow> claim_next (clock d) {} (report_jobs d) = (Some k, report_jobs d1)"
  by (auto simp: claim_ingestion_def claim_extraction_def claim_report_def Let_def split: prod.splits)

lemma distinct_jobs:
  assumes "service_ok d"
  shows "distinct (map job_id (ingestion_jobs d))" "distinct (map job_id (extraction_jobs d))" "distinct (map job_id (report_jobs d))"
  using assms by (simp_all add: service_ok_def db_ok_def table_oks table_ok_def)

lemma ingestion_settles:
  assumes ok: "service_ok d" and run: "run_next_ingestion_job llm ex dir fs w d = (Inr True, w', d')"
  shows "settles (ingestion_jobs d) (ingestion_jobs d') \<and> same_documents d d'"
  using ok run
proof (cases rule: ingestion_pass)
  case (Capped j d1)
  show ?thesis using settles_capped[OF claimed_rows(1)[OF Capped(1)] Capped(2) distinct_jobs(1)[OF ok]]
    claim_service(6)[OF ok Capped(1)] by (simp add: Capped(4) status_rows_frame)
next
  case (Run j d1 d2)
  note cl = claim_service[OF ok Run(1)] and fr = usage_frame_simps[OF Run(3)]
  have ok2: "db_ok d2" "owned (documents d2) (job_tenant j) (dj_document j)"
    using usage_frame_service[OF Run(3) cl(1)] job_owner[of d2 j] cl(2) fr by (simp_all add: service_ok_def)
  note fin = settles_finish[OF claimed_rows(1)[OF Run(1)]]
  from Run(4) show ?thesis unfolding ended_def
    by (elim disjE exE conjE)
      (simp_all add: failed_pass_def completed_pass_def fin fr cl(6) status_rows_frame store_parse_Inr[OF _ ok2])
qed simp

lemma extraction_settles:
  assumes ok: "service_ok d" and run: "run_next_extraction_job llm lx threshold w d = (Inr True, w', d')"
  shows "settles (extraction_jobs d) (extraction_jobs d') \<and> same_documents d d'"
  using ok run
proof (cases rule: extraction_pass)
  case (Capped j)
  show ?thesis using settles_capped[OF claimed_rows(2)[OF Capped(1)] Capped(2) distinct_jobs(2)[OF ok]]
    claim_extraction_service(6)[OF ok Capped(1)] by simp
next
  case (Run j d1 d2)
  note cl = claim_extraction_service[OF ok Run(1)] and fr = usage_frame_simps[OF Run(3)]
  note fin = settles_finish[OF claimed_rows(2)[OF Run(1)]]
  from Run(5) show ?thesis unfolding extraction_ended_def
  proof (elim disjE exE conjE)
    fix e snk assume "logs snk" "d' = account_rejected_output e snk
        (d2\<lparr>extraction_jobs := finish_rows (clock d2) j Failed None (Some (take 1024 (exn_str e))) (extraction_jobs d2)\<rparr>)"
    then show ?thesis using fin fr cl(6) usage_frame_simps[OF usage_frame_rejected] by simp
  next
    fix ex t assume "d' = snd (route_for_review (job_tenant j) Src_Extraction (dj_document j) (job_id j) (extraction_candidates ex) threshold
        (d2\<lparr>extraction_jobs := finish_rows (clock d2) j Completed (Some (dump_extraction ex)) None (extraction_jobs d2)\<rparr>))"
    then have "route_for_review (job_tenant j) Src_Extraction (dj_document j) (job_id j) (extraction_candidates ex) threshold
        (d2\<lparr>extraction_jobs := finish_rows (clock d2) j Completed (Some (dump_extraction ex)) None (extraction_jobs d2)\<rparr>)
      = (fst (route_for_review (job_tenant j) Src_Extraction (dj_document j) (job_id j) (extraction_candidates ex) threshold
        (d2\<lparr>extraction_jobs := finish_rows (clock d2) j Completed (Some (dump_extraction ex)) None (extraction_jobs d2)\<rparr>)), d')" by simp
    from route_frame[OF this] show ?thesis using fin fr cl(6) by simp
  qed simp_all
qed simp

lemma report_settles:
  assumes ok: "service_ok d" and run: "run_next_change_report_job llm lx en threshold w d = (Inr True, w', d')"
  shows "settles (report_jobs d) (report_jobs d') \<and> same_documents d d'"
  using ok run
proof (cases rule: report_pass)
  case (Capped j)
  show ?thesis using settles_capped[OF claimed_rows(3)[OF Capped(1)] Capped(2) distinct_jobs(3)[OF ok]]
    claim_report_service(6)[OF ok Capped(1)] by simp
next
  case (Run j d1 d2)
  note cl = claim_report_service[OF ok Run(1)] and fr = usage_frame_simps[OF Run(3)]
  note fin = settles_finish[OF claimed_rows(3)[OF Run(1)]]
  from Run(4) show ?thesis unfolding report_ended_def
  proof (elim disjE exE conjE)
    fix e snk assume "logs snk" "d' = account_rejected_output e snk (finished_report j Failed None (Some (take 1024 (exn_str e))) d2)"
    then show ?thesis using fin fr cl(6) usage_frame_simps[OF usage_frame_rejected] by simp
  next
    fix bt amd rows
    let ?d = "finished_report j Completed (Some (report_json bt amd rows)) None d2"
    assume "d' = snd (route_for_review (job_tenant j) Src_Impact_Mapping (rj_base j) (job_id j) (report_candidates rows) threshold ?d)"
    then have "route_for_review (job_tenant j) Src_Impact_Mapping (rj_base j) (job_id j) (report_candidates rows) threshold ?d
      = (fst (route_for_review (job_tenant j) Src_Impact_Mapping (rj_base j) (job_id j) (report_candidates rows) threshold ?d), d')" by simp
    from route_frame[OF this] show ?thesis using fin fr cl(6) by simp
  qed simp_all
qed simp

interpretation ingestion_settling: settling_queue "run_next_ingestion_job llm ex dir fs" "\<lambda>d. pending_claims (ingestion_jobs d)"
    "\<lambda>d. pending_claims (extraction_jobs d) + pending_claims (report_jobs d)" ingestion_idle ingestion_jobs
  for llm ex dir fs
  by unfold_locales (simp_all add: ingestion_idle_def backlog_eq, blast dest: ingestion_settles)

interpretation extraction_settling: settling_queue "run_next_extraction_job llm lx threshold" "\<lambda>d. pending_claims (extraction_jobs d)"
    "\<lambda>d. pending_claims (ingestion_jobs d) + pending_claims (report_jobs d)" extraction_idle extraction_jobs
  for llm lx threshold
  by unfold_locales (simp_all add: extraction_idle_def backlog_eq, blast dest: extraction_settles)

interpretation report_settling: settling_queue "run_next_change_report_job llm lx en threshold" "\<lambda>d. pending_claims (report_jobs d)"
    "\<lambda>d. pending_claims (ingestion_jobs d) + pending_claims (extraction_jobs d)" report_idle report_jobs
  for llm lx en threshold
  by unfold_locales (simp_all add: report_idle_def backlog_eq, blast dest: report_settles)

subsection \<open>Lemmas: the services as a script calls them\<close>

lemma find_new_job:
  "n \<notin> job_id ` set rows \<Longrightarrow> job_id j = n \<Longrightarrow> job_tenant j = t \<Longrightarrow> find_job t n (rows @ [j]) = Some j"
  by (induction rows) (auto simp: find_job_def)

lemma pending_new: "pending_claims (rows @ [new_doc_job i now t x]) = pending_claims rows + 4"
  "pending_claims (reps @ [new_report_job i now t x y]) = pending_claims reps + 4"
  by (simp_all add: pending_claims_def claims_left_def active_def new_doc_job_def new_report_job_def max_attempts_def)

text \<open>An enqueue keeps the documents, adds at most four claims, and the job it returns is queued.\<close>

definition enqueued :: "uuid \<Rightarrow> (db \<Rightarrow> 'm job_scheme list) \<Rightarrow> exn + 'm job_scheme \<Rightarrow> db \<Rightarrow> db \<Rightarrow> bool" where
  "enqueued t rows r d d' \<longleftrightarrow> service_ok d' \<and> documents d' = documents d \<and> backlog d' \<le> backlog d + 4
     \<and> (\<forall>j. r = Inr j \<longrightarrow> find_job t (job_id j) (rows d') = Some j \<and> job_status j \<noteq> Running)"

lemma service_audit: "service_ok (audit_record ctx t a rt r det d) = service_ok d" if "db_ok d"
  using audit_ok[OF that] that by (simp add: service_ok_def citations_ok_def) (simp add: audit_record_def)

lemma audit_same:
  "documents (audit_record ctx t a rt r det d) = documents d" "ingestion_jobs (audit_record ctx t a rt r det d) = ingestion_jobs d"
  "extraction_jobs (audit_record ctx t a rt r det d) = extraction_jobs d" "report_jobs (audit_record ctx t a rt r det d) = report_jobs d"
  "backlog (audit_record ctx t a rt r det d) = backlog d"
  by (simp_all add: audit_record_def backlog_eq)

lemma enqueuedI:
  assumes "db_ok d1" "citations_ok d1" "documents d1 = documents d" "backlog d1 \<le> backlog d + 4"
    and "find_job t (job_id j) (rows d1) = Some j" "job_status j \<noteq> Running"
    and "rows (audit_record ctx t a rt r det d1) = rows d1"
  shows "enqueued t rows (Inr j) d (audit_record ctx t a rt r det d1)"
  using assms by (simp add: enqueued_def service_audit audit_same service_ok_def)
    (simp add: service_audit[unfolded service_ok_def] audit_ok citations_ok_def, simp add: audit_record_def)

lemma create_enqueued:
  assumes "service_ok d"
  shows "owned (documents d) t i \<Longrightarrow> create_ingestion_job t i d = (j, d1) \<Longrightarrow>
      enqueued t ingestion_jobs (Inr j) d (audit_record ctx t a rt r det d1)"
    and "owned (documents d) t i \<Longrightarrow> create_extraction_job t i d = (j, d1) \<Longrightarrow>
      enqueued t extraction_jobs (Inr j) d (audit_record ctx t a rt r det d1)"
    and "amends (documents d) t b m \<Longrightarrow> create_report_job t b m d = (k, d1) \<Longrightarrow>
      enqueued t report_jobs (Inr k) d (audit_record ctx t a rt r det d1) \<and> job.more k = \<lparr>rj_base = b, rj_amended = m\<rparr>"
proof -
  have ok: "db_ok d" "citations_ok d" using assms by (simp_all add: service_ok_def)
  note f = fresh_job_id[OF ok(1)] and c = create_jobs_ok[OF ok(1)]
  have doc: "job_id (new_doc_job n u t x) = n" "job_tenant (new_doc_job n u t x) = t" "job_status (new_doc_job n u t x) = Queued" for n u x
    by (simp_all add: new_doc_job_def)
  have rep: "job_id (new_report_job n u t x y) = n" "job_tenant (new_report_job n u t x y) = t"
    "job_status (new_report_job n u t x y) = Queued" "job.more (new_report_job n u t x y) = \<lparr>rj_base = x, rj_amended = y\<rparr>" for n u x y
    by (simp_all add: new_report_job_def)
  show "enqueued t ingestion_jobs (Inr j) d (audit_record ctx t a rt r det d1)"
    if "owned (documents d) t i" "create_ingestion_job t i d = (j, d1)"
    by (rule enqueuedI) (use c(1)[OF that(1)] that(2) ok(2) f(1) in
      \<open>auto simp: audit_same create_ingestion_job_def Let_def citations_ok_def backlog_eq pending_new doc intro!: find_new_job\<close>)
  show "enqueued t extraction_jobs (Inr j) d (audit_record ctx t a rt r det d1)"
    if "owned (documents d) t i" "create_extraction_job t i d = (j, d1)"
    by (rule enqueuedI) (use c(2)[OF that(1)] that(2) ok(2) f(2) in
      \<open>auto simp: audit_same create_extraction_job_def Let_def citations_ok_def backlog_eq pending_new doc intro!: find_new_job\<close>)
  have "enqueued t report_jobs (Inr k) d (audit_record ctx t a rt r det d1)"
    if "amends (documents d) t b m" "create_report_job t b m d = (k, d1)"
    by (rule enqueuedI) (use c(3)[OF that(1)] that(2) ok(2) f(3) in
      \<open>auto simp: audit_same create_report_job_def Let_def citations_ok_def backlog_eq pending_new rep intro!: find_new_job\<close>)
  then show "enqueued t report_jobs (Inr k) d (audit_record ctx t a rt r det d1) \<and> job.more k = \<lparr>rj_base = b, rj_amended = m\<rparr>"
    if "amends (documents d) t b m" "create_report_job t b m d = (k, d1)"
    using that by (auto simp: create_report_job_def Let_def rep)
qed

lemma not_enqueued: "service_ok d \<Longrightarrow> enqueued t rows (Inl e) d d"
  by (simp add: enqueued_def)

lemma enqueue_ingestion_quiet:
  assumes "service_ok d" "enqueue_ingestion ctx t i d = (r, d')"
  shows "enqueued t ingestion_jobs r d d'"
  using assms not_enqueued[OF assms(1)] create_enqueued(1)[OF assms(1)]
  by (auto simp: enqueue_ingestion_def split: option.splits prod.splits dest!: find_document_owned)

lemma enqueue_extraction_quiet:
  assumes "service_ok d" "enqueue_extraction ctx t i d = (r, d')"
  shows "enqueued t extraction_jobs r d d'"
  using assms not_enqueued[OF assms(1)] create_enqueued(2)[OF assms(1)]
  by (auto simp: enqueue_extraction_def split: option.splits prod.splits if_splits dest!: find_document_owned)

lemma enqueue_report_quiet:
  assumes "service_ok d" "enqueue_change_report ctx t b a d = (r, d')"
  shows "enqueued t report_jobs r d d' \<and> (\<forall>j. r = Inr j \<longrightarrow> job.more j = \<lparr>rj_base = b, rj_amended = a\<rparr>)"
proof (cases r)
  case (Inl e)
  then have "d' = d" using assms(2)
    by (auto simp: enqueue_change_report_def split: option.splits prod.splits if_splits)
  then show ?thesis using not_enqueued[OF assms(1)] Inl by simp
next
  case (Inr j)
  have ok: "db_ok d" using assms(1) by (simp add: service_ok_def)
  obtain rb ra d1 det where f: "find_document t b d = Some rb" "find_document t a d = Some ra" "doc_amends ra = Some (doc_id rb)"
    "create_report_job t (doc_id rb) (doc_id ra) d = (j, d1)"
    "d' = audit_record ctx t ''change_report.enqueue'' ''change_report_job'' (Some (job_id j)) det d1"
    using assms(2) Inr by (auto simp: enqueue_change_report_def split: option.splits prod.splits if_splits)
  have ids: "doc_id rb = b" "doc_id ra = a" using find_document_Some[OF f(1)] find_document_Some[OF f(2)] by simp_all
  have "amends (documents d) t b a" using find_amends[OF ok f(2), of b] f(3) ids by simp
  from create_enqueued(3)[OF assms(1) this] f(4,5) show ?thesis unfolding ids Inr by simp
qed

lemma read_once: "read_upload mx 0 [] [c] = Inr x \<Longrightarrow> x = c"
  by (auto split: if_splits)

lemma upload_document_Inl:
  "upload_document lib ctx mx others t fname ct reads am (fs, d) = (Inl e, fs', d') \<Longrightarrow> d' = d \<or> d' = others d"
  by (auto simp: upload_document_def Let_def split: if_splits sum.splits option.splits)

lemma upload_document_quiet:
  assumes "only_time f" "service_ok d" "upload_document lib ctx mx f t fname ct [content] am (fs, d) = (res, fs', d')"
  shows "service_ok d' \<and> backlog d' = backlog d \<and> (\<forall>r. res = Inr r \<longrightarrow> documents d' = documents d @ [r] \<and> doc_tenant r = t
      \<and> doc_sha r = sha256_hex lib content) \<and> (\<forall>e. res = Inl e \<longrightarrow> documents d' = documents d)"
proof -
  obtain u where u: "f d = d\<lparr>clock := u\<rparr>" using assms(1) by (auto simp: only_time_def)
  show ?thesis
  proof (cases res)
    case (Inl e)
    from upload_document_Inl[OF assms(3)[unfolded Inl]] have "d' = d \<or> d' = d\<lparr>clock := u\<rparr>" by (simp add: u)
    then show ?thesis using assms(2) Inl by (auto simp: service_clock)
  next
    case (Inr r)
    obtain c d1 where v: "upload_valid lib mx t ct [content] am d = Inr c"
      "create_document t (case fname of None \<Rightarrow> ''untitled'' | Some n \<Rightarrow> if n = [] then ''untitled'' else n)
         (the ct) (sha256_hex lib c) am (d\<lparr>clock := u\<rparr>) = Inr (r, d1)"
      "d' = audit_record ctx (doc_tenant r) ''document.upload'' ''document'' (Some (doc_id r)) (Some (upload_detail r (length c))) d1"
      by (rule upload_document_Inr[OF assms(3)[unfolded Inr], unfolded u]) (rule that)
    have "c = content" using v(1) by (auto simp: upload_valid_def split: if_splits sum.splits option.splits)
    have "service_ok (d\<lparr>clock := u\<rparr>)" using assms(2) by (simp add: service_clock)
    then have ok: "db_ok (d\<lparr>clock := u\<rparr>)" "citations_ok d" using assms(2) by (simp_all add: service_ok_def)
    have "owned (documents (d\<lparr>clock := u\<rparr>)) t p" if "am = Some p" for p using upload_valid_parent v(1) that by simp
    note cd = create_document_ok[OF ok(1) v(2) this]
    have e: "texts d1 = texts d" "chunks d1 = chunks d" "ingestion_jobs d1 = ingestion_jobs d"
      "extraction_jobs d1 = extraction_jobs d" "report_jobs d1 = report_jobs d"
      using v(2) by (auto simp: create_document_def Let_def split: if_splits)
    have "citations_ok d1" using ok(2) cd(2,6) e by (auto simp: citations_ok_def)
    then have "service_ok d1" using cd(1) by (simp add: service_ok_def)
    then show ?thesis using cd(1-4) e \<open>c = content\<close> Inr by (simp add: v(3) service_audit audit_same backlog_eq)
  qed
qed

text \<open>Every document of the first database is one of the second, with its tenant, hash and parent.\<close>

abbreviation keeps_documents :: "db \<Rightarrow> db \<Rightarrow> bool" where
  "keeps_documents d d' \<equiv> set (map doc_frame (documents d)) \<subseteq> set (map doc_frame (documents d'))"

lemma upload_or_find_quiet:
  assumes "only_time (sc_between env)" "service_ok d" "upload_or_find env t name mime content am (fs, d) = (res, fs', d')"
  shows "service_ok d' \<and> backlog d' = backlog d \<and> keeps_documents d d' \<and> (\<forall>v i. res \<noteq> Inl (Never_Terminal v i))
    \<and> (\<forall>b r. res = Inr (b, r) \<longrightarrow> r \<in> set (documents d') \<and> doc_tenant r = t \<and> doc_sha r = sha256_hex (sc_libs env) content)"
proof -
  obtain u where u: "sc_between env d = d\<lparr>clock := u\<rparr>" using assms(1) by (auto simp: only_time_def)
  obtain q g d1 where up: "upload_document (sc_libs env) no_request (upload_limit env) (sc_between env) t (Some name) (Some mime) [content] am
      (fs, d\<lparr>clock := u\<rparr>) = (q, g, d1)" by (metis prod_cases3)
  have "service_ok (d\<lparr>clock := u\<rparr>)" using assms(2) by (simp add: service_clock)
  note uq = upload_document_quiet[OF assms(1) this up]
  have d': "d' = d1" using assms(3)
    by (auto simp: upload_or_find_def u up split: sum.splits exn.splits option.splits)
  note run = assms(3)[unfolded upload_or_find_def apsnd_conv u up, simplified]
  show ?thesis
  proof (cases q)
    case (Inr r)
    then have "res = Inr (False, r)" using run by simp
    then show ?thesis using uq Inr d' by auto
  next
    case (Inl e)
    have "res = Inl (Dedupe_Without_Row name) \<or> res = Inl (Service_Raised e)
      \<or> (\<exists>r. res = Inr (True, r) \<and> find_document_by_sha t (sha256_hex (sc_libs env) content) d1 = Some r)"
      using run Inl by (auto split: exn.splits option.splits)
    then show ?thesis using uq Inl d'
      by (auto simp: find_document_by_sha_def dest!: find_Some_mem)
  qed
qed

subsection \<open>Lemmas: patience\<close>

text \<open>
  A step of a script keeps the invariant, adds at most \<open>n\<close> claims to the queues, and gives up
  on a job only if there may be fifty claims or more. Steps in sequence add up.
\<close>

definition patient :: "nat \<Rightarrow> ('w, 'a) script \<Rightarrow> bool" where
  "patient n m \<longleftrightarrow> (\<forall>w fs d res w' fs' d'. service_ok d \<longrightarrow> m (w, fs, d) = (res, w', fs', d') \<longrightarrow>
     service_ok d' \<and> backlog d' \<le> backlog d + n
     \<and> (\<forall>v i. res = Inl (Never_Terminal v i) \<longrightarrow> max_worker_passes \<le> backlog d + n))"

lemma patientI:
  "(\<And>w fs d res w' fs' d'. service_ok d \<Longrightarrow> m (w, fs, d) = (res, w', fs', d') \<Longrightarrow>
     service_ok d' \<and> backlog d' \<le> backlog d + n
     \<and> (\<forall>v i. res = Inl (Never_Terminal v i) \<longrightarrow> max_worker_passes \<le> backlog d + n)) \<Longrightarrow> patient n m"
  by (simp add: patient_def)

lemma patientD:
  assumes "patient n m" "service_ok d" "m (w, fs, d) = (res, w', fs', d')"
  shows "service_ok d'" "backlog d' \<le> backlog d + n" "res = Inl (Never_Terminal v i) \<Longrightarrow> max_worker_passes \<le> backlog d + n"
  using assms unfolding patient_def by blast+

lemma patient_mono:
  assumes "patient a m" "a \<le> b"
  shows "patient b m"
proof (rule patientI)
  fix w fs d res w' fs' d'
  assume "service_ok d" "m (w, fs, d) = (res, w', fs', d')"
  note p = patientD[OF assms(1) this]
  show "service_ok d' \<and> backlog d' \<le> backlog d + b
     \<and> (\<forall>v i. res = Inl (Never_Terminal v i) \<longrightarrow> max_worker_passes \<le> backlog d + b)"
    using p(1,2) p(3) assms(2) by fastforce
qed

lemma patient_then:
  assumes "patient a m" "\<And>x. patient b (f x)"
  shows "patient (a + b) (and_then m f)"
proof (rule patientI)
  fix w fs d res w' fs' d'
  assume ok: "service_ok d" and run: "and_then m f (w, fs, d) = (res, w', fs', d')"
  obtain q w1 g d1 where m: "m (w, fs, d) = (q, w1, g, d1)" by (metis prod_cases4)
  note p = patientD[OF assms(1) ok m]
  show "service_ok d' \<and> backlog d' \<le> backlog d + (a + b)
     \<and> (\<forall>v i. res = Inl (Never_Terminal v i) \<longrightarrow> max_worker_passes \<le> backlog d + (a + b))"
  proof (cases q)
    case (Inl e)
    then have "res = Inl e" "d' = d1" using run m by (simp_all add: and_then_def)
    then show ?thesis using p(1,2) p(3) Inl by fastforce
  next
    case (Inr x)
    then have "f x (w1, g, d1) = (res, w', fs', d')" using run m by (simp add: and_then_def)
    note r = patientD[OF assms(2) p(1) this]
    show ?thesis using r(1,2) r(3) p(2) by fastforce
  qed
qed

lemma patient_return: "(\<And>v i s. fst (f s) \<noteq> Inl (Never_Terminal v i)) \<Longrightarrow> (\<And>s. snd (f s) = s) \<Longrightarrow> patient 0 f"
  unfolding patient_def by (metis add.right_neutral fst_conv order_refl snd_conv)

subsection \<open>Lemmas: the steps of the scripts\<close>

context settling_queue
begin

text \<open>Enqueue a job, then drive it.\<close>

lemma drive_enqueued:
  assumes "only_time between" "enqueued t rows (Inr j) d d1"
    and "\<And>d. look d = (case find_job t (job_id j) (rows d) of None \<Rightarrow> Inl gone | Some j \<Rightarrow> Inr j)"
    and "drive g look step between (Never_Terminal v i) max_worker_passes w d1 = (q, w', d2)"
  shows "service_ok d2 \<and> backlog d2 \<le> backlog d + 4
    \<and> (\<forall>v i. q = Inl (Never_Terminal v i) \<longrightarrow> max_worker_passes \<le> backlog d + 4)
    \<and> (\<forall>k. q = Inr k \<longrightarrow> finished k \<and> find_job t (job_id j) (rows d2) = Some k \<and> job.more k = job.more j
        \<and> same_documents d d2)"
proof -
  have e: "service_ok d1" "documents d1 = documents d" "backlog d1 \<le> backlog d + 4"
    "find_job t (job_id j) (rows d1) = Some j" "job_status j \<noteq> Running"
    using assms(2) by (simp_all add: enqueued_def)
  note s = drive_settles[OF assms(1,3) e(1,4,5) assms(4)]
  have "left d1 \<le> backlog d1" using total[of d1] by simp
  then show ?thesis using s e total[of d1] total[of d2] by (auto split: sum.splits)
qed

end

lemma between_time:
  assumes "only_time f" "service_ok d"
  shows "service_ok (f d)" "backlog (f d) = backlog d" "documents (f d) = documents d"
proof -
  obtain u where "f d = d\<lparr>clock := u\<rparr>" using assms(1) by (auto simp: only_time_def)
  then show "service_ok (f d)" "backlog (f d) = backlog d" "documents (f d) = documents d"
    using assms(2) by (simp_all add: service_clock)
qed

text \<open>What a step that waits for a job leaves behind.\<close>

definition waited :: "nat \<Rightarrow> script_exn + 'a \<Rightarrow> db \<Rightarrow> db \<Rightarrow> bool" where
  "waited n res d d' \<longleftrightarrow> service_ok d' \<and> backlog d' \<le> backlog d + n
     \<and> (\<forall>v i. res = Inl (Never_Terminal v i) \<longrightarrow> max_worker_passes \<le> backlog d + n)
     \<and> (\<forall>x. res = Inr x \<longrightarrow> same_documents d d')"

lemma ensure_ingested_waited:
  assumes q: "only_time (sc_between env)" and ok: "service_ok d" and run: "ensure_ingested env r (w, fs, d) = (res, w', fs', d')"
  shows "waited 4 res d d'"
proof (cases "doc_status r = Parsed")
  case True
  then show ?thesis using ok run by (auto simp: ensure_ingested_def waited_def)
next
  case False
  let ?d = "sc_between env d"
  note b = between_time[OF q ok]
  obtain x d1 where e: "enqueue_ingestion no_request sample_tenant (doc_id r) ?d = (x, d1)" by fastforce
  note en = enqueue_ingestion_quiet[OF b(1) e]
  show ?thesis
  proof (cases x)
    case (Inl y)
    then have "d' = d1" "\<exists>e. res = Inl e \<and> (\<forall>v i. e \<noteq> Never_Terminal v i)"
      using run False e by (auto simp: ensure_ingested_def split: exn.splits)
    then show ?thesis using en b by (auto simp: waited_def enqueued_def)
  next
    case (Inr j)
    obtain k w2 d2 where dr: "drive True (get_ingestion_job sample_tenant (job_id j))
        (run_next_ingestion_job (sc_llm env) (sc_extractors env) (data_dir (sc_settings env)) fs)
        (sc_between env) (Never_Terminal ''ingestion job'' (job_id j)) max_worker_passes w d1 = (k, w2, d2)" by (metis prod_cases3)
    note s = ingestion_settling.drive_enqueued[OF q en[unfolded Inr] _ dr, unfolded get_ingestion_job_def, OF refl]
    have "d' = d2 \<and> (\<exists>e. res = Inl e \<and> (k = Inl e \<or> (\<forall>v i. e \<noteq> Never_Terminal v i)) \<or> res = Inr () \<and> (\<exists>y. k = Inr y))"
      using run False e Inr dr
      by (auto simp: ensure_ingested_def drive_ingestion_def on_files_def and_then_def split: sum.splits if_splits)
    then show ?thesis using s b by (auto simp: waited_def)
  qed
qed

lemma ensure_extracted_waited:
  assumes q: "only_time (sc_between env)" and ok: "service_ok d" and run: "ensure_extracted env r (w, fs, d) = (res, w', fs', d')"
  shows "waited 4 res d d'"
proof -
  let ?d = "sc_between env d"
  note b = between_time[OF q ok]
  let ?l = "find_latest_for_document (doc_id r) (extraction_jobs ?d)"
  show ?thesis
  proof (cases "?l \<noteq> None \<and> job_status (the ?l) = Completed")
    case True
    then have "res = Inr ()" "d' = ?d" using run by (simp_all add: ensure_extracted_def Let_def)
    then show ?thesis using b by (simp add: waited_def)
  next
    case False
    obtain x d1 where e: "enqueue_extraction no_request sample_tenant (doc_id r) ?d = (x, d1)" by fastforce
    note en = enqueue_extraction_quiet[OF b(1) e]
    note run' = run[unfolded ensure_extracted_def prod.case Let_def if_not_P[OF False] e]
    show ?thesis
    proof (cases x)
      case (Inl y)
      then have "d' = d1" "res = Inl (Service_Raised y)" using run' by simp_all
      then show ?thesis using en b by (auto simp: waited_def enqueued_def)
    next
      case (Inr j)
      obtain k w2 d2 where dr: "drive True (get_extraction_job sample_tenant (job_id j))
          (run_next_extraction_job (sc_llm env) (sc_coercions env) (review_confidence_threshold_extraction (sc_settings env)))
          (sc_between env) (Never_Terminal ''extraction job'' (job_id j)) max_worker_passes w d1 = (k, w2, d2)" by (metis prod_cases3)
      note s = extraction_settling.drive_enqueued[OF q en[unfolded Inr] _ dr, unfolded get_extraction_job_def, OF refl]
      have "d' = d2 \<and> (\<exists>e. res = Inl e \<and> (k = Inl e \<or> (\<forall>v i. e \<noteq> Never_Terminal v i)) \<or> res = Inr () \<and> (\<exists>y. k = Inr y))"
        using run' Inr dr by (auto simp: drive_extraction_def on_files_def and_then_def split: sum.splits if_splits)
      then show ?thesis using s b by (auto simp: waited_def)
    qed
  qed
qed

lemma generate_report_waited:
  assumes q: "only_time (sc_between env)" and ok: "service_ok d" and run: "generate_report env base am (w, fs, d) = (res, w', fs', d')"
  shows "waited 4 res d d' \<and> (\<forall>k. res = Inr k \<longrightarrow> finished k \<and> k \<in> set (report_jobs d') \<and> job_tenant k = sample_tenant
      \<and> rj_base k = doc_id base \<and> rj_amended k = doc_id am)"
proof -
  let ?d = "sc_between env d"
  note b = between_time[OF q ok]
  obtain x d1 where e: "enqueue_change_report no_request sample_tenant (doc_id base) (doc_id am) ?d = (x, d1)" by fastforce
  note en = enqueue_report_quiet[OF b(1) e]
  show ?thesis
  proof (cases x)
    case (Inl y)
    then have "d' = d1" "res = Inl (Service_Raised y)" using run e by (simp_all add: generate_report_def)
    then show ?thesis using en b by (auto simp: waited_def enqueued_def)
  next
    case (Inr j)
    obtain k w2 d2 where dr: "drive True (get_change_report_job sample_tenant (job_id j))
        (run_next_change_report_job (sc_llm env) (sc_coercions env) (sc_engines env) (review_confidence_threshold_impact (sc_settings env)))
        (sc_between env) (Never_Terminal ''change report job'' (job_id j)) max_worker_passes w d1 = (k, w2, d2)" by (metis prod_cases3)
    have "enqueued sample_tenant report_jobs (Inr j) ?d d1" using en Inr by simp
    note s = report_settling.drive_enqueued[OF q this _ dr, unfolded get_change_report_job_def, OF refl]
    have r: "d' = d2" "res = k" using run e Inr dr by (simp_all add: generate_report_def on_files_def)
    have more: "job.more j = \<lparr>rj_base = doc_id base, rj_amended = doc_id am\<rparr>" using en Inr by simp
    have "rj_base y = doc_id base \<and> rj_amended y = doc_id am" if "job.more y = \<lparr>rj_base = doc_id base, rj_amended = doc_id am\<rparr>"
      for y :: report_job using that by (cases y) simp
    then have "\<forall>y. k = Inr y \<longrightarrow> finished y \<and> y \<in> set (report_jobs d') \<and> job_tenant y = sample_tenant
      \<and> rj_base y = doc_id base \<and> rj_amended y = doc_id am"
      using s more r(1) by (auto simp: find_job_def dest!: find_Some_mem)
    then show ?thesis using s b r by (auto simp: waited_def)
  qed
qed

lemma upload_sample_step:
  assumes "only_time (sc_between env)" "service_ok d" "upload_sample env name txt am (w, fs, d) = (res, w', fs', d')"
  shows "service_ok d' \<and> backlog d' = backlog d \<and> keeps_documents d d' \<and> (\<forall>v i. res \<noteq> Inl (Never_Terminal v i))
    \<and> (\<forall>r. res = Inr r \<longrightarrow> r \<in> set (documents d') \<and> doc_tenant r = sample_tenant
        \<and> doc_sha r = sha256_hex (sc_libs env) (utf8_encode txt))"
proof -
  obtain q g d1 where u: "upload_or_find env sample_tenant name text_mime (utf8_encode txt) am (fs, d) = (q, g, d1)"
    by (metis prod_cases3)
  have "res = map_sum id snd q" "d' = d1" using assms(3) by (simp_all add: upload_sample_def u)
  with upload_or_find_quiet[OF assms(1,2) u] show ?thesis by (cases q) auto
qed

lemma waited_patient: "(\<And>w fs d res w' fs' d'. service_ok d \<Longrightarrow> m (w, fs, d) = (res, w', fs', d') \<Longrightarrow> waited n res d d') \<Longrightarrow> patient n m"
  by (rule patientI) (auto simp: waited_def)

lemma sample_pipeline_patient:
  assumes q: "only_time (sc_between env)"
  shows "patient 20 (sample_pipeline env isoformat bt amd)"
proof -
  have up: "patient 0 (upload_sample env name tx am)" for name tx am
    using upload_sample_step[OF q] by (intro patientI) fastforce
  have steps: "patient 4 (ensure_ingested env r)" "patient 4 (ensure_extracted env r)" "patient 4 (generate_report env b a)" for r b a
    using ensure_ingested_waited[OF q] ensure_extracted_waited[OF q] generate_report_waited[OF q] by (auto intro!: waited_patient)
  have fin: "patient 0 (\<lambda>s'. (report_artifact isoformat b a r, s'))" for b a r
    by (rule patient_return) (auto simp: report_artifact_def split: job_state.splits option.splits)
  have "patient (0 + (0 + (4 + (4 + (4 + (4 + (4 + 0))))))) (sample_pipeline env isoformat bt amd)"
    unfolding sample_pipeline_def by (intro patient_then up steps fin)
  then show ?thesis by simp
qed

lemma sample_report_patient:
  assumes "only_time (sc_between env)"
  shows "patient 20 (make_sample_report env isoformat record)"
proof (cases "golden_texts record")
  case (Inl e)
  then have "e \<noteq> Never_Terminal v i" for v i
    by (auto simp: golden_texts_def split: option.splits json.splits)
  with Inl show ?thesis by (auto simp: patient_def make_sample_report_def)
next
  case (Inr ba)
  show ?thesis
  proof (cases "make_client (openai_api_key (sc_settings env)) (sc_llm env)")
    case (Inr l)
    with \<open>golden_texts record = Inr ba\<close> have "make_sample_report env isoformat record
        = sample_pipeline (env\<lparr>sc_llm := l\<rparr>) isoformat (fst ba) (snd ba)"
      by (simp add: fun_eq_iff make_sample_report_def split: prod.splits)
    then show ?thesis using assms sample_pipeline_patient[of "env\<lparr>sc_llm := l\<rparr>"] by simp
  qed (simp add: Inr patient_def make_sample_report_def split: prod.splits)
qed

lemma and_then_InrE:
  assumes "and_then m f (w, fs, d) = (Inr y, w', fs', d')"
  obtains x w1 fs1 d1 where "m (w, fs, d) = (Inr x, w1, fs1, d1)" "f x (w1, fs1, d1) = (Inr y, w', fs', d')"
  using assms by (auto simp: and_then_def split: prod.splits sum.splits)

text \<open>What an upload that found or stored a document had to pass.\<close>

lemma upload_or_find_accepts:
  assumes "upload_or_find env t name mime content am (fs, d) = (Inr br, fs', d')"
  shows "Some mime \<in> Some ` allowed_mime_types \<and> read_upload (upload_limit env) 0 [] [content] = Inr content
    \<and> sniff_mime (sc_libs env) content = Some mime \<and> (\<forall>p. am = Some p \<longrightarrow> find_document t p (sc_between env d) \<noteq> None)"
proof -
  have "q = Inr r \<or> (\<exists>x. q = Inl (Document_Already_Exists x)) \<Longrightarrow>
      Some mime \<in> Some ` allowed_mime_types \<and> read_upload mx 0 [] [content] = Inr content
      \<and> sniff_mime lib content = Some mime \<and> (\<forall>p. am = Some p \<longrightarrow> find_document t p d0 \<noteq> None)"
    if "upload_document lib ctx mx f t (Some name) (Some mime) [content] am (fs, d0) = (q, g, d1)" for q r g d0 d1 lib ctx mx f
    using that by (auto simp: upload_document_def Let_def split: if_splits sum.splits option.splits)
  note accept = this
  obtain q g d1 where u: "upload_document (sc_libs env) no_request (upload_limit env) (sc_between env) t (Some name) (Some mime) [content] am
      (fs, sc_between env d) = (q, g, d1)" by (metis prod_cases3)
  have "(\<exists>r. q = Inr r) \<or> (\<exists>x. q = Inl (Document_Already_Exists x))"
    using assms by (auto simp: upload_or_find_def u split: sum.splits exn.splits)
  with accept[OF u] show ?thesis by blast
qed

lemma keeps_document:
  assumes "keeps_documents d d'" "r \<in> set (documents d)"
  shows "\<exists>x \<in> set (documents d'). doc_frame x = doc_frame r"
proof -
  have "doc_frame r \<in> set (map doc_frame (documents d'))" using assms by auto
  then show ?thesis by auto
qed

lemma same_document:
  assumes "same_documents d d'" "doc_frame r \<in> set (map doc_frame (documents d))"
  shows "\<exists>x \<in> set (documents d'). doc_frame x = doc_frame r"
proof -
  have "doc_frame r \<in> set (map doc_frame (documents d'))" using assms by simp
  then show ?thesis by auto
qed

lemma report_artifact_Inr:
  assumes "report_artifact isoformat b a k = Inr artifact"
  shows "\<exists>result. job_status k = Completed \<and> job_result k = Some result \<and> jfield ''changes'' result \<noteq> None
    \<and> jfield ''changes'' artifact = jfield ''changes'' result
    \<and> jfield ''generated_at'' artifact = Some (JStr (isoformat (job_updated k)))"
  using assms by (auto simp: report_artifact_def jfield_def split: job_state.splits option.splits)

text \<open>What a pipeline that ends with an artifact leaves: the report and the two documents it names.\<close>

lemma pipeline_reports:
  assumes q: "only_time (sc_between e)" and ok: "service_ok d"
    and run: "sample_pipeline e isoformat bt amd (w, fs, d) = (Inr artifact, w', fs', d')"
  shows "\<exists>b a k. report_artifact isoformat b a k = Inr artifact \<and> service_ok d' \<and> k \<in> set (report_jobs d')
    \<and> job_tenant k = sample_tenant \<and> rj_base k = doc_id b \<and> rj_amended k = doc_id a
    \<and> (\<exists>x \<in> set (documents d'). doc_id x = doc_id b \<and> doc_tenant x = sample_tenant \<and> doc_sha x = sha256_hex (sc_libs e) (utf8_encode bt))
    \<and> (\<exists>x \<in> set (documents d'). doc_id x = doc_id a \<and> doc_tenant x = sample_tenant \<and> doc_sha x = sha256_hex (sc_libs e) (utf8_encode amd))"
proof -
  obtain b w1 f1 d1 a w2 f2 d2 w3 f3 d3 w4 f4 d4 w5 f5 d5 w6 f6 d6 k where
    s1: "upload_sample e agreement_filename bt None (w, fs, d) = (Inr b, w1, f1, d1)" and
    s2: "upload_sample e amendment_filename amd (Some (doc_id b)) (w1, f1, d1) = (Inr a, w2, f2, d2)" and
    s3: "ensure_ingested e b (w2, f2, d2) = (Inr (), w3, f3, d3)" and
    s4: "ensure_ingested e a (w3, f3, d3) = (Inr (), w4, f4, d4)" and
    s5: "ensure_extracted e b (w4, f4, d4) = (Inr (), w5, f5, d5)" and
    s6: "ensure_extracted e a (w5, f5, d5) = (Inr (), w6, f6, d6)" and
    s7: "generate_report e b a (w6, f6, d6) = (Inr k, w', fs', d')" and
    art: "report_artifact isoformat b a k = Inr artifact"
    using run unfolding sample_pipeline_def by (elim and_then_InrE) (rule that, simp_all)
  note h1 = upload_sample_step[OF q ok s1]
  note h2 = upload_sample_step[OF q conjunct1[OF h1] s2]
  note h3 = ensure_ingested_waited[OF q conjunct1[OF h2] s3, unfolded waited_def]
  note h4 = ensure_ingested_waited[OF q conjunct1[OF h3] s4, unfolded waited_def]
  note h5 = ensure_extracted_waited[OF q conjunct1[OF h4] s5, unfolded waited_def]
  note h6 = ensure_extracted_waited[OF q conjunct1[OF h5] s6, unfolded waited_def]
  note h7 = generate_report_waited[OF q conjunct1[OF h6] s7, unfolded waited_def]
  have same: "same_documents d2 d'" using h3 h4 h5 h6 h7 by simp
  have "doc_frame b \<in> set (map doc_frame (documents d1))" using h1 by simp
  then have "doc_frame b \<in> set (map doc_frame (documents d2))" "doc_frame a \<in> set (map doc_frame (documents d2))"
    using h2 by auto
  note docs = this[THEN same_document[OF same]]
  obtain b' a' where "b' \<in> set (documents d')" "doc_frame b' = doc_frame b" "a' \<in> set (documents d')" "doc_frame a' = doc_frame a"
    using docs by blast
  then show ?thesis using art h1 h2 h7
    by (intro exI[of _ b] exI[of _ a] exI[of _ k] conjI bexI[of _ b'] bexI[of _ a']) (simp_all add: doc_frame_def)
qed

subsection \<open>Properties\<close>

text \<open>
  C24: The sample-report script never gives up on a job: with no other process at work and
  fewer than thirty claims left in the three queues when it starts, none of its loops of
  fifty worker passes runs out, whatever the model answers and whatever jobs the passes claim
  first; it ends with the artifact or with another exception, and the invariant holds.
\<close>

theorem sample_report_outlasts_backlog:
  assumes "only_time (sc_between env)" "service_ok d" "backlog d < 30"
    and "make_sample_report env isoformat record (w, fs, d) = (res, w', fs', d')"
  shows "service_ok d' \<and> (\<forall>v i. res \<noteq> Inl (Never_Terminal v i))"
  using patientD[OF sample_report_patient[OF assms(1)] assms(2,4)] assms(3) by (auto simp: max_worker_passes_def)


text \<open>
  C26: A re-run reuses the uploads: once a text has been uploaded, uploading it again in any
  later database that still has the documents returns that document, under whatever file
  name, and leaves the files and all tables as they are.
\<close>

theorem rerun_reuses_the_upload:
  assumes "only_time (sc_between env)" "service_ok d" "upload_sample env name tx am (w, fs, d) = (Inr r, w1, fs1, d1)"
    and "service_ok d2" "keeps_documents d1 d2"
  shows "\<exists>x u. upload_sample env name' tx am (w2, fs2, d2) = (Inr x, w2, fs2, d2\<lparr>clock := u\<rparr>)
    \<and> x \<in> set (documents d2) \<and> doc_id x = doc_id r"
proof -
  let ?c = "utf8_encode tx" and ?lib = "sc_libs env"
  obtain br where u1: "upload_or_find env sample_tenant name text_mime ?c am (fs, d) = (Inr br, fs1, d1)"
    using assms(3) by (auto simp: upload_sample_def map_sum_def split: prod.splits sum.splits)
  note acc = upload_or_find_accepts[OF u1] and st = upload_sample_step[OF assms(1-3)]
  obtain u where u: "sc_between env d2 = d2\<lparr>clock := u\<rparr>" using assms(1) by (auto simp: only_time_def)
  obtain x where x: "x \<in> set (documents d2)" "doc_frame x = doc_frame r" using keeps_document[OF assms(5)] st by blast
  then have key: "doc_id x = doc_id r" "doc_tenant x = sample_tenant" "doc_sha x = sha256_hex ?lib ?c"
    using st by (simp_all add: doc_frame_def)
  have "distinct (map (\<lambda>r. (doc_tenant r, doc_sha r)) (documents d2))" using assms(4) by (simp add: service_ok_def db_ok_def docs_ok_def)
  then have found: "find_document_by_sha sample_tenant (sha256_hex ?lib ?c) (d2\<lparr>clock := u\<rparr>) = Some x"
    unfolding find_document_by_sha_def by (intro find_key_unique[of "\<lambda>r. (doc_tenant r, doc_sha r)"]) (use x(1) key in auto)
  have parent: "find_document sample_tenant p (d2\<lparr>clock := u\<rparr>) \<noteq> None" if p: "am = Some p" for p
  proof -
    obtain y where "find_document sample_tenant p (sc_between env d) = Some y" using acc p by auto
    then have y: "y \<in> set (documents d)" "doc_id y = p" "doc_tenant y = sample_tenant"
      using find_document_Some between_time(3)[OF assms(1,2)] by fastforce+
    obtain y1 where "y1 \<in> set (documents d1)" "doc_frame y1 = doc_frame y" using keeps_document[of d d1] st y(1) by blast
    then obtain y2 where "y2 \<in> set (documents d2)" "doc_frame y2 = doc_frame y" using keeps_document[OF assms(5)] by metis
    then have "owned (documents d2) sample_tenant p" using y(2,3) by (auto simp: owned_def doc_frame_def)
    then show ?thesis by (simp add: find_document_None)
  qed
  have "upload_valid ?lib (upload_limit env) sample_tenant (Some text_mime) [?c] am (d2\<lparr>clock := u\<rparr>)
      = Inl (Document_Already_Exists (Some (doc_id x)))"
    using acc parent found by (cases am) (auto simp: upload_valid_def simp del: read_upload.simps)
  note inv = upload_document_invalid[OF this]
  have "upload_sample env name' tx am (w2, fs2, d2) = (Inr x, w2, fs2, d2\<lparr>clock := u\<rparr>)"
    by (simp add: upload_sample_def upload_or_find_def u inv found)
  then show ?thesis using x(1) key(1) by blast
qed

text \<open>A sample deployment: one more clock tick before every session, and a model that finds no obligation.\<close>

definition script_llm :: "unit openai" where
  "script_llm = report_llm\<lparr>
     sdk_embed := (\<lambda>_ _ w. ((Embed_Reply None [(0, replicate 1536 1)], 0), w)),
     sdk_parse := (\<lambda>m schema s u w.
       if schema = ''ObligationExtraction''
       then ((Parse_Reply None [Content (JObj [(''obligations'', JArr []), (''defined_terms'', JArr [])])], 0), w)
       else sdk_parse report_llm m schema s u w)\<rparr>"

definition sample_script :: "unit script_env" where
  "sample_script = \<lparr>sc_llm = script_llm, sc_libs = text_lib, sc_extractors = no_extractors, sc_coercions = plain_coercions,
     sc_engines = plain_engines, sc_settings = default_settings\<lparr>openai_api_key := ''key''\<rparr>,
     sc_between = (\<lambda>d. d\<lparr>clock := clock d + 1\<rparr>)\<rparr>"

definition sample_golden :: json where
  "sample_golden = JObj [(''input'', JObj [(''base_text'', JStr ''1. Pay now''), (''amended_text'', JStr ''1. Pay later'')])]"

lemma sample_script_time: "only_time (sc_between sample_script)"
  by (auto simp: only_time_def sample_script_def)

theorem sample_report_outlasts_backlog_witness:
  "service_ok (snd (snd (snd (make_sample_report sample_script (\<lambda>_. ''now'') sample_golden ((), (\<lambda>_. None), empty_db)))))
   \<and> fst (make_sample_report sample_script (\<lambda>_. ''now'') sample_golden ((), (\<lambda>_. None), empty_db))
       \<noteq> Inl (Never_Terminal ''ingestion job'' 4)"
proof -
  obtain res w fs d where e: "make_sample_report sample_script (\<lambda>_. ''now'') sample_golden ((), (\<lambda>_. None), empty_db) = (res, w, fs, d)"
    by (metis prod_cases4)
  have "backlog empty_db < 30" by (simp add: backlog_eq empty_db_def pending_claims_def)
  from sample_report_outlasts_backlog[OF sample_script_time service_ok_empty this e] show ?thesis by (simp add: e)
qed

text \<open>The two uploads of the sample run, then the rest of it, evaluated.\<close>

definition sample_doc :: "uuid \<Rightarrow> string \<Rightarrow> string \<Rightarrow> uuid option \<Rightarrow> time \<Rightarrow> document" where
  "sample_doc i name tx parent t = \<lparr>doc_id = i, doc_tenant = sample_tenant, doc_filename = name, doc_mime = text_mime,
     doc_sha = tx, doc_amends = parent, doc_status = Uploaded, doc_created = t, doc_updated = t\<rparr>"

definition sample_base :: document where
  "sample_base = sample_doc 0 agreement_filename ''1. Pay now'' None 2"

definition sample_amendment :: document where
  "sample_amendment = sample_doc 2 amendment_filename ''1. Pay later'' (Some 0) 4"

definition base_uploaded :: "unit \<times> files \<times> db" where
  "base_uploaded = ((), (\<lambda>_. None)((sample_tenant, ''1. Pay now'') \<mapsto> ''1. Pay now''),
     audit_record no_request sample_tenant ''document.upload'' ''document'' (Some 0) (Some (upload_detail sample_base (length ''1. Pay now'')))
       (empty_db\<lparr>documents := [sample_base], next_id := 1, clock := 2\<rparr>))"

definition both_uploaded :: "unit \<times> files \<times> db" where
  "both_uploaded = (case base_uploaded of (w, fs, d) \<Rightarrow> (w, fs((sample_tenant, ''1. Pay later'') \<mapsto> ''1. Pay later''),
     audit_record no_request sample_tenant ''document.upload'' ''document'' (Some 2) (Some (upload_detail sample_amendment (length ''1. Pay later'')))
       (d\<lparr>documents := [sample_base, sample_amendment], next_id := 3, clock := 4\<rparr>)))"

lemmas upload_eval = upload_sample_def upload_or_find_def upload_document_def upload_limit_def sample_script_def
  default_settings_def text_lib_def sniff_mime_def allowed_mime_types_def empty_db_def find_document_by_sha_def
  create_document_def has_nul_def utf8_encode_def Let_def agreement_filename_def amendment_filename_def text_mime_def pdf_mime_def
  docx_mime_def zip_magic_def pdf_magic_def sample_doc_def save_document_def find_document_def starts_with_def
  base_uploaded_def both_uploaded_def sample_base_def sample_amendment_def audit_record_def no_request_def
  numeral_2_eq_2 numeral_3_eq_3

lemma sample_uploads:
  "upload_sample sample_script agreement_filename ''1. Pay now'' None ((), (\<lambda>_. None), empty_db) = (Inr sample_base, base_uploaded)"
  "upload_sample sample_script amendment_filename ''1. Pay later'' (Some (doc_id sample_base)) base_uploaded
     = (Inr sample_amendment, both_uploaded)"
  by (simp_all add: upload_eval)

definition after_uploads :: "(unit, json) script" where
  "after_uploads =
     and_then (ensure_ingested sample_script sample_base) (\<lambda>_.
     and_then (ensure_ingested sample_script sample_amendment) (\<lambda>_.
     and_then (ensure_extracted sample_script sample_base) (\<lambda>_.
     and_then (ensure_extracted sample_script sample_amendment) (\<lambda>_.
     and_then (generate_report sample_script sample_base sample_amendment) (\<lambda>report s'.
       (report_artifact (\<lambda>_. ''now'') sample_base sample_amendment report, s'))))))"

lemma after_uploads_succeeds: "(case fst (after_uploads both_uploaded) of Inl _ \<Rightarrow> False | Inr _ \<Rightarrow> True)"
  by code_simp

lemma sample_run: "make_sample_report sample_script (\<lambda>_. ''now'') sample_golden ((), (\<lambda>_. None), empty_db) = after_uploads both_uploaded"
proof -
  have g: "golden_texts sample_golden = Inr (''1. Pay now'', ''1. Pay later'')"
    by (simp add: golden_texts_def sample_golden_def jfield_def)
  have c: "make_client (openai_api_key (sc_settings sample_script)) (sc_llm sample_script) = Inr (sc_llm sample_script)"
    by (simp add: make_client_def sample_script_def)
  have "sample_script\<lparr>sc_llm := sc_llm sample_script\<rparr> = sample_script" by simp
  then show ?thesis
    by (simp only: make_sample_report_def g c sum.case prod.case sample_pipeline_def and_then_def sample_uploads after_uploads_def)
qed


theorem rerun_reuses_the_upload_witness:
  "\<exists>x u. upload_sample sample_script ''again.txt'' ''1. Pay now'' None base_uploaded
     = (Inr x, (), fst (snd base_uploaded), snd (snd base_uploaded)\<lparr>clock := u\<rparr>) \<and> doc_id x = 0"
proof -
  obtain fs d where b: "base_uploaded = ((), fs, d)" by (metis prod_cases3 unit.exhaust)
  note u = sample_uploads(1)[unfolded b]
  have "service_ok d" using upload_sample_step[OF sample_script_time service_ok_empty u] by blast
  from rerun_reuses_the_upload[OF sample_script_time service_ok_empty u this subset_refl, of "''again.txt''" "()" fs]
  show ?thesis by (auto simp: b sample_base_def sample_doc_def)
qed

text \<open>A queue of \<open>n\<close> jobs out of attempts, the first \<open>k\<close> already given up on, before the job one waits for.\<close>

definition lapsed_job :: "nat \<Rightarrow> doc_job" where
  "lapsed_job i = (new_doc_job i (int i) eval_tenant 0)\<lparr>job_status := Running, job_attempts := max_attempts, job_lease := Some 0\<rparr>"

definition crowd_row :: "nat \<Rightarrow> nat \<Rightarrow> nat \<Rightarrow> doc_job" where
  "crowd_row n k i = (if i < k then claim_row (61 + int i) (lapsed_job i)
     else if i < n then lapsed_job i else new_doc_job i (int i) eval_tenant 1)"

definition crowded_db :: "nat \<Rightarrow> nat \<Rightarrow> db" where
  "crowded_db n k = empty_db\<lparr>
     documents := [(sample_document 0 ''h0'' None)\<lparr>doc_tenant := eval_tenant, doc_status := Parse_Failed\<rparr>,
       (sample_document 1 ''h1'' None)\<lparr>doc_tenant := eval_tenant, doc_status := Uploaded\<rparr>],
     ingestion_jobs := map (crowd_row n k) [0 ..< Suc n], next_id := Suc n, clock := 60 + int k\<rparr>"

lemma crowd_row_simps [simp]:
  "job_id (crowd_row n k i) = i" "job_tenant (crowd_row n k i) = eval_tenant" "job_created (crowd_row n k i) = int i"
  by (simp_all add: crowd_row_def lapsed_job_def new_doc_job_def)

lemma crowd_runnable: "k \<le> n \<Longrightarrow> runnable (61 + int k) (crowd_row n k i) \<longleftrightarrow> k \<le> i"
  by (auto simp: runnable_def crowd_row_def claim_row_def lapsed_job_def new_doc_job_def Let_def)

lemma crowd_claim:
  assumes "k < n"
  shows "claim_next (61 + int k) {} (map (crowd_row n k) [0 ..< Suc n])
    = (Some (crowd_row n (Suc k) k), map (crowd_row n (Suc k)) [0 ..< Suc n])"
proof -
  define m where "m = Suc n"
  have k: "k < m" "k < n" using assms by (simp_all add: m_def)
  have "filter (\<lambda>i. k \<le> i) [0 ..< m] = [k ..< m]"
  proof -
    have "[0 ..< m] = [0 ..< k] @ [k ..< m]" using k upt_add_eq_append[of 0 k "m - k"] by simp
    then show ?thesis by (auto simp: filter_empty_conv intro: filter_True)
  qed
  moreover have "filter (\<lambda>i. runnable (61 + int k) (crowd_row n k i)) [0 ..< m] = filter (\<lambda>i. k \<le> i) [0 ..< m]"
    using k crowd_runnable[of k n] by (intro filter_cong) auto
  ultimately have "select_where (\<lambda>j. runnable (61 + int k) j \<and> job_id j \<notin> {}) (map (crowd_row n k) [0 ..< m]) = map (crowd_row n k) [k ..< m]"
    by (simp add: select_where_def filter_map comp_def)
  moreover have "order_by claim_key (map (crowd_row n k) [k ..< m]) = map (crowd_row n k) [k ..< m]"
    unfolding order_by_def by (rule sort_key_id_if_sorted) (simp add: claim_key_def sorted_wrt_iff_nth_less less_eq_prod_def)
  ultimately have "first_row (order_by claim_key (select_where (\<lambda>j. runnable (61 + int k) j \<and> job_id j \<notin> {}) (map (crowd_row n k) [0 ..< m])))
      = Some (crowd_row n k k)"
    using k by (simp only: first_row_def) (simp add: upt_conv_Cons)
  moreover have "claim_row (61 + int k) (crowd_row n k k) = crowd_row n (Suc k) k" using k by (simp add: crowd_row_def)
  moreover have "update_where (\<lambda>r. job_id r = k) (claim_row (61 + int k)) (map (crowd_row n k) [0 ..< m]) = map (crowd_row n (Suc k)) [0 ..< m]"
    using k by (auto simp: update_where_def crowd_row_def lapsed_job_def new_doc_job_def less_Suc_eq)
  ultimately show ?thesis by (simp add: claim_next_def m_def del: upt_Suc)
qed

lemma crowd_pass:
  assumes "k < n"
  shows "run_next_ingestion_job llm ex dir fs w (crowded_db n k\<lparr>clock := 61 + int k\<rparr>) = (Inr True, w, crowded_db n (Suc k))"
proof -
  have st: "job_status (crowd_row n (Suc k) k) = Failed" "dj_document (crowd_row n (Suc k) k) = 0"
    using assms by (simp_all add: crowd_row_def claim_row_def lapsed_job_def new_doc_job_def Let_def)
  show ?thesis using crowd_claim[OF assms] st
    by (simp add: run_next_ingestion_job_def claim_ingestion_def crowded_db_def find_document_def sample_document_def
        set_status_def claimed_def empty_db_def del: upt_Suc)
qed

lemma crowd_look:
  assumes "k \<le> n"
  shows "get_ingestion_job eval_tenant n (crowded_db n k\<lparr>clock := t\<rparr>) = Inr (new_doc_job n (int n) eval_tenant 1)"
proof -
  have "find_job eval_tenant n (map (crowd_row n k) [0 ..< Suc n]) = Some (crowd_row n k n)"
    unfolding find_job_def by (intro find_key_unique[of job_id]) (auto simp: comp_def simp del: upt_Suc)
  then show ?thesis using assms by (simp add: get_ingestion_job_def crowded_db_def crowd_row_def del: upt_Suc)
qed

lemma crowd_drive:
  assumes "k \<le> n"
  shows "drive False (get_ingestion_job eval_tenant n) (run_next_ingestion_job llm ex dir fs) (sc_between sample_script) never
      (k + m) w (crowded_db n 0)
    = drive False (get_ingestion_job eval_tenant n) (run_next_ingestion_job llm ex dir fs) (sc_between sample_script) never
      m w (crowded_db n k)"
  using assms
proof (induction k arbitrary: m)
  case (Suc k)
  have tick: "sc_between sample_script (crowded_db n k) = crowded_db n k\<lparr>clock := 61 + int k\<rparr>"
    by (simp add: sample_script_def crowded_db_def)
  have "\<not> finished (new_doc_job n (int n) eval_tenant 1)" by (simp add: finished_def new_doc_job_def)
  then show ?case using Suc.IH[of "Suc m"] Suc.prems
    by (simp add: tick crowd_look crowd_pass)
qed simp

lemma last_pass:
  "case drive False (get_ingestion_job eval_tenant 49) (run_next_ingestion_job script_llm no_extractors ''./data'' (\<lambda>_. Some ''Hi''))
       (sc_between sample_script) never 1 () (crowded_db 49 49) of (res, w, d) \<Rightarrow>
     res = Inl never \<and> map job_status (filter (\<lambda>j. job_id j = 49) (ingestion_jobs d)) = [Completed]"
  by code_simp

text \<open>
  C28: The fiftieth pass goes unseen: with 49 jobs ahead of it, the job a seeding run waits
  for is completed by the last of the loop's fifty passes, and the loop raises that the job
  never reached a terminal state: it looks at the job before each pass and not after the last.
\<close>

theorem last_pass_goes_unseen:
  "case drive_to_terminal sample_script 49 ((), (\<lambda>_. Some ''Hi''), crowded_db 49 0) of (res, w, fs, d) \<Rightarrow>
     res = Inl (Never_Terminal ''ingestion job'' 49) \<and> map job_status (filter (\<lambda>j. job_id j = 49) (ingestion_jobs d)) = [Completed]"
proof -
  let ?drive = "drive False (get_ingestion_job eval_tenant 49) (run_next_ingestion_job script_llm no_extractors ''./data'' (\<lambda>_. Some ''Hi''))
       (sc_between sample_script) (Never_Terminal ''ingestion job'' 49)"
  have env: "sc_llm sample_script = script_llm" "sc_extractors sample_script = no_extractors"
      "data_dir (sc_settings sample_script) = ''./data''"
    by (simp_all add: sample_script_def default_settings_def)
  have passes: "max_worker_passes = 49 + 1" by (simp add: max_worker_passes_def)
  have eq: "?drive max_worker_passes () (crowded_db 49 0) = ?drive 1 () (crowded_db 49 49)"
    unfolding passes by (rule crowd_drive) simp
  have run: "drive_to_terminal sample_script 49 ((), (\<lambda>_. Some ''Hi''), crowded_db 49 0)
      = (case ?drive max_worker_passes () (crowded_db 49 0) of (r, w, d) \<Rightarrow> (r, w, (\<lambda>_. Some ''Hi''), d))"
    unfolding drive_to_terminal_def on_files_def prod.case env by (rule refl)
  obtain r u d where d: "?drive 1 () (crowded_db 49 49) = (r, u, d)" by (cases "?drive 1 () (crowded_db 49 49)")
  show ?thesis using last_pass[of "Never_Terminal ''ingestion job'' 49"] unfolding run eq d prod.case .
qed

end
