(* ===== verification/ToolCalls.thy ===== *)
theory ToolCalls
  imports Llm JsonText
begin

section \<open>The tool-calling loop of the LLM client (app/llm/client.py, complete\_with\_tools)\<close>

text \<open>
  One completion that may call tools: each round sends the conversation so far; a reply
  without tool calls is the answer, otherwise every call is executed in order and its
  result is appended as tool-role data. The SDK's call and \<^verbatim>\<open>json.loads\<close> are parameters, the
  latter with \<open>None\<close> for text that does not parse; the handlers are the caller's. Every
  request is also recorded by \<open>recording\<close> below, which wraps the SDK's call, so that the
  lemmas can speak of what was sent.
\<close>

subsection \<open>Messages and tools\<close>

datatype tool_call =
    Function_Call string string string
  | Other_Call string string

datatype chat_message =
    System_Message string
  | User_Message string
  | Assistant_Message "string option" "tool_call list"
  | Tool_Message string string

datatype tool_reply =
    Tools_Api_Error string
  | Tools_Reply wire_usage "(string option \<times> tool_call list) list"

record 'w llm_tool =
  tool_name :: string
  tool_description :: string
  tool_parameters :: json
  tool_handler :: "json \<Rightarrow> 'w \<Rightarrow> (exn + json) \<times> 'w"

record 'w tool_client =
  tc_model :: string
  tc_chat :: "string \<Rightarrow> chat_message list \<Rightarrow> json list \<Rightarrow> 'w \<Rightarrow> (tool_reply \<times> nat) \<times> 'w"
  tc_loads :: "string \<Rightarrow> json option"
  tc_number :: "rat \<Rightarrow> string"

definition tool_args_log_limit :: nat where
  "tool_args_log_limit = 200"

text \<open>\<^verbatim>\<open>_redact\<close>: what is logged of the arguments, and whether an ellipsis marks a cut.\<close>

definition redact :: "(rat \<Rightarrow> string) \<Rightarrow> json \<Rightarrow> string \<times> bool" where
  "redact num arguments =
     (let rendered = dumps num arguments in
      if length rendered > tool_args_log_limit then (take tool_args_log_limit rendered, True) else (rendered, False))"

definition wire_tool :: "'w llm_tool \<Rightarrow> json" where
  "wire_tool t = JObj [(''type'', JStr ''function''), (''function'', JObj [(''name'', JStr (tool_name t)),
     (''description'', JStr (tool_description t)), (''parameters'', tool_parameters t)])]"

text \<open>\<^verbatim>\<open>by_name\<close>: of two tools of one name the later counts.\<close>

definition find_tool :: "'w llm_tool list \<Rightarrow> string \<Rightarrow> 'w llm_tool option" where
  "find_tool tools name = List.find (\<lambda>t. tool_name t = name) (rev tools)"

subsection \<open>The loop\<close>

text \<open>The calls of one reply, in order, each answered by one message.\<close>

fun run_calls :: "'w tool_client \<Rightarrow> 'w llm_tool list \<Rightarrow> tool_call list \<Rightarrow> 'w \<Rightarrow> (exn + chat_message list) \<times> 'w" where
  "run_calls c tools [] w = (Inr [], w)"
| "run_calls c tools (Other_Call i ty # calls) w =
     (Inl (Llm_Output_Error (''model requested unsupported tool call type '' @ ty) None), w)"
| "run_calls c tools (Function_Call i name args # calls) w =
     (case find_tool tools name of
        None \<Rightarrow> (Inl (Llm_Output_Error (''model requested unregistered tool '' @ name) None), w)
      | Some t \<Rightarrow>
          (case tc_loads c (if args = [] then ''{}'' else args) of
             None \<Rightarrow> (Inl (Llm_Output_Error (''model tool arguments failed to parse model='' @ tc_model c) None), w)
           | Some arguments \<Rightarrow>
               (case tool_handler t arguments w of
                  (Inl e, w') \<Rightarrow>
                    (Inl (if is_llm_error e then e
                          else Llm_Error (''tool handler failed tool='' @ tool_name t @ '': '' @ exn_str e)), w')
                | (Inr result, w') \<Rightarrow>
                    (case run_calls c tools calls w' of
                       (Inl e, w'') \<Rightarrow> (Inl e, w'')
                     | (Inr ms, w'') \<Rightarrow> (Inr (Tool_Message i (dumps (tc_number c) result) # ms), w'')))))"

text \<open>The rounds, with the tokens of the rounds before; \<open>limit\<close> only words the last error.\<close>

fun tool_rounds :: "'w tool_client \<Rightarrow> 'w llm_tool list \<Rightarrow> nat \<Rightarrow> nat \<Rightarrow> chat_message list \<Rightarrow> nat \<Rightarrow> nat \<Rightarrow> 'w
    \<Rightarrow> (exn + string \<times> llm_usage) \<times> 'w" where
  "tool_rounds c tools limit 0 messages p q w =
     (Inl (Llm_Output_Error (''model exceeded '' @ str_of_nat limit @ '' tool rounds without a final answer'') None), w)"
| "tool_rounds c tools limit (Suc n) messages p q w =
     (case tc_chat c (tc_model c) messages (map wire_tool tools) w of ((reply, ms), w') \<Rightarrow>
       (case reply of
          Tools_Api_Error m \<Rightarrow> (Inl (Llm_Call_Error (tc_model c) m), w')
        | Tools_Reply u [] \<Rightarrow> (Inl (Llm_Output_Error (''model returned no choices model='' @ tc_model c) None), w')
        | Tools_Reply u ((content, calls) # _) \<Rightarrow>
            (let p' = p + (case u of None \<Rightarrow> 0 | Some (a, b) \<Rightarrow> a); q' = q + (case u of None \<Rightarrow> 0 | Some (a, b) \<Rightarrow> b) in
             if calls = []
             then (case cost_usd (tc_model c) p' q' of
                 Inl e \<Rightarrow> (Inl e, w')
               | Inr cost \<Rightarrow> (Inr (case content of None \<Rightarrow> [] | Some t \<Rightarrow> t, usage_of (tc_model c) p' q' cost ms), w'))
             else (case run_calls c tools calls w' of
                 (Inl e, w'') \<Rightarrow> (Inl e, w'')
               | (Inr results, w'') \<Rightarrow>
                   tool_rounds c tools limit n (messages @ Assistant_Message content calls # results) p' q' w''))))"

definition complete_with_tools :: "'w tool_client \<Rightarrow> string \<Rightarrow> string \<Rightarrow> 'w llm_tool list \<Rightarrow> nat \<Rightarrow> 'w
    \<Rightarrow> (exn + string \<times> llm_usage) \<times> 'w" where
  "complete_with_tools c system user tools max_rounds w =
     tool_rounds c tools max_rounds max_rounds [System_Message system, User_Message user] 0 0 w"

subsection \<open>Recording what is sent and what is called\<close>

text \<open>
  A client and tools over a world that also keeps the conversations sent, the replies to them and the calls made:
  otherwise they act as the given ones.
\<close>

datatype tool_event = Asked "chat_message list" tool_reply | Called string json

definition recording :: "'w tool_client \<Rightarrow> ('w \<times> tool_event list) tool_client" where
  "recording c = \<lparr>tc_model = tc_model c,
     tc_chat = (\<lambda>m msgs ts (w, log). case tc_chat c m msgs ts w of (r, w') \<Rightarrow> (r, w', log @ [Asked msgs (fst r)])),
     tc_loads = tc_loads c, tc_number = tc_number c\<rparr>"

definition recording_tool :: "'w llm_tool \<Rightarrow> ('w \<times> tool_event list) llm_tool" where
  "recording_tool t = \<lparr>tool_name = tool_name t, tool_description = tool_description t, tool_parameters = tool_parameters t,
     tool_handler = (\<lambda>v (w, log). case tool_handler t v w of (r, w') \<Rightarrow> (r, w', log @ [Called (tool_name t) v]))\<rparr>"

text \<open>
  A well-formed conversation: system, user, then rounds of an assistant message with calls
  followed by one tool message per call, in order and under its identifier.
\<close>

fun call_id :: "tool_call \<Rightarrow> string" where
  "call_id (Function_Call i n a) = i"
| "call_id (Other_Call i ty) = i"

inductive conversation :: "chat_message list \<Rightarrow> bool" where
  start: "conversation [System_Message s, User_Message u]"
| turn: "conversation ms \<Longrightarrow> calls \<noteq> [] \<Longrightarrow> length rs = length calls \<Longrightarrow>
    conversation (ms @ Assistant_Message content calls # map2 (\<lambda>k r. Tool_Message (call_id k) r) calls rs)"

definition asked :: "tool_event list \<Rightarrow> chat_message list list" where
  "asked es = concat (map (\<lambda>e. case e of Asked ms r \<Rightarrow> [ms] | Called n v \<Rightarrow> []) es)"

definition called :: "tool_event list \<Rightarrow> string list" where
  "called es = concat (map (\<lambda>e. case e of Asked ms r \<Rightarrow> [] | Called n v \<Rightarrow> [n]) es)"

definition reply_tokens :: "tool_reply \<Rightarrow> nat \<times> nat" where
  "reply_tokens r = (case r of Tools_Reply (Some pq) _ \<Rightarrow> pq | _ \<Rightarrow> (0, 0))"

definition spent :: "tool_event list \<Rightarrow> nat \<times> nat" where
  "spent es = (let ts = concat (map (\<lambda>e. case e of Asked ms r \<Rightarrow> [reply_tokens r] | Called n v \<Rightarrow> []) es)
     in (sum_list (map fst ts), sum_list (map snd ts)))"

lemma spent_simps [simp]:
  "spent [] = (0, 0)" "spent (xs @ ys) = (fst (spent xs) + fst (spent ys), snd (spent xs) + snd (spent ys))"
  "spent (Asked ms r # xs) = (fst (reply_tokens r) + fst (spent xs), snd (reply_tokens r) + snd (spent xs))"
  "spent (Called n v # xs) = spent xs"
  by (simp_all add: spent_def Let_def)

lemma event_simps [simp]:
  "asked [] = []" "asked (xs @ ys) = asked xs @ asked ys" "asked (Asked ms r # xs) = ms # asked xs" "asked (Called n v # xs) = asked xs"
  "called [] = []" "called (xs @ ys) = called xs @ called ys" "called (Asked ms r # xs) = called xs" "called (Called n v # xs) = n # called xs"
  by (simp_all add: asked_def called_def)

subsection \<open>Lemmas\<close>

lemma find_recording: "find_tool (map recording_tool tools) name = map_option recording_tool (find_tool tools name)"
proof -
  have "List.find (\<lambda>t. tool_name t = name) (map recording_tool ts) = map_option recording_tool (List.find (\<lambda>t. tool_name t = name) ts)" for ts :: "'a llm_tool list"
    by (induction ts) (simp_all add: recording_tool_def)
  then show ?thesis by (simp add: find_tool_def rev_map)
qed

lemma find_tool_mem: "find_tool tools name = Some t \<Longrightarrow> t \<in> set tools \<and> tool_name t = name"
  by (auto simp: find_tool_def dest: find_Some_mem)

lemma recording_client [simp]: "tc_model (recording c) = tc_model c" "tc_loads (recording c) = tc_loads c" "tc_number (recording c) = tc_number c"
  by (simp_all add: recording_def)

lemma recording_tool_simps [simp]:
  "tool_name (recording_tool t) = tool_name t" "wire_tool (recording_tool t) = wire_tool t"
  "tool_handler (recording_tool t) v (w, es) = (case tool_handler t v w of (r, w') \<Rightarrow> (r, w', es @ [Called (tool_name t) v]))"
  by (simp_all add: recording_tool_def wire_tool_def)

lemma wire_recording [simp]: "wire_tool \<circ> recording_tool = wire_tool"
  by (simp add: fun_eq_iff)

lemma recording_chat: "tc_chat (recording c) m msgs ts (w, es) = (case tc_chat c m msgs ts w of (r, w') \<Rightarrow> (r, w', es @ [Asked msgs (fst r)]))"
  by (simp add: recording_def)

lemma tool_error: "client_error (Llm_Output_Error m None)" "client_error (Llm_Call_Error a b)" "client_error (Llm_Error m)"
  "client_error (Key_Error m)" "is_llm_error e \<Longrightarrow> client_error e"
  by (simp_all add: client_error_def is_llm_error_def)

text \<open>Recording changes nothing but the record.\<close>

definition unrecorded :: "'a \<times> 'w \<times> tool_event list \<Rightarrow> 'a \<times> 'w" where
  "unrecorded x = (fst x, fst (snd x))"

lemma run_calls_unrecorded:
  "unrecorded (run_calls (recording c) (map recording_tool tools) calls (w, es)) = run_calls c tools calls w"
proof (induction c tools calls w arbitrary: es rule: run_calls.induct)
  case (3 c tools i name args calls w)
  show ?case
  proof (cases "find_tool tools name")
    case (Some t)
    show ?thesis
    proof (cases "tc_loads c (if args = [] then ''{}'' else args)")
      case l: (Some v)
      obtain r w' where h: "tool_handler t v w = (r, w')" by fastforce
      show ?thesis
      proof (cases r)
        case (Inl e)
        then show ?thesis using Some l h by (simp add: find_recording unrecorded_def)
      next
        case (Inr x)
        obtain q y z where q: "run_calls (recording c) (map recording_tool tools) calls (w', es @ [Called (tool_name t) v]) = (q, y, z)"
          by (metis prod_cases3)
        have "run_calls c tools calls w' = (q, y)"
          using "3.IH"[OF Some l _ Inr, of w' "es @ [Called (tool_name t) v]"] h q by (simp add: unrecorded_def)
        then show ?thesis using Some l h Inr q by (cases q) (simp_all add: find_recording unrecorded_def)
      qed
    qed (simp add: Some find_recording unrecorded_def)
  qed (simp add: find_recording unrecorded_def)
qed (simp_all add: unrecorded_def)

lemma tool_rounds_unrecorded:
  "unrecorded (tool_rounds (recording c) (map recording_tool tools) limit n msgs p q (w, es)) = tool_rounds c tools limit n msgs p q w"
proof (induction n arbitrary: msgs p q w es)
  case (Suc n)
  obtain reply ms w1 where t: "tc_chat c (tc_model c) msgs (map wire_tool tools) w = ((reply, ms), w1)" by (metis prod.collapse)
  show ?case
  proof (cases reply)
    case (Tools_Reply u choices)
    show ?thesis
    proof (cases choices)
      case (Cons ch rest)
      obtain content calls where ch: "ch = (content, calls)" by (cases ch)
      obtain x y z where r: "run_calls (recording c) (map recording_tool tools) calls (w1, es @ [Asked msgs reply]) = (x, y, z)" by (metis prod_cases3)
      have "run_calls c tools calls w1 = (x, y)"
        using run_calls_unrecorded[of c tools calls w1 "es @ [Asked msgs reply]"] r by (simp add: unrecorded_def)
      then show ?thesis using t Tools_Reply Cons ch r Suc.IH
        by (cases "calls = []"; cases x) (simp_all add: recording_chat Let_def unrecorded_def split: sum.splits)
    qed (simp add: t Tools_Reply recording_chat unrecorded_def)
  qed (simp add: t recording_chat unrecorded_def)
qed (simp add: unrecorded_def)

text \<open>One reply's calls: only registered tools, at most one execution per call, one answer each.\<close>

lemma run_calls_trace:
  assumes "run_calls (recording c) (map recording_tool tools) calls (w, es) = (r, w', es')"
  shows "\<exists>cs. es' = es @ cs \<and> asked cs = [] \<and> set (called cs) \<subseteq> tool_name ` set tools \<and> length (called cs) \<le> length calls
    \<and> (case r of Inl e \<Rightarrow> client_error e
       | Inr ms \<Rightarrow> \<exists>rs. length rs = length calls \<and> ms = map2 (\<lambda>k r. Tool_Message (call_id k) r) calls rs)"
  using assms
proof (induction c tools calls w arbitrary: es r w' es' rule: run_calls.induct)
  case (3 c tools i name args calls w)
  show ?case
  proof (cases "find_tool tools name")
    case (Some t)
    note mem = find_tool_mem[OF Some]
    show ?thesis
    proof (cases "tc_loads c (if args = [] then ''{}'' else args)")
      case None
      then show ?thesis using 3(2) Some by (auto simp: find_recording tool_error)
    next
      case l: (Some v)
      obtain x w1 where h: "tool_handler t v w = (x, w1)" by fastforce
      show ?thesis
      proof (cases x)
        case (Inl e)
        then have "es' = es @ [Called name v]" "\<exists>e. r = Inl e \<and> client_error e"
          using 3(2) Some l h mem by (auto simp: find_recording tool_error)
        then show ?thesis using mem by (intro exI[of _ "[Called name v]"]) auto
      next
        case (Inr y)
        obtain q z es1 where q: "run_calls (recording c) (map recording_tool tools) calls (w1, es @ [Called name v]) = (q, z, es1)"
          by (metis prod_cases3)
        obtain cs where cs: "es1 = (es @ [Called name v]) @ cs" "asked cs = []" "set (called cs) \<subseteq> tool_name ` set tools"
            "length (called cs) \<le> length calls"
          and res: "case q of Inl e \<Rightarrow> client_error e
             | Inr ms \<Rightarrow> \<exists>rs. length rs = length calls \<and> ms = map2 (\<lambda>k r. Tool_Message (call_id k) r) calls rs"
          using "3.IH"[OF Some l h[symmetric] Inr q] by blast
        have es': "es' = es @ (Called name v # cs)" "r = map_sum id (\<lambda>ms. Tool_Message i (dumps (tc_number c) y) # ms) q"
        proof -
          have "run_calls (recording c) (map recording_tool tools) (Function_Call i name args # calls) (w, es)
              = (map_sum id (\<lambda>ms. Tool_Message i (dumps (tc_number c) y) # ms) q, z, es1)"
            by (cases q) (simp_all add: find_recording Some l h q conjunct2[OF mem] Inr)
          then show "es' = es @ (Called name v # cs)" "r = map_sum id (\<lambda>ms. Tool_Message i (dumps (tc_number c) y) # ms) q"
            using 3(2) cs(1) by simp_all
        qed
        have "case r of Inl e \<Rightarrow> client_error e
             | Inr ms \<Rightarrow> \<exists>rs. length rs = length (Function_Call i name args # calls)
                 \<and> ms = map2 (\<lambda>k r. Tool_Message (call_id k) r) (Function_Call i name args # calls) rs"
        proof (cases q)
          case (Inr ms)
          then obtain rs where "length rs = length calls" "ms = map2 (\<lambda>k r. Tool_Message (call_id k) r) calls rs" using res by auto
          then show ?thesis using es'(2) Inr by (auto intro!: exI[of _ "dumps (tc_number c) y # rs"])
        qed (use res es'(2) in simp)
        then show ?thesis using es'(1) cs mem by (intro exI[of _ "Called name v # cs"]) auto
      qed
    qed
  qed (use 3(2) in \<open>auto simp: find_recording tool_error\<close>)
qed (auto simp: tool_error)

lemma spent_calls: "asked es = [] \<Longrightarrow> spent es = (0, 0)"
proof (induction es)
  case (Cons e es)
  then show ?case by (cases e) simp_all
qed simp

text \<open>The rounds: what is sent is a conversation, and an answer accounts for every reply.\<close>

definition rounds_trace :: "'w tool_client \<Rightarrow> 'w llm_tool list \<Rightarrow> nat \<Rightarrow> nat \<Rightarrow> nat \<Rightarrow> exn + string \<times> llm_usage \<Rightarrow> tool_event list \<Rightarrow> bool" where
  "rounds_trace c tools n p q r ds \<longleftrightarrow> length (asked ds) \<le> n \<and> list_all conversation (asked ds)
     \<and> set (called ds) \<subseteq> tool_name ` set tools
     \<and> (case r of Inl e \<Rightarrow> client_error e
        | Inr (t, u) \<Rightarrow> us_model u = tc_model c \<and> us_prompt u = p + fst (spent ds) \<and> us_completion u = q + snd (spent ds)
            \<and> cost_usd (tc_model c) (us_prompt u) (us_completion u) = Inr (us_cost u))"

lemma tool_reply_cases:
  obtains m where "reply = Tools_Api_Error m" | u where "reply = Tools_Reply u []"
  | u content calls rest where "reply = Tools_Reply u ((content, calls) # rest)"
proof (cases reply)
  case (Tools_Reply u choices)
  then show ?thesis using that(2,3) by (cases choices) auto
qed (rule that(1))

text \<open>One round that is answered with a choice: what it leads to, with the tokens added up.\<close>

lemma tool_round_eq:
  assumes "tc_chat c (tc_model c) msgs (map wire_tool tools) w = ((reply, ms), w1)"
    and "reply = Tools_Reply u ((content, calls) # rest)"
  shows "tool_rounds (recording c) (map recording_tool tools) limit (Suc n) msgs p q (w, es) =
    (let p' = p + fst (reply_tokens reply); q' = q + snd (reply_tokens reply) in
     if calls = []
     then (map_sum id (\<lambda>cost. (case content of None \<Rightarrow> [] | Some t \<Rightarrow> t, usage_of (tc_model c) p' q' cost ms)) (cost_usd (tc_model c) p' q'),
       w1, es @ [Asked msgs reply])
     else (case run_calls (recording c) (map recording_tool tools) calls (w1, es @ [Asked msgs reply]) of
         (Inl e, w'') \<Rightarrow> (Inl e, w'')
       | (Inr results, w'') \<Rightarrow>
           tool_rounds (recording c) (map recording_tool tools) limit n (msgs @ Assistant_Message content calls # results) p' q' w''))"
proof -
  have "(case u of None \<Rightarrow> 0 | Some (a, b) \<Rightarrow> a) = fst (reply_tokens reply)" "(case u of None \<Rightarrow> 0 | Some (a, b) \<Rightarrow> b) = snd (reply_tokens reply)"
    by (simp_all add: reply_tokens_def assms(2) split: option.splits prod.splits)
  then show ?thesis by (simp add: recording_chat assms map_sum_def sum.case_distrib Let_def split: sum.splits)
qed

lemma answer_trace:
  assumes "conversation msgs" "p' = p + fst (reply_tokens reply)" "q' = q + snd (reply_tokens reply)"
  shows "rounds_trace c tools (Suc n) p q (map_sum id (\<lambda>cost. (t, usage_of (tc_model c) p' q' cost ms)) (cost_usd (tc_model c) p' q'))
    [Asked msgs reply]"
  using assms tool_error(4) cost_usd_error[of "tc_model c" p' q']
  by (cases "cost_usd (tc_model c) p' q'") (auto simp: rounds_trace_def usage_of_def)

lemma rounds_trace_error:
  "conversation msgs \<Longrightarrow> asked cs = [] \<Longrightarrow> set (called cs) \<subseteq> tool_name ` set tools \<Longrightarrow> client_error e
    \<Longrightarrow> rounds_trace c tools (Suc n) p q (Inl e) (Asked msgs reply # cs)"
  by (simp add: rounds_trace_def)

lemma rounds_trace_turn:
  assumes "conversation msgs" "asked cs = []" "set (called cs) \<subseteq> tool_name ` set tools"
    and "rounds_trace c tools n (p + fst (reply_tokens reply)) (q + snd (reply_tokens reply)) r ds"
  shows "rounds_trace c tools (Suc n) p q r (Asked msgs reply # cs @ ds)"
  using assms spent_calls[OF assms(2)] by (auto simp: rounds_trace_def split: sum.splits)

lemma tool_rounds_trace:
  assumes "conversation msgs" "tool_rounds (recording c) (map recording_tool tools) limit n msgs p q (w, es) = (r, w', es')"
  shows "\<exists>ds. es' = es @ ds \<and> rounds_trace c tools n p q r ds"
  using assms
proof (induction n arbitrary: msgs p q w es)
  case 0
  then show ?case by (auto simp: rounds_trace_def tool_error)
next
  case (Suc n)
  obtain reply ms w1 where t: "tc_chat c (tc_model c) msgs (map wire_tool tools) w = ((reply, ms), w1)" by (metis prod.collapse)
  have ?case if "r = Inl e" "es' = es @ [Asked msgs reply]" "client_error e" for e
    using that rounds_trace_error[OF Suc.prems(1), of "[]"] by (intro exI[of _ "[Asked msgs reply]"]) simp
  moreover have ?case if ch: "reply = Tools_Reply u ((content, calls) # rest)" for u content calls rest
  proof (cases "calls = []")
    case True
    note run = Suc.prems(2)[unfolded tool_round_eq[OF t ch] Let_def if_P[OF True] prod.inject]
    then show ?thesis using answer_trace[OF Suc.prems(1) refl refl] by (intro exI[of _ "[Asked msgs reply]"]) auto
  next
    case False
    obtain x y z where rc: "run_calls (recording c) (map recording_tool tools) calls (w1, es @ [Asked msgs reply]) = (x, y, z)"
      by (metis prod_cases3)
    from run_calls_trace[OF rc] obtain cs where cs: "z = (es @ [Asked msgs reply]) @ cs" "asked cs = []"
        "set (called cs) \<subseteq> tool_name ` set tools"
      and res: "case x of Inl e \<Rightarrow> client_error e
         | Inr ms \<Rightarrow> \<exists>rs. length rs = length calls \<and> ms = map2 (\<lambda>k r. Tool_Message (call_id k) r) calls rs" by blast
    note run = Suc.prems(2)[unfolded tool_round_eq[OF t ch] Let_def if_not_P[OF False] rc prod.case]
    show ?thesis
    proof (cases x)
      case (Inl e)
      then show ?thesis using run cs res rounds_trace_error[OF Suc.prems(1) cs(2,3)]
        by (intro exI[of _ "Asked msgs reply # cs"]) auto
    next
      case (Inr results)
      then obtain rs where rs: "length rs = length calls" "results = map2 (\<lambda>k r. Tool_Message (call_id k) r) calls rs" using res by auto
      have "conversation (msgs @ Assistant_Message content calls # results)"
        unfolding rs(2) by (rule conversation.turn[OF Suc.prems(1) False rs(1)])
      from Suc.IH[OF this run[unfolded Inr sum.case]] obtain ds where
        "es' = z @ ds" "rounds_trace c tools n (p + fst (reply_tokens reply)) (q + snd (reply_tokens reply)) r ds" by blast
      then show ?thesis using cs rounds_trace_turn[OF Suc.prems(1) cs(2,3)] by (intro exI[of _ "Asked msgs reply # cs @ ds"]) simp
    qed
  qed
  ultimately show ?case using Suc.prems(2) t tool_error
    by (cases reply rule: tool_reply_cases) (auto simp: recording_chat)
qed

subsection \<open>Properties\<close>

text \<open>
  C29: The tool loop is bounded and keeps the protocol. Whatever the model and the handlers do,
  at most \<open>max_rounds\<close> requests are sent; each is a conversation in which every tool call so
  far is answered once, in order and under its own identifier; only tools the caller passed
  are executed; and the call ends in one of the client's errors or in an answer whose usage is
  the sum over all replies, at the list price. Recording this changes no outcome.
\<close>

theorem tool_loop_keeps_protocol:
  assumes "complete_with_tools (recording c) system user (map recording_tool tools) max_rounds (w, []) = (r, w', es)"
  shows "complete_with_tools c system user tools max_rounds w = (r, w')
    \<and> length (asked es) \<le> max_rounds \<and> list_all conversation (asked es) \<and> set (called es) \<subseteq> tool_name ` set tools
    \<and> (case r of Inl e \<Rightarrow> client_error e
       | Inr (t, u) \<Rightarrow> (us_prompt u, us_completion u) = spent es
           \<and> cost_usd (tc_model c) (us_prompt u) (us_completion u) = Inr (us_cost u))"
proof -
  let ?m = "[System_Message system, User_Message user]"
  note run = assms[unfolded complete_with_tools_def]
  have "complete_with_tools c system user tools max_rounds w = (r, w')"
    using tool_rounds_unrecorded[of c tools max_rounds max_rounds ?m 0 0 w "[]"] run
    by (simp add: unrecorded_def complete_with_tools_def)
  moreover have "rounds_trace c tools max_rounds 0 0 r es"
    using tool_rounds_trace[OF conversation.start run] by simp
  ultimately show ?thesis unfolding rounds_trace_def by (cases "spent es") (auto split: sum.splits)
qed

definition sample_tool :: "unit llm_tool" where
  "sample_tool = \<lparr>tool_name = ''lookup'', tool_description = ''find a clause'', tool_parameters = JObj [],
     tool_handler = (\<lambda>v w. (Inr v, w))\<rparr>"

text \<open>A model that asks for one lookup, then answers.\<close>

definition tool_model :: "unit tool_client" where
  "tool_model = \<lparr>tc_model = ''gpt-4o-mini'',
     tc_chat = (\<lambda>m msgs ts w. ((Tools_Reply (Some (10, 5))
        [if length msgs = 2 then (None, [Function_Call ''c1'' ''lookup'' []]) else (Some ''done'', [])], 7), w)),
     tc_loads = (\<lambda>s. Some (JObj [])), tc_number = (\<lambda>q. [])\<rparr>"

theorem tool_loop_keeps_protocol_witness:
  "case complete_with_tools (recording tool_model) ''s'' ''u'' (map recording_tool [sample_tool]) 3 ((), []) of (r, w, es) \<Rightarrow>
     length (asked es) \<le> 3 \<and> called es = [''lookup''] \<and> (case r of Inl e \<Rightarrow> False | Inr (t, u) \<Rightarrow> t = ''done'' \<and> us_prompt u = 20)"
proof -
  let ?p = "complete_with_tools (recording tool_model) ''s'' ''u'' (map recording_tool [sample_tool]) 3 ((), [])"
  obtain r w es where p: "?p = (r, w, es)" by (metis prod_cases3)
  have "case ?p of (r, w, es) \<Rightarrow> called es = [''lookup''] \<and> (case r of Inl e \<Rightarrow> False | Inr (t, u) \<Rightarrow> t = ''done'' \<and> us_prompt u = 20)"
    by code_simp
  then show ?thesis using tool_loop_keeps_protocol[OF p] unfolding p by simp
qed

end
