(* ===== verification/EndToEnd.thy ===== *)
theory EndToEnd
  imports Api Scripts
begin

section \<open>From the request to the verdict (app/api with app/worker.py)\<close>

text \<open>
  The two processes together: a job that a request has queued is worked off by the worker's
  loop, and its poll then shows the verdict. The lemmas follow the three job tables through a
  pass of the worker and through its loop.
\<close>

subsection \<open>Rows without a worker, rows with a verdict\<close>

definition no_running :: "db \<Rightarrow> bool" where
  "no_running d \<longleftrightarrow> list_all (\<lambda>j. job_status j \<noteq> Running) (extraction_jobs d)
     \<and> list_all (\<lambda>j. job_status j \<noteq> Running) (ingestion_jobs d) \<and> list_all (\<lambda>j. job_status j \<noteq> Running) (report_jobs d)"

definition all_finished :: "db \<Rightarrow> bool" where
  "all_finished d \<longleftrightarrow> list_all finished (extraction_jobs d) \<and> list_all finished (ingestion_jobs d) \<and> list_all finished (report_jobs d)"

text \<open>The rows are those of before, some of them settled since.\<close>

definition progress :: "db \<Rightarrow> db \<Rightarrow> bool" where
  "progress d d' \<longleftrightarrow> settles (extraction_jobs d) (extraction_jobs d') \<and> settles (ingestion_jobs d) (ingestion_jobs d')
     \<and> settles (report_jobs d) (report_jobs d')"

lemma same_or_settled_trans:
  assumes "b = a \<or> (F b \<and> I b = I a \<and> T b = T a \<and> M b = M a)" "c = b \<or> (F c \<and> I c = I b \<and> T c = T b \<and> M c = M b)"
  shows "c = a \<or> (F c \<and> I c = I a \<and> T c = T a \<and> M c = M a)"
  using assms by auto

lemma settles_trans:
  assumes "settles xs ys" "settles ys zs"
  shows "settles xs zs"
proof -
  obtain g h where g: "ys = map g xs" "\<forall>j \<in> set xs. g j = j \<or>
       (finished (g j) \<and> job_id (g j) = job_id j \<and> job_tenant (g j) = job_tenant j \<and> job.more (g j) = job.more j)"
    and h: "zs = map h ys" "\<forall>j \<in> set ys. h j = j \<or>
       (finished (h j) \<and> job_id (h j) = job_id j \<and> job_tenant (h j) = job_tenant j \<and> job.more (h j) = job.more j)"
    using assms unfolding settles_def by (elim exE conjE)
  have "(h \<circ> g) j = j \<or> (finished ((h \<circ> g) j) \<and> job_id ((h \<circ> g) j) = job_id j \<and> job_tenant ((h \<circ> g) j) = job_tenant j
      \<and> job.more ((h \<circ> g) j) = job.more j)" if j: "j \<in> set xs" for j
  proof -
    have "g j \<in> set ys" using j by (simp add: g(1))
    from same_or_settled_trans[of "g j" j finished job_id job_tenant job.more "h (g j)", OF bspec[OF g(2) j] bspec[OF h(2) this]]
    show ?thesis unfolding comp_apply .
  qed
  then show ?thesis unfolding settles_def by (intro exI[of _ "h \<circ> g"]) (simp only: g(1) h(1) map_map, blast)
qed

lemma settles_keeps:
  assumes "settles rows rows'" "\<And>j. finished j \<Longrightarrow> P j" "list_all P rows"
  shows "list_all P rows'"
proof -
  obtain g where "rows' = map g rows" "\<forall>j \<in> set rows. g j = j \<or> finished (g j)"
    using assms(1) by (auto simp: settles_def)
  then show ?thesis using assms(2,3) by (fastforce simp: list_all_iff)
qed

lemma progress_refl: "progress d d"
  by (simp add: progress_def settles_refl)

lemma progress_trans: "progress a b \<Longrightarrow> progress b c \<Longrightarrow> progress a c"
  by (auto simp: progress_def intro: settles_trans)

lemma progress_clock: "progress (d\<lparr>clock := t\<rparr>) d' = progress d d'"
  by (simp add: progress_def)

lemma finished_not_running: "finished j \<Longrightarrow> job_status j \<noteq> Running"
  by (auto simp: finished_def)

lemma stuck_finished: "job_status j \<noteq> Running \<Longrightarrow> \<not> runnable t j \<Longrightarrow> finished j"
  by (cases "job_status j") (auto simp: finished_def runnable_def)

lemma settles_not_running:
  "settles rows rows' \<Longrightarrow> list_all (\<lambda>j. job_status j \<noteq> Running) rows \<Longrightarrow> list_all (\<lambda>j. job_status j \<noteq> Running) rows'"
  by (rule settles_keeps[OF _ finished_not_running])

lemma settles_finished: "settles rows rows' \<Longrightarrow> list_all finished rows \<Longrightarrow> list_all finished rows'"
  by (rule settles_keeps)

lemma progress_keeps:
  assumes "progress d d'"
  shows "no_running d \<Longrightarrow> no_running d'" and "all_finished d \<Longrightarrow> all_finished d'"
  using assms unfolding progress_def no_running_def all_finished_def by (blast intro: settles_not_running settles_finished)+

subsection \<open>A pass of the worker\<close>

lemma ingestion_others:
  assumes "service_ok d" "run_next_ingestion_job llm ex dir fs w d = (r, w', d')"
  shows "extraction_jobs d' = extraction_jobs d \<and> report_jobs d' = report_jobs d"
  using assms
proof (cases rule: ingestion_pass)
  case (Capped j d1)
  then show ?thesis using claim_service[OF assms(1) Capped(1)] by simp
next
  case (Run j d1 d2)
  note cl = claim_service[OF assms(1) Run(1)] and fr = usage_frame_simps[OF Run(3)]
  have "service_ok d2" by (rule usage_frame_service[OF Run(3) cl(1)])
  moreover have "j \<in> set (ingestion_jobs d2)" using cl(2) fr by simp
  ultimately show ?thesis using ended_ok(2,3)[OF Run(4) _ _ Run(2)] cl fr by simp
qed simp

lemma extraction_others:
  assumes "service_ok d" "run_next_extraction_job llm lx threshold w d = (r, w', d')"
  shows "ingestion_jobs d' = ingestion_jobs d \<and> report_jobs d' = report_jobs d"
  using assms
proof (cases rule: extraction_pass)
  case (Capped j)
  then show ?thesis using claim_extraction_service[OF assms(1) Capped(1)] by simp
next
  case (Run j d1 d2)
  note cl = claim_extraction_service[OF assms(1) Run(1)] and fr = usage_frame_simps[OF Run(3)]
  have "service_ok d2" by (rule usage_frame_service[OF Run(3) cl(1)])
  moreover have "j \<in> set (extraction_jobs d2)" using cl(2) fr by simp
  ultimately show ?thesis using extraction_ended_ok[OF Run(5) _ _ Run(2)] cl fr by simp
qed simp

lemma report_others:
  assumes "service_ok d" "run_next_change_report_job llm lx en threshold w d = (r, w', d')"
  shows "ingestion_jobs d' = ingestion_jobs d \<and> extraction_jobs d' = extraction_jobs d"
  using assms
proof (cases rule: report_pass)
  case (Capped j)
  then show ?thesis using claim_report_service[OF assms(1) Capped(1)] by simp
next
  case (Run j d1 d2)
  note cl = claim_report_service[OF assms(1) Run(1)] and fr = usage_frame_simps[OF Run(3)]
  have "service_ok d2" by (rule usage_frame_service[OF Run(3) cl(1)])
  moreover have "j \<in> set (report_jobs d2)" using cl(2) fr by simp
  ultimately show ?thesis using report_ended_ok[OF Run(4) _ _ Run(2)] cl fr by simp
qed simp

lemma queue_progress:
  assumes "service_ok d" "q \<in> set (queues env)" "q w d = (Inr True, w', d')"
  shows "progress d d'"
proof -
  consider "run_next_extraction_job (env_llm env) (env_coercions env) (env_extraction_threshold env) w d = (Inr True, w', d')"
    | "run_next_ingestion_job (env_llm env) (env_extractors env) (env_data_dir env) (env_files env) w d = (Inr True, w', d')"
    | "run_next_change_report_job (env_llm env) (env_coercions env) (env_engines env) (env_impact_threshold env) w d = (Inr True, w', d')"
    using assms(2,3) by (auto simp: queues_def)
  then show ?thesis
  proof cases
    case 1
    from extraction_settles[OF assms(1) 1] extraction_others[OF assms(1) 1] show ?thesis by (simp add: progress_def settles_refl)
  next
    case 2
    from ingestion_settles[OF assms(1) 2] ingestion_others[OF assms(1) 2] show ?thesis by (simp add: progress_def settles_refl)
  next
    case 3
    from report_settles[OF assms(1) 3] report_others[OF assms(1) 3] show ?thesis by (simp add: progress_def settles_refl)
  qed
qed

lemma pass_progress:
  assumes ok: "service_ok d" and run: "run_next_job env first w d = (Inr b, w', d')"
  shows "progress d d'"
proof -
  let ?qs = "map (\<lambda>k. queues env ! ((first + k) mod 3)) [0 ..< 3]"
  have a: "try_queues ?qs w d = (Inr b, w', d')" using run by (simp add: run_next_job_def Let_def)
  have b: "list_all (quiet w d) ?qs"
    using queues_quiet[OF ok, of w env] rotated_set[of env first] by (auto simp: list_all_iff)
  from try_queues_cases[OF b a] consider "d' = d" | q where "q \<in> set ?qs" "q w d = (Inr b, w', d')" "b"
    by (cases b) auto
  then show ?thesis
  proof cases
    case (2 q)
    then show ?thesis using queue_progress[OF ok, of q env w w' d'] rotated_set[of env first] by auto
  qed (simp add: progress_refl)
qed

text \<open>Nothing runnable and nothing running: everything has its verdict.\<close>

lemma idle_finished:
  assumes "no_running d" "list_all id (queue_idle d)"
  shows "all_finished d"
proof -
  have "\<not> list_ex (runnable (clock d)) (extraction_jobs d)" "\<not> list_ex (runnable (clock d)) (ingestion_jobs d)"
    "\<not> list_ex (runnable (clock d)) (report_jobs d)"
    using assms(2) by (simp_all add: queue_idle_def extraction_idle_def ingestion_idle_def report_idle_def)
  then show ?thesis using assms(1) by (auto simp: no_running_def all_finished_def list_all_iff list_ex_iff intro: stuck_finished)
qed

subsection \<open>The loop\<close>

definition unbroken :: "(exn + bool) list \<Rightarrow> bool" where
  "unbroken rs \<longleftrightarrow> list_all (\<lambda>r. case r of Inl _ \<Rightarrow> False | Inr _ \<Rightarrow> True) rs"

lemma loop_progress:
  "service_ok d \<Longrightarrow> no_running d \<Longrightarrow> worker_loop env turn ts w d = (rs, w', d') \<Longrightarrow> unbroken rs \<Longrightarrow>
   progress d d' \<and> no_running d' \<and> (Inr False \<in> set rs \<longrightarrow> all_finished d')"
proof (induction ts arbitrary: turn w d rs)
  case (Cons t ts)
  let ?d = "d\<lparr>clock := t\<rparr>"
  obtain r w1 d1 where s: "run_next_job env turn w ?d = (r, w1, d1)" by (metis prod_cases3)
  have ok: "service_ok ?d" using Cons.prems(1) by (simp add: service_clock)
  have nr: "no_running ?d" using Cons.prems(2) by (simp add: no_running_def)
  obtain b where r: "r = Inr b" using Cons.prems(3,4) s by (cases r) (auto simp: unbroken_def)
  obtain rs' where l: "worker_loop env ((turn + 1) mod queue_count) ts w1 d1 = (rs', w', d')" "rs = Inr b # rs'"
    using Cons.prems(3) s r by (auto split: prod.splits)
  have p: "progress ?d d1" by (rule pass_progress[OF ok s[unfolded r]])
  have laws: "service_ok d1" "b \<or> (d1 = ?d \<and> list_all id (queue_idle ?d))"
    using run_next_job_laws[OF ok s] r by auto
  have ih: "progress d1 d' \<and> no_running d' \<and> (Inr False \<in> set rs' \<longrightarrow> all_finished d')"
    using Cons.IH[OF laws(1) progress_keeps(1)[OF p nr] l(1)] Cons.prems(4) l(2) by (simp add: unbroken_def)
  have "all_finished d'" if "\<not> b"
    using that laws(2) idle_finished[OF nr] progress_keeps(2) ih by auto
  then show ?case using ih progress_trans[OF p] l(2) by (auto simp: progress_clock)
qed (simp add: progress_refl)

lemma loop_finishes:
  assumes "service_ok d" "no_running d" "worker_loop env turn ts w d = (rs, w', d')" "unbroken rs" "backlog d < length ts"
  shows "service_ok d' \<and> progress d d' \<and> all_finished d'"
proof -
  note laws = worker_loop_laws[OF assms(1,3)] and p = loop_progress[OF assms(1-4)]
  have no: "\<not> (rs \<noteq> [] \<and> (\<exists>e. last rs = Inl e))" using assms(4) last_in_set[of rs] by (fastforce simp: unbroken_def list_all_iff)
  have "Inr False \<in> set rs"
  proof (rule ccontr)
    assume "Inr False \<notin> set rs"
    then have "filter (\<lambda>r. r \<noteq> Inr False) rs = rs" by (auto intro: filter_True)
    then show False using laws no assms(5) by (simp add: backlog_def)
  qed
  then show ?thesis using laws p by blast
qed

subsection \<open>The requests around it\<close>

text \<open>The route that polls the job a request has queued, and what it shows of the tables.\<close>

fun polled_by :: "api_request \<Rightarrow> (uuid \<Rightarrow> api_request) option" where
  "polled_by (Post_Document_Ingestion _) = Some Get_Ingestion_Job"
| "polled_by (Post_Document_Extraction _) = Some Get_Extraction_Job"
| "polled_by (Post_Change_Report _ _) = Some Get_Change_Report_Job"
| "polled_by _ = None"

fun shown :: "uuid \<Rightarrow> db \<Rightarrow> api_request \<Rightarrow> job_read option" where
  "shown t d (Get_Ingestion_Job i) = map_option read_doc_job (find_job t i (ingestion_jobs d))"
| "shown t d (Get_Extraction_Job i) = map_option read_doc_job (find_job t i (extraction_jobs d))"
| "shown t d (Get_Change_Report_Job i) = map_option read_report_job (find_job t i (report_jobs d))"
| "shown t d _ = None"

lemma enqueue_no_running:
  "enqueue_ingestion ctx t i d = (r, d') \<Longrightarrow> no_running d \<Longrightarrow> no_running d'"
  "enqueue_extraction ctx t i d = (r, d') \<Longrightarrow> no_running d \<Longrightarrow> no_running d'"
  "enqueue_change_report ctx t b a d = (q, d') \<Longrightarrow> no_running d \<Longrightarrow> no_running d'"
  by (auto simp: enqueue_ingestion_def enqueue_extraction_def enqueue_change_report_def create_ingestion_job_def
      create_extraction_job_def create_report_job_def Let_def audit_record_def no_running_def new_doc_job_def new_report_job_def
      split: option.splits if_splits)

lemma doc_row_shown: "find_job t i rows = Some j \<Longrightarrow> jv_id (read_doc_job j) = i \<and> jv_tenant (read_doc_job j) = t"
  by (auto simp: find_job_def read_doc_job_def dest: find_Some_mem)

lemma report_row_shown: "find_job t i rows = Some j \<Longrightarrow> jv_id (read_report_job j) = i \<and> jv_tenant (read_report_job j) = t"
  by (auto simp: find_job_def read_report_job_def dest: find_Some_mem)

lemma posted_job:
  assumes ok: "service_ok (as_db st)" "no_running (as_db st)" and get: "polled_by rq = Some get"
    and call: "call_service env ctx t rq st = (Inr (B_Job v), st')"
  shows "service_ok (as_db st') \<and> no_running (as_db st') \<and> jv_tenant v = t \<and> shown t (as_db st') (get (jv_id v)) = Some v"
proof (cases rq)
  case (Post_Document_Ingestion i)
  obtain r d' where e: "enqueue_ingestion ctx t i (as_db st) = (r, d')" by fastforce
  obtain j where j: "r = Inr j" "v = read_doc_job j" "as_db st' = d'"
    using call e Post_Document_Ingestion by (cases r) (auto simp: call_service_unfold Let_def on_db_def)
  have "find_job t (job_id j) (ingestion_jobs d') = Some j" "service_ok d'"
    using enqueue_ingestion_quiet[OF ok(1) e] j(1) by (simp_all add: enqueued_def)
  then show ?thesis using enqueue_no_running(1)[OF e ok(2)] j get Post_Document_Ingestion doc_row_shown by fastforce
next
  case (Post_Document_Extraction i)
  obtain r d' where e: "enqueue_extraction ctx t i (as_db st) = (r, d')" by fastforce
  obtain j where j: "r = Inr j" "v = read_doc_job j" "as_db st' = d'"
    using call e Post_Document_Extraction by (cases r) (auto simp: call_service_unfold Let_def on_db_def)
  have "find_job t (job_id j) (extraction_jobs d') = Some j" "service_ok d'"
    using enqueue_extraction_quiet[OF ok(1) e] j(1) by (simp_all add: enqueued_def)
  then show ?thesis using enqueue_no_running(2)[OF e ok(2)] j get Post_Document_Extraction doc_row_shown by fastforce
next
  case (Post_Change_Report b a)
  obtain r d' where e: "enqueue_change_report ctx t b a (as_db st) = (r, d')" by fastforce
  obtain j where j: "r = Inr j" "v = read_report_job j" "as_db st' = d'"
    using call e Post_Change_Report by (cases r) (auto simp: call_service_unfold Let_def on_db_def)
  have "find_job t (job_id j) (report_jobs d') = Some j" "service_ok d'"
    using enqueue_report_quiet[OF ok(1) e] j(1) by (simp_all add: enqueued_def)
  then show ?thesis using enqueue_no_running(3)[OF e ok(2)] j get Post_Change_Report report_row_shown by fastforce
qed (use get in simp_all)

lemma polled_job:
  "polled_by rq = Some get \<Longrightarrow> shown t (as_db st) (get i) = Some v \<Longrightarrow> call_service env ctx t (get i) st = (Inr (B_Job v), st)"
  by (cases rq) (auto simp: call_service_unfold Let_def reading_def get_ingestion_job_def get_extraction_job_def
      get_change_report_job_def)

text \<open>A finished row shows no less than its verdict.\<close>

definition verdict_of :: "job_read \<Rightarrow> job_read \<Rightarrow> bool" where
  "verdict_of v v' \<longleftrightarrow> jv_id v' = jv_id v \<and> jv_tenant v' = jv_tenant v \<and> jv_documents v' = jv_documents v
     \<and> jv_status v' \<in> {Completed, Failed}"

lemma doc_verdict:
  assumes "settles rows rows'" "list_all finished rows'" "find_job t i rows = Some j"
  shows "\<exists>k. find_job t i rows' = Some k \<and> verdict_of (read_doc_job j) (read_doc_job k)"
proof -
  obtain k where k: "find_job t i rows' = Some k" "job.more k = job.more j" using find_job_settles[OF assms(1,3)] by blast
  have "dj_document k = dj_document j" using k(2) by (cases k, cases j) simp
  moreover have "finished k" using k(1) assms(2) by (auto simp: find_job_def list_all_iff dest: find_Some_mem)
  ultimately show ?thesis using k(1) doc_row_shown[OF k(1)] doc_row_shown[OF assms(3)]
    by (auto simp: verdict_of_def finished_def read_doc_job_def)
qed

lemma report_verdict:
  assumes "settles rows rows'" "list_all finished rows'" "find_job t i rows = Some j"
  shows "\<exists>k. find_job t i rows' = Some k \<and> verdict_of (read_report_job j) (read_report_job k)"
proof -
  obtain k where k: "find_job t i rows' = Some k" "job.more k = job.more j" using find_job_settles[OF assms(1,3)] by blast
  have "rj_base k = rj_base j \<and> rj_amended k = rj_amended j" using k(2) by (cases k, cases j) simp
  moreover have "finished k" using k(1) assms(2) by (auto simp: find_job_def list_all_iff dest: find_Some_mem)
  ultimately show ?thesis using k(1) report_row_shown[OF k(1)] report_row_shown[OF assms(3)]
    by (auto simp: verdict_of_def finished_def read_report_job_def)
qed

lemma shown_verdict:
  assumes "progress d d'" "all_finished d'" "polled_by rq = Some get" "shown t d (get i) = Some v"
  shows "\<exists>v'. shown t d' (get i) = Some v' \<and> verdict_of v v'"
  using assms doc_verdict report_verdict by (cases rq) (fastforce simp: progress_def all_finished_def)+

lemma served_job:
  assumes "serve env fresh raw header rq st = (resp, st')" "rs_content resp = B_Job v"
  shows "\<exists>p st1 ctx. admit env rq header st = (Inr (Some p), st1) \<and> call_service env ctx (pr_tenant p) rq st1 = (Inr (B_Job v), st')"
proof -
  let ?rid = "sanitize_request_id fresh (case raw of None \<Rightarrow> [] | Some i \<Rightarrow> i)"
  obtain r where r: "route env rq header ?rid st = (Some r, st')" "rs_content r = B_Job v"
    using serve_route[OF assms(1)] assms(2) by (auto split: option.splits)
  have err: "error_response e \<noteq> Some r" for e using error_response_status[of e r] r(2) by auto
  show ?thesis using r(1)
  proof (cases rule: route_cases)
    case (Served p st1 b)
    then show ?thesis using r(2) by (auto simp: ok_response_def)
  qed (use r(2) err in \<open>auto simp: ok_response_def\<close>)
qed

lemma serve_polled:
  assumes "admit env rq header st = (Inr (Some p), st1)" "valid_request rq"
    and "call_service env \<lparr>current_request_id = sanitize_request_id fresh (case raw of None \<Rightarrow> [] | Some i \<Rightarrow> i),
        current_actor = Some (pr_subject p)\<rparr> (pr_tenant p) rq st1 = (Inr b, st2)"
  shows "\<exists>resp. serve env fresh raw header rq st = (resp, st2) \<and> rs_status resp = success_status rq \<and> rs_content resp = b"
  using assms by (simp add: serve_def Let_def route_def ok_response_def)

subsection \<open>Properties\<close>


text \<open>
  The administrator of tenant 5 posts an ingestion of the sample document and polls it; the
  worker in between finds no stored bytes and fails the job. The second request finds the
  key set the first one fetched.
\<close>

abbreviation bearer :: "string option" where
  "bearer \<equiv> Some ''Bearer admin''"

abbreviation ann :: principal where
  "ann \<equiv> \<lparr>pr_tenant = 5, pr_role = Admin, pr_subject = ''ann''\<rparr>"

definition fetched_clients :: "nat jwks_clients" where
  "fetched_clients = fst (snd (get_principal sample_idp sample_jwt sample_settings bearer [] ()))"

lemma sample_principal_again: "fst (get_principal sample_idp sample_jwt sample_settings bearer fetched_clients ()) = Inr ann"
proof -
  have parts: "partition_space ''Bearer admin'' = (''Bearer'', ''admin'')" "py_lower ''Bearer'' = ''bearer''" "strip ''admin'' = ''admin''"
    by code_simp+
  show ?thesis
    by (simp add: fetched_clients_def get_principal_def get_jwks_client_def sample_settings_def default_settings_def parts
        verify_token_def sample_jwt_def sample_idp_def jwks_client_for_def new_jwks_client_def get_key_def older_def fetch_def
        fetch_keys_def iterated_def read_entry_def opt_truthy_def truthy_def hashable_def cached_key_def token_checks_def
        supported_algorithms_def claims_principal_def tenant_claim_def role_claim_def claim_text_def uuid_reads_back parse_role_def
        store_client_def client_key_def)
qed

lemma sample_admits:
  assumes "limited rq = None" "admitted rq = Some roles" "Admin \<in> set roles" "llm_dependency sample_api rq = Inr ()"
    and "as_clients st = [] \<or> as_clients st = fetched_clients"
  shows "fst (admit sample_api rq bearer st) = Inr (Some ann)"
    and "as_clients st = [] \<Longrightarrow> as_clients (snd (admit sample_api rq bearer st)) = fetched_clients"
proof -
  obtain q cs u where g: "get_principal sample_idp sample_jwt sample_settings bearer (as_clients st) () = (q, cs, u)" by (metis prod_cases3)
  have "q = Inr ann" using g assms(5) sample_principal sample_principal_again by auto
  moreover have "cs = fetched_clients" if "as_clients st = []" using g that by (simp add: fetched_clients_def)
  ultimately show "fst (admit sample_api rq bearer st) = Inr (Some ann)"
    and "as_clients st = [] \<Longrightarrow> as_clients (snd (admit sample_api rq bearer st)) = fetched_clients"
    using assms(1-4) g by (simp_all add: admit_def principal_dependency_def budget_dependency_def sample_api_def require_role_def)
qed

definition posted_db :: db where
  "posted_db = snd (enqueue_ingestion \<lparr>current_request_id = ''f'', current_actor = Some ''ann''\<rparr> 5 2 search_db)"


end
