(* ===== verification/Spec2Isabelle.thy ===== *)
theory Spec2Isabelle
  imports JobSpec Worker Wire MigrationEnv Evals Harness Scripts ToolCalls Process EndToEnd
begin

text \<open>
  Contract change intelligence: a verification development of the Python service under
  src/app, its database migrations (src/migrations), its evaluation harness (src/evals) and
  the scripts that seed it (src/evals, src/scripts).

  \<^bold>\<open>The program.\<close> Tenants upload agreements and amendments over HTTP. Requests only read
  and write rows and stored files; three queues of job rows carry the work to a worker
  process: ingestion parses a document, cuts it into chunks and embeds them; extraction asks
  a language model for obligations and checks their citations; a change report aligns the
  clauses of two versions, has the changes explained and maps them to obligations. Items of
  low confidence go to a review queue; every call of the model is accounted, every mutation
  audited.

  \<^bold>\<open>The theories,\<close> in order of import, with the code they model:
  \<^item> \<^verbatim>\<open>Prelude\<close>: tables as lists of rows (select, order, update, delete), scanning loops,
    and the generic lemmas on them. \<^verbatim>\<open>PyStr\<close>: the string methods the code calls.
  \<^item> \<^verbatim>\<open>ClauseNumber\<close>, \<^verbatim>\<open>Parsing\<close>, \<^verbatim>\<open>Spans\<close>, \<^verbatim>\<open>Chunking\<close>, \<^verbatim>\<open>Diffing\<close>: services/parsing.py,
    services/chunking.py and services/diffing.py, function by function.
  \<^item> \<^verbatim>\<open>Json\<close>, \<^verbatim>\<open>Errors\<close>: JSON values, and every exception class as a constructor of one
    type \<open>exn\<close>; a call that raises returns \<open>Inl\<close>.
  \<^item> \<^verbatim>\<open>Jobs\<close>, \<^verbatim>\<open>JobPool\<close>, \<^verbatim>\<open>JobSpec\<close>: the three job tables and repositories/job_claims.py (claims,
    leases, attempts), then any number of workers as a step relation over one table, then the
    queue such a table is meant to be, an abstract state machine, with the simulation.
  \<^item> \<^verbatim>\<open>Store\<close>, \<^verbatim>\<open>DbInv\<close>: all other tables (app/models) and repositories (app/repositories) as
    one record \<open>db\<close>, and its invariant \<open>db_ok\<close>: keys, foreign keys, tenants, distinct
    identifiers.
  \<^item> \<^verbatim>\<open>Llm\<close>: llm/client.py and llm/cost.py. The SDK is a parameter; \<^verbatim>\<open>Usage\<close>: services/usage.py
    and services/audit.py; \<^verbatim>\<open>Handlers\<close>: what the worker-side handlers share, among it the
    locale \<open>job_queue\<close>, the contract between a queue's handler and the worker.
  \<^item> \<^verbatim>\<open>Documents\<close> (services/documents.py, storage/local.py), \<^verbatim>\<open>Ingestion\<close>
    (services/ingestion.py), \<^verbatim>\<open>ReviewQueue\<close> (services/review_queue.py), \<^verbatim>\<open>Obligations\<close>
    (services/extraction.py), \<^verbatim>\<open>Search\<close> (services/search.py and the ranking queries),
    \<^verbatim>\<open>Impact\<close> (services/impact.py), \<^verbatim>\<open>ChangeReport\<close> (services/change_report.py).
  \<^item> \<^verbatim>\<open>Worker\<close>: worker.py, one turn over the queues and the loop.
  \<^item> \<^verbatim>\<open>Config\<close> (config.py), \<^verbatim>\<open>RateLimit\<close> (ratelimit.py), \<^verbatim>\<open>Jwks\<close> and \<^verbatim>\<open>Auth\<close> (app/auth,
    api/deps.py), \<^verbatim>\<open>Http\<close> (errors.py, middleware.py), \<^verbatim>\<open>Tenancy\<close> (what each service
    operation does to other tenants' rows; the locale \<open>multi_tenant\<close>), \<^verbatim>\<open>Api\<close> (api/routes and
    schemas: a request from the wire to the response), \<^verbatim>\<open>Wire\<close> (the JSON of each response
    model, from which the rows it shows can be told).
  \<^item> \<^verbatim>\<open>Migrations\<close>: the nine migrations and the metadata of the ORM classes over a model of
    the catalogue; \<^verbatim>\<open>MigrationEnv\<close>: migrations/env.py, its online and its offline mode, and the
    server that runs an emitted script. \<^verbatim>\<open>Evals\<close>: evals/metrics.py and the runs of evals/harness.py; \<^verbatim>\<open>Harness\<close>: its
    golden files and its command.
  \<^item> \<^verbatim>\<open>Scripts\<close>: evals/seed_fixtures.py and scripts/make_sample_report.py, two drivers of the
    services that run worker passes themselves; the locale \<open>settling_queue\<close> extends \<open>job_queue\<close>
    with what such a driver needs of a queue, and each of the three queues provides it.
  \<^item> \<^verbatim>\<open>JsonText\<close>: what json.dumps writes; on it \<^verbatim>\<open>ToolCalls\<close>, the tool loop of llm/client.py,
    and \<^verbatim>\<open>Process\<close>: logging_config.py, db.py, main.py and the process around the worker's loop,
    a record of the singletons they set.
  \<^item> \<^verbatim>\<open>EndToEnd\<close>: a request, the worker's loop and the poll that follows, over one database.

  \<^bold>\<open>State.\<close> A service operation takes the rows \<open>db\<close>, the stored files and the world \<open>'w\<close>
  behind its parameters, and returns them updated next to its result. The clock is a field
  of \<open>db\<close>; identifiers are fresh numbers. Operations that commit more than once, or read
  before they write, take a function \<open>others\<close>, what other sessions did in between; the
  HTTP model instantiates it with the identity, one request after another.

  \<^bold>\<open>What the lemmas show.\<close> Text processing: blocks, chunks, sections and changes are slices
  of the parsed text at the offsets they carry, nothing is lost between blocks and chunks,
  and the one-pass loops equal their reference definitions. Jobs: one live lease at a time,
  terminal rows stay terminal, the claim is the oldest runnable job. Handlers: a pass that
  returns leaves its job terminal with exactly the result, status, review items and usage
  rows that belong to it; the exceptions that can escape are named. Worker: the queue whose
  turn it is gets served, and a quiet system is drained. Rows: each operation keeps \<open>db_ok\<close>,
  deletion leaves no reference, citations stay grounded. Tenants: no request changes or
  shows the rows or files of another tenant, and nothing changes without a token that
  verifies under a published key. Schema: downgrade undoes upgrade, the migrations build
  what the ORM classes declare, and the offline script does what the online run does.
  Refinement: while leases are kept, a table with its workers is a queue whose jobs have one
  holder and one verdict. End to end: what a request queues is decided when the tenant polls
  after enough passes. Evaluation: every score is a fraction. Scripts: a bounded wait
  for a job outlasts the backlog ahead of it, the published sample is a stored report, a
  re-run reuses its uploads. Tool loop: the number of requests is bounded and every tool call
  is answered once. Process: a JSON log record is one line, the engine is open exactly while
  the process serves.

  \<^bold>\<open>Bounds and fuel.\<close> Loops over data recurse on the data. \<open>worker_loop\<close> runs once per given
  clock reading, so that the endless loop is observed for any finite time; the theory
  gives the number of turns that suffices. Extraction's retry loop counts the attempts that
  are left, two in all. The scripts' loops recurse on their fifty passes and the tool loop on its
  rounds, as the code bounds them. \<open>upgrade_head\<close>, \<open>plan\<close> and \<open>downgrade_base\<close> have a step bound; ten steps are
  one more than there are revisions, and the proofs show that the last step finds none.

  \<^bold>\<open>Parameters.\<close> Code that is not under src is an argument: the PDF, DOCX and zip readers,
  the hash, the OpenAI SDK, pydantic's coercion of numbers, the vector and full-text ordering
  of the database, PyJWT, the identity provider, the limits library. Where a property relies
  on one of them, its documented behaviour is a named hypothesis with an instance
  (\<open>orders_rows\<close>, \<open>fixed_window\<close>, \<open>coerces_numbers\<close>, \<open>counts_requests\<close>).

  \<^bold>\<open>Not modelled.\<close> Strings are Latin-1: a text with another character is the marker
  \<open>Not_Latin1\<close>. Floating-point numbers are exact rationals. Of the texts PostgreSQL refuses,
  those with a zero byte are treated where a parser, the model, a file name, a search or a
  reviewer can bring one in; audit and usage rows are taken to have none. Timing, the closing of HTTP wires, the delivery and level
  filtering of log lines, command lines and
  files of the harness and scripts beyond the text they hold are left out: they carry no
  state of the service. Golden records reach the runs typed. Requests arrive with
  typed path and body; FastAPI's parsing is not modelled, its declared constraints are.
  The web client and the infrastructure are other languages.

  \<^bold>\<open>Deviations the modelling showed.\<close> Two handlers documented as never raising let a key
  error or an index error through (theories \<^verbatim>\<open>Obligations\<close> and \<^verbatim>\<open>ChangeReport\<close>), ingestion
  those of storing text and embeddings (\<^verbatim>\<open>Ingestion\<close>), so that one PDF with a zero byte ends three
  worker processes (\<^verbatim>\<open>Worker\<close>); a worker whose lease lapsed can overwrite a verdict
  and leave a failed row with a result (\<^verbatim>\<open>JobPool\<close>); a failing identity provider is asked
  again by every request (\<^verbatim>\<open>Jwks\<close>); an over-long filename, or one with a zero byte, ends in a server error with its
  bytes stored (\<^verbatim>\<open>Api\<close>); a parent that vanishes reads as a duplicate (\<^verbatim>\<open>Documents\<close>); changes
  the diff misses cost an evaluation record nothing (\<^verbatim>\<open>Evals\<close>); a driver's loop never looks
  at what its last pass did (\<^verbatim>\<open>Scripts\<close>).
\<close>

end
